(* ===== verification/Prelude.thy ===== *)
theory Prelude
  imports Main "HOL-Library.Word"
begin

text \<open>
  Shared vocabulary of the development.

  The theory fixes how the C++ data of the chat program is represented: bytes and fixed-width
  integers are machine words, a \<^verbatim>\<open>std::string\<close> is a list of 8-bit characters, a
  \<^verbatim>\<open>std::vector<uint8_t>\<close> is a list of bytes, and an operation that may throw returns a value
  of \<open>exn + 'a\<close>. A read past the end of a buffer is not a C++ exception: it is the separate
  outcome \<open>UndefinedBehaviour\<close>, which the memory-safety theorems exclude.

  It also holds the big-endian integer codecs of \<^verbatim>\<open>common/Protocol.hpp\<close>, which every other
  component uses, the generic decoding loop with the interface of an item codec, and the list
  and map lemmas shared by the components.
\<close>

unbundle bit_operations_syntax

section \<open>Types\<close>

type_synonym byte = "8 word"
type_synonym bytes = "8 word list"
type_synonym u16 = "16 word"
type_synonym u32 = "32 word"
type_synonym u64 = "64 word"

text \<open>
  What an operation can raise. \<open>what\<close> is the text of \<^verbatim>\<open>std::exception::what()\<close>, which the
  program sends back to clients and writes to logs. The texts of the last three exceptions are
  those of libstdc++.
\<close>

datatype exn =
    RuntimeError string
  | CipherError string
  | BadVariantAccess
  | InvalidArgument string
  | OutOfRange string
  | UndefinedBehaviour

fun what :: "exn \<Rightarrow> string" where
  "what (RuntimeError s) = s"
| "what (CipherError s) = s"
| "what BadVariantAccess = ''std::get: wrong index for variant''"
| "what (InvalidArgument s) = s"
| "what (OutOfRange s) = s"
| "what UndefinedBehaviour = ''''"

type_synonym 'a res = "exn + 'a"

text \<open>Sequencing of throwing operations: the first exception wins.\<close>

definition bindr :: "'e + 'a \<Rightarrow> ('a \<Rightarrow> 'e + 'b) \<Rightarrow> 'e + 'b" where
  "bindr m f = (case m of Inl e \<Rightarrow> Inl e | Inr x \<Rightarrow> f x)"

section \<open>Strings and bytes\<close>

definition byte_of_char :: "char \<Rightarrow> byte" where
  "byte_of_char c = word_of_nat (of_char c)"

definition char_of_byte :: "byte \<Rightarrow> char" where
  "char_of_byte b = char_of (unat b)"

definition string_bytes :: "string \<Rightarrow> bytes" where
  "string_bytes s = map byte_of_char s"

definition bytes_string :: "bytes \<Rightarrow> string" where
  "bytes_string bs = map char_of_byte bs"

section \<open>Big-endian integers (Protocol.hpp)\<close>

definition write_u16_be :: "bytes \<Rightarrow> u16 \<Rightarrow> bytes" where
  "write_u16_be out v = out @ [ucast (drop_bit 8 v AND 0xFF), ucast (v AND 0xFF)]"

definition write_u32_be :: "bytes \<Rightarrow> u32 \<Rightarrow> bytes" where
  "write_u32_be out v =
     out @ [ucast (drop_bit 24 v AND 0xFF), ucast (drop_bit 16 v AND 0xFF),
            ucast (drop_bit 8 v AND 0xFF), ucast (v AND 0xFF)]"

definition encode_u32_be :: "u32 \<Rightarrow> bytes" where
  "encode_u32_be v = write_u32_be [] v"

fun read_u16_be :: "bytes \<Rightarrow> u16 res" where
  "read_u16_be (a # b # _) = Inr (push_bit 8 (ucast a) OR ucast b)"
| "read_u16_be _ = Inl UndefinedBehaviour"

fun read_u32_be :: "bytes \<Rightarrow> u32 res" where
  "read_u32_be (a # b # c # d # _) =
     Inr (push_bit 24 (ucast a) OR push_bit 16 (ucast b) OR push_bit 8 (ucast c) OR ucast d)"
| "read_u32_be _ = Inl UndefinedBehaviour"

section \<open>The decoding loop\<close>

text \<open>
  The loop \<^verbatim>\<open>for (uint16_t i = 0; i < count; ++i) out.push_back(item(data, len, offset))\<close> of the
  decoders: \<open>item\<close> takes the buffer and the offset and returns the value and the next offset.
\<close>

fun decode_items :: "(bytes \<Rightarrow> nat \<Rightarrow> ('a \<times> nat) res) \<Rightarrow> nat \<Rightarrow> bytes \<Rightarrow> nat \<Rightarrow> ('a list \<times> nat) res" where
  "decode_items item 0 data off = Inr ([], off)"
| "decode_items item (Suc n) data off =
     bindr (item data off) (\<lambda>(x, off').
     bindr (decode_items item n data off') (\<lambda>(xs, off''). Inr (x # xs, off'')))"

section \<open>Lemmas on results\<close>

lemma bindr_simps [simp]:
  "bindr (Inl e) f = Inl e" "bindr (Inr x) f = f x"
  by (simp_all add: bindr_def)

lemma bindr_eq_Inr [simp]: "bindr m f = Inr y \<longleftrightarrow> (\<exists>x. m = Inr x \<and> f x = Inr y)"
  by (cases m) auto

lemma bindr_eq_Inl: "bindr m f = Inl e \<longleftrightarrow> m = Inl e \<or> (\<exists>x. m = Inr x \<and> f x = Inl e)"
  by (cases m) auto

lemma bindr_neq_Inl [intro]:
  "m \<noteq> Inl e \<Longrightarrow> (\<And>x. m = Inr x \<Longrightarrow> f x \<noteq> Inl e) \<Longrightarrow> bindr m f \<noteq> Inl e"
  by (cases m) auto

section \<open>Lemmas on strings and bytes\<close>

lemma char_of_byte_of_char [simp]: "char_of_byte (byte_of_char c) = c"
  by (simp add: char_of_byte_def byte_of_char_def unat_of_nat)

lemma byte_of_char_of_byte [simp]: "byte_of_char (char_of_byte b) = b"
proof -
  have "unat b < 256" using unsigned_less [of b] by simp
  then show ?thesis by (simp add: char_of_byte_def byte_of_char_def)
qed

lemma bytes_string_inverse [simp]: "bytes_string (string_bytes s) = s"
  by (simp add: bytes_string_def string_bytes_def comp_def)

lemma string_bytes_inverse [simp]: "string_bytes (bytes_string bs) = bs"
  by (simp add: bytes_string_def string_bytes_def comp_def)

lemma length_string_bytes [simp]: "length (string_bytes s) = length s"
  by (simp add: string_bytes_def)

lemma length_bytes_string [simp]: "length (bytes_string bs) = length bs"
  by (simp add: bytes_string_def)

section \<open>Lemmas on the integer codecs\<close>

lemma length_write_u16_be [simp]: "length (write_u16_be out v) = length out + 2"
  by (simp add: write_u16_be_def)

lemma length_write_u32_be [simp]: "length (write_u32_be out v) = length out + 4"
  by (simp add: write_u32_be_def)

lemma length_encode_u32_be [simp]: "length (encode_u32_be v) = 4"
  by (simp add: encode_u32_be_def)

lemma write_u16_be_append: "write_u16_be out v = out @ write_u16_be [] v"
  by (simp add: write_u16_be_def)

lemma write_u32_be_append: "write_u32_be out v = out @ encode_u32_be v"
  by (simp add: write_u32_be_def encode_u32_be_def)

lemma byte_mask: "(0xFF :: 'a::len word) = mask 8"
  by (simp add: mask_eq_exp_minus_1)

lemma join_u16: "push_bit 8 (ucast (ucast (drop_bit 8 v AND 0xFF) :: byte)) OR
    ucast (ucast (v AND 0xFF) :: byte) = (v :: u16)"
  unfolding byte_mask by (rule bit_word_eqI) (auto simp: bit_simps)

lemma join_u32: "push_bit 24 (ucast (ucast (drop_bit 24 v AND 0xFF) :: byte)) OR
    push_bit 16 (ucast (ucast (drop_bit 16 v AND 0xFF) :: byte)) OR
    push_bit 8 (ucast (ucast (drop_bit 8 v AND 0xFF) :: byte)) OR
    ucast (ucast (v AND 0xFF) :: byte) = (v :: u32)"
  (is "?l = v")
proof (rule bit_word_eqI)
  fix n
  assume "n < LENGTH(32)"
  then consider "n < 8" | "8 \<le> n" "n < 16" | "16 \<le> n" "n < 24" | "24 \<le> n" "n < 32"
    by fastforce
  then show "bit ?l n = bit v n"
    unfolding byte_mask by cases (auto simp: bit_simps)
qed

lemma read_write_u16 [simp]: "read_u16_be (write_u16_be [] v @ rest) = Inr v"
  by (simp add: write_u16_be_def join_u16)

lemma read_encode_u32 [simp]: "read_u32_be (encode_u32_be v @ rest) = Inr v"
  by (simp add: encode_u32_be_def write_u32_be_def join_u32 or.assoc)

lemma read_write_u16_end [simp]: "read_u16_be (write_u16_be [] v) = Inr v"
  using read_write_u16 [of v "[]"] by simp

lemma read_encode_u32_end [simp]: "read_u32_be (encode_u32_be v) = Inr v"
  using read_encode_u32 [of v "[]"] by simp

text \<open>Both readers fail exactly on a buffer that is too short.\<close>

lemma read_u16_be_Inl [simp]: "read_u16_be bs = Inl e \<longleftrightarrow> length bs < 2 \<and> e = UndefinedBehaviour"
  by (cases bs rule: read_u16_be.cases) auto

lemma read_u32_be_Inl [simp]: "read_u32_be bs = Inl e \<longleftrightarrow> length bs < 4 \<and> e = UndefinedBehaviour"
  by (cases bs rule: read_u32_be.cases) auto

lemma read_u16_be_total: "2 \<le> length bs \<Longrightarrow> \<exists>v. read_u16_be bs = Inr v"
  by (cases "read_u16_be bs") auto

lemma read_u32_be_total: "4 \<le> length bs \<Longrightarrow> \<exists>v. read_u32_be bs = Inr v"
  by (cases "read_u32_be bs") auto

text \<open>What was read is what the writer would have written.\<close>

lemma write_read_u16:
  assumes "read_u16_be bs = Inr v"
  shows "write_u16_be [] v = take 2 bs"
proof -
  obtain a b r where bs: "bs = a # b # r"
    using assms by (cases bs rule: read_u16_be.cases) auto
  have v: "v = push_bit 8 (ucast a) OR ucast b" using assms by (simp add: bs)
  have "ucast (drop_bit 8 v AND 0xFF) = a"
    unfolding v byte_mask by (rule bit_word_eqI) (auto simp: bit_simps dest: bit_imp_le_length)
  moreover have "ucast (v AND 0xFF) = b"
    unfolding v byte_mask by (rule bit_word_eqI) (auto simp: bit_simps dest: bit_imp_le_length)
  ultimately show ?thesis by (simp add: write_u16_be_def bs)
qed

lemma obtain_u16:
  obtains v where "[a, b] = write_u16_be [] v"
proof -
  have "write_u16_be [] (push_bit 8 (ucast a) OR ucast b) = [a, b]"
    using write_read_u16 [of "[a, b]"] by simp
  then show ?thesis by (rule that [OF sym])
qed

lemma write_read_u32:
  assumes "read_u32_be bs = Inr v"
  shows "encode_u32_be v = take 4 bs"
proof -
  obtain a b c d r where bs: "bs = a # b # c # d # r"
    using assms by (cases bs rule: read_u32_be.cases) auto
  have v: "v = push_bit 24 (ucast a) OR push_bit 16 (ucast b) OR push_bit 8 (ucast c) OR ucast d"
    using assms by (simp add: bs)
  have "ucast (drop_bit 24 v AND 0xFF) = a"
    unfolding v byte_mask by (rule bit_word_eqI) (auto simp: bit_simps dest: bit_imp_le_length)
  moreover have "ucast (drop_bit 16 v AND 0xFF) = b"
    unfolding v byte_mask by (rule bit_word_eqI) (auto simp: bit_simps dest: bit_imp_le_length)
  moreover have "ucast (drop_bit 8 v AND 0xFF) = c"
    unfolding v byte_mask by (rule bit_word_eqI) (auto simp: bit_simps dest: bit_imp_le_length)
  moreover have "ucast (v AND 0xFF) = d"
    unfolding v byte_mask by (rule bit_word_eqI) (auto simp: bit_simps dest: bit_imp_le_length)
  ultimately show ?thesis by (simp add: encode_u32_be_def write_u32_be_def bs)
qed

lemma unat_u16_of_nat: "n < 65536 \<Longrightarrow> unat (word_of_nat n :: u16) = n"
  by (simp add: unat_of_nat)

lemma unat_u16_less: "unat (v :: u16) < 65536"
  using unsigned_less [of v] by simp

section \<open>Item codecs\<close>

lemma decode_items_Inl:
  assumes "\<And>off e. item data off = Inl e \<Longrightarrow> P e"
  shows "decode_items item n data off = Inl e \<Longrightarrow> P e"
  by (induction n arbitrary: off) (auto simp: bindr_eq_Inl dest: assms)

lemma decode_items_length: "decode_items item n data off = Inr (xs, off') \<Longrightarrow> length xs = n"
  by (induction n arbitrary: off xs off') auto

lemma decode_items_all:
  assumes "\<And>off x off'. item data off = Inr (x, off') \<Longrightarrow> P x"
  shows "decode_items item n data off = Inr (xs, off') \<Longrightarrow> \<forall>x \<in> set xs. P x"
  by (induction n arbitrary: off xs off') (auto dest: assms)

text \<open>
  The contract of a length-delimited item: whatever surrounds it, the decoder recovers the
  encoded value and stops right behind it.
\<close>

locale item_codec =
  fixes enc :: "'a \<Rightarrow> bytes"
    and item :: "bytes \<Rightarrow> nat \<Rightarrow> ('a \<times> nat) res"
    and good :: "'a \<Rightarrow> bool"
  assumes item_enc:
    "good x \<Longrightarrow> item (pre @ enc x @ post) (length pre) = Inr (x, length pre + length (enc x))"
begin

lemma items_enc:
  "\<forall>x \<in> set xs. good x \<Longrightarrow>
   decode_items item (length xs) (pre @ concat (map enc xs) @ post) (length pre) =
     Inr (xs, length pre + length (concat (map enc xs)))"
proof (induction xs arbitrary: pre)
  case (Cons x xs)
  have "item (pre @ enc x @ concat (map enc xs) @ post) (length pre) =
      Inr (x, length pre + length (enc x))"
    using Cons.prems by (simp add: item_enc)
  moreover have "decode_items item (length xs) ((pre @ enc x) @ concat (map enc xs) @ post)
      (length (pre @ enc x)) = Inr (xs, length (pre @ enc x) + length (concat (map enc xs)))"
    using Cons.prems by (intro Cons.IH) simp
  ultimately show ?case by simp
qed simp

end

text \<open>A codec whose decoder also rejects every item that has been cut short.\<close>

locale strict_item_codec = item_codec +
  assumes item_short:
    "good x \<Longrightarrow> k < length (enc x) \<Longrightarrow> \<exists>e. item (pre @ take k (enc x)) (length pre) = Inl e"
begin

lemma items_short:
  "\<forall>x \<in> set xs. good x \<Longrightarrow> k < length (concat (map enc xs)) \<Longrightarrow>
   \<exists>e. decode_items item (length xs) (pre @ take k (concat (map enc xs))) (length pre) = Inl e"
proof (induction xs arbitrary: pre k)
  case (Cons x xs)
  show ?case
  proof (cases "k < length (enc x)")
    case True
    then show ?thesis using Cons.prems item_short [of x k pre] by auto
  next
    case False
    let ?k = "k - length (enc x)"
    have "\<exists>e. decode_items item (length xs) ((pre @ enc x) @ take ?k (concat (map enc xs)))
        (length (pre @ enc x)) = Inl e"
      using Cons.prems False by (intro Cons.IH) auto
    moreover have "item (pre @ enc x @ take ?k (concat (map enc xs))) (length pre) =
        Inr (x, length pre + length (enc x))"
      using Cons.prems by (simp add: item_enc)
    ultimately show ?thesis using False by (auto simp: bindr_eq_Inl)
  qed
qed simp

end

end
