(* ===== verification/ModbusTcp.thy ===== *)
theory ModbusTcp
  imports Prelude
begin

text \<open>
  The MBAP framing layer (\<^verbatim>\<open>common/ModbusTcp.hpp\<close>, \<^verbatim>\<open>common/ModbusTcp.cpp\<close>): frames, their
  encoding to bytes, the incremental decoder, and the blocking socket loops that move whole
  frames over a byte stream.

  A socket is seen through what the system calls return. The read side is a list of
  \<open>sock_event\<close>s, one per round of the poll-and-read loop; running out of events means that
  \<^verbatim>\<open>poll\<close> waits forever, which is the outcome \<open>None\<close>. The write side is the list of return
  values of \<^verbatim>\<open>send\<close>, with the bytes accepted so far as the wire.
\<close>

section \<open>Frames\<close>

record frame =
  transaction_id :: u16
  unit_id :: byte
  pdu :: bytes

definition kAppFunctionCode :: byte where "kAppFunctionCode = 0x41"
definition kMbapHeaderSize :: nat where "kMbapHeaderSize = 6"
definition kMbapUnitHeaderSize :: nat where "kMbapUnitHeaderSize = 7"
definition kMbapLengthFieldOffset :: nat where "kMbapLengthFieldOffset = 4"
definition kUnitIdLengthContribution :: nat where "kUnitIdLengthContribution = 1"
definition kProtocolId :: u16 where "kProtocolId = 0"

section \<open>Network byte order\<close>

text \<open>
  The framing layer reads and writes 16-bit fields through \<^verbatim>\<open>memcpy\<close> and \<^verbatim>\<open>ntohs\<close>/\<^verbatim>\<open>htons\<close>
  instead of the shifts of \<^verbatim>\<open>Protocol.hpp\<close>. The host is little-endian: the byte at the lower
  address is the low byte of the value, and the conversions swap the two bytes.
\<close>

definition ntohs :: "u16 \<Rightarrow> u16" where
  "ntohs v = push_bit 8 v OR drop_bit 8 v"

definition htons :: "u16 \<Rightarrow> u16" where
  "htons v = push_bit 8 v OR drop_bit 8 v"

fun modbus_read_u16_be :: "bytes \<Rightarrow> u16 res" where
  "modbus_read_u16_be (a # b # _) = Inr (ntohs (ucast a OR push_bit 8 (ucast b)))"
| "modbus_read_u16_be _ = Inl UndefinedBehaviour"

definition modbus_write_u16_be :: "bytes \<Rightarrow> u16 \<Rightarrow> bytes" where
  "modbus_write_u16_be out v = (let net = htons v in out @ [ucast net, ucast (drop_bit 8 net)])"

section \<open>Encoding and decoding\<close>

definition encode :: "frame \<Rightarrow> bytes" where
  "encode f =
    (let out = modbus_write_u16_be [] (transaction_id f);
         out = modbus_write_u16_be out kProtocolId;
         out = modbus_write_u16_be out (word_of_nat (length (pdu f) + kUnitIdLengthContribution))
     in out @ [unit_id f] @ pdu f)"

text \<open>
  \<^verbatim>\<open>decode\<close> returns the frame and the number of consumed bytes, or nothing when the buffer does
  not hold a whole frame. The range handed to \<^verbatim>\<open>vector::assign\<close> ends before it starts when the
  length field is 0, which is undefined.
\<close>

definition decode :: "bytes \<Rightarrow> (frame \<times> nat) option res" where
  "decode buffer =
    (if length buffer < kMbapUnitHeaderSize then Inr None
     else bindr (modbus_read_u16_be (drop kMbapLengthFieldOffset buffer)) (\<lambda>len.
       let total = kMbapHeaderSize + unat len in
       if length buffer < total then Inr None
       else bindr (modbus_read_u16_be buffer) (\<lambda>tid.
         if total < kMbapUnitHeaderSize then Inl UndefinedBehaviour
         else Inr (Some (\<lparr>transaction_id = tid, unit_id = buffer ! kMbapHeaderSize,
                          pdu = take (total - kMbapUnitHeaderSize) (drop kMbapUnitHeaderSize buffer)\<rparr>,
                         total)))))"

section \<open>Blocking socket loops\<close>

text \<open>
  One round of the loop of \<^verbatim>\<open>read_exact\<close>: \<^verbatim>\<open>poll\<close> failed or timed out; \<^verbatim>\<open>poll\<close> reported an error
  or a hang-up; \<^verbatim>\<open>read\<close> failed; or the bytes of a segment are waiting, of which \<^verbatim>\<open>read\<close> returns as
  many as were asked for. An empty segment is the end of the stream.
\<close>

datatype sock_event = PollFailed | PollHangup | ReadFailed | Segment bytes

function read_exact :: "sock_event list \<Rightarrow> nat \<Rightarrow> bytes \<Rightarrow> (bool \<times> bytes \<times> sock_event list) option" where
  "read_exact evs sz buffer =
    (if length buffer < sz then
       (case evs of
          [] \<Rightarrow> None
        | PollFailed # es \<Rightarrow> Some (False, buffer, es)
        | PollHangup # es \<Rightarrow> Some (False, buffer, es)
        | ReadFailed # es \<Rightarrow> Some (False, buffer, es)
        | Segment bs # es \<Rightarrow>
            if bs = [] then Some (False, buffer, es)
            else let n = min (length bs) (sz - length buffer);
                     es' = (if n < length bs then Segment (drop n bs) # es else es)
                 in read_exact es' sz (buffer @ take n bs))
     else Some (True, buffer, evs))"
  by pat_completeness auto
termination
  by (relation "measure (\<lambda>(evs, sz, buffer). sz - length buffer)")
    (auto simp: min_def neq_Nil_conv split: if_splits)

declare read_exact.simps [simp del]

fun write_exact :: "int list \<Rightarrow> bytes \<Rightarrow> nat \<Rightarrow> bytes \<Rightarrow> (bool \<times> bytes \<times> int list) option" where
  "write_exact rs buffer sent wire =
    (if sent < length buffer then
       (case rs of
          [] \<Rightarrow> None
        | n # rs' \<Rightarrow>
            if n \<le> 0 then Some (False, wire, rs')
            else let k = min (nat n) (length buffer - sent)
                 in write_exact rs' buffer (sent + k) (wire @ take k (drop sent buffer)))
     else Some (True, wire, rs))"

declare write_exact.simps [simp del]

definition read_frame :: "sock_event list \<Rightarrow> (frame option res \<times> sock_event list) option" where
  "read_frame evs =
    (case read_exact evs kMbapHeaderSize [] of
       None \<Rightarrow> None
     | Some (ok, header, es) \<Rightarrow>
         if \<not> ok then Some (Inr None, es)
         else (case modbus_read_u16_be (drop kMbapLengthFieldOffset header) of
             Inl e \<Rightarrow> Some (Inl e, es)
           | Inr len \<Rightarrow>
               if len = 0 then Some (Inr None, es)
               else (case read_exact es (unat len) [] of
                   None \<Rightarrow> None
                 | Some (ok, rest, es') \<Rightarrow>
                     if \<not> ok then Some (Inr None, es')
                     else let buffer = header @ rest in
                       Some (bindr (decode buffer) (\<lambda>r.
                         case r of
                           None \<Rightarrow> Inr None
                         | Some (f, consumed) \<Rightarrow>
                             if consumed \<noteq> length buffer then Inr None else Inr (Some f)), es'))))"

definition write_frame :: "int list \<Rightarrow> frame \<Rightarrow> bytes \<Rightarrow> (bool \<times> bytes \<times> int list) option" where
  "write_frame rs f wire = write_exact rs (encode f) 0 wire"

text \<open>Receiving a run of frames, as the receive loops of both programs do.\<close>

fun read_frames :: "nat \<Rightarrow> sock_event list \<Rightarrow> (frame list \<times> sock_event list) option" where
  "read_frames 0 evs = Some ([], evs)"
| "read_frames (Suc n) evs =
     (case read_frame evs of
        Some (Inr (Some f), es) \<Rightarrow>
          (case read_frames n es of Some (fs, es') \<Rightarrow> Some (f # fs, es') | None \<Rightarrow> None)
      | _ \<Rightarrow> None)"

section \<open>Lemmas\<close>

lemmas mbap_sizes [simp] = kMbapHeaderSize_def kMbapUnitHeaderSize_def
  kMbapLengthFieldOffset_def kUnitIdLengthContribution_def

subsection \<open>The two big-endian codecs agree\<close>

lemma modbus_read_eq: "modbus_read_u16_be bs = read_u16_be bs"
proof (cases bs rule: read_u16_be.cases)
  case (1 a b r)
  have "ntohs (ucast a OR push_bit 8 (ucast b)) = push_bit 8 (ucast a) OR ucast b"
    unfolding ntohs_def by (rule bit_word_eqI) (auto simp: bit_simps dest: bit_imp_le_length)
  with 1 show ?thesis by simp
qed simp_all

lemma modbus_write_eq: "modbus_write_u16_be out v = write_u16_be out v"
proof -
  have "(ucast (htons v) :: byte) = ucast (drop_bit 8 v AND 0xFF)"
    unfolding htons_def byte_mask by (rule bit_word_eqI) (auto simp: bit_simps)
  moreover have "(ucast (drop_bit 8 (htons v)) :: byte) = ucast (v AND 0xFF)"
    unfolding htons_def byte_mask by (rule bit_word_eqI) (auto simp: bit_simps)
  ultimately show ?thesis by (simp add: modbus_write_u16_be_def write_u16_be_def Let_def)
qed

lemmas modbus_u16 = modbus_read_eq modbus_write_eq

subsection \<open>Encoding and decoding\<close>

lemma encode_layout:
  "encode f = write_u16_be [] (transaction_id f) @ write_u16_be [] kProtocolId @
     write_u16_be [] (word_of_nat (length (pdu f) + 1)) @ [unit_id f] @ pdu f"
  by (simp add: encode_def modbus_write_eq write_u16_be_def)

lemma length_encode [simp]: "length (encode f) = 7 + length (pdu f)"
  by (simp add: encode_layout)

text \<open>The decoder on a buffer that starts with the seven header bytes, in closed form.\<close>

lemma decode_header:
  "decode (write_u16_be [] t @ write_u16_be [] p @ write_u16_be [] l @ u # body) =
    (if 7 + length body < 6 + unat l then Inr None
     else if l = 0 then Inl UndefinedBehaviour
     else Inr (Some (\<lparr>transaction_id = t, unit_id = u, pdu = take (unat l - 1) body\<rparr>, 6 + unat l)))"
  by (simp add: decode_def modbus_u16 write_u16_be_def join_u16 Let_def unat_eq_zero
      flip: unat_gt_0)

lemma decode_encode_append:
  assumes "length (pdu f) < 65535"
  shows "decode (encode f @ rest) = Inr (Some (f, length (encode f)))"
proof -
  have "unat (word_of_nat (length (pdu f) + 1) :: u16) = length (pdu f) + 1"
    using assms by (intro unat_u16_of_nat) simp
  then show ?thesis
    by (simp add: encode_layout decode_header flip: unat_gt_0)
qed

text \<open>What the decoder makes of an oversized frame, whose length field wraps around.\<close>

lemma decode_encode_wrap:
  assumes "length (pdu f) = 65535 + k" and "k < 65536"
  shows "decode (encode f @ rest) =
    (if k = 0 then Inl UndefinedBehaviour
     else Inr (Some (f\<lparr>pdu := take (k - 1) (pdu f)\<rparr>, 6 + k)))"
proof -
  define l :: u16 where "l = word_of_nat (length (pdu f) + 1)"
  have "unat l = k"
    unfolding l_def by (simp only: unat_of_nat) (use assms in simp)
  moreover from this have "l = 0 \<longleftrightarrow> k = 0" by (metis unat_eq_zero)
  moreover have "encode f @ rest = write_u16_be [] (transaction_id f) @ write_u16_be [] kProtocolId @
      write_u16_be [] l @ unit_id f # pdu f @ rest"
    by (simp add: encode_layout l_def)
  ultimately show ?thesis
    using assms by (simp add: decode_header)
qed

text \<open>Every buffer of at least seven bytes splits into header fields and body.\<close>

lemma buffer_header:
  assumes "7 \<le> length buffer"
  obtains t p l u body where
    "buffer = write_u16_be [] t @ write_u16_be [] p @ write_u16_be [] l @ u # body"
    "length body = length buffer - 7" "read_u16_be (drop 4 buffer) = Inr l"
proof -
  obtain a b c d e f u body where buf: "buffer = a # b # c # d # e # f # u # body"
    using assms by (auto simp: numeral_eq_Suc Suc_le_length_iff)
  obtain t where t: "[a, b] = write_u16_be [] t" by (rule obtain_u16)
  obtain p where p: "[c, d] = write_u16_be [] p" by (rule obtain_u16)
  obtain l where l: "[e, f] = write_u16_be [] l" by (rule obtain_u16)
  have "buffer = [a, b] @ [c, d] @ [e, f] @ u # body" by (simp add: buf)
  then have "buffer = write_u16_be [] t @ write_u16_be [] p @ write_u16_be [] l @ u # body"
    by (simp only: t p l)
  moreover have "drop 4 buffer = [e, f] @ u # body" by (simp add: buf)
  then have "read_u16_be (drop 4 buffer) = Inr l" by (simp only: l read_write_u16)
  ultimately show ?thesis using buf by (intro that) simp_all
qed

lemma decode_UB_iff:
  "decode buffer = Inl e \<longleftrightarrow>
     7 \<le> length buffer \<and> read_u16_be (drop 4 buffer) = Inr 0 \<and> e = UndefinedBehaviour"
proof (cases "7 \<le> length buffer")
  case True
  then obtain t p l u body where b:
    "buffer = write_u16_be [] t @ write_u16_be [] p @ write_u16_be [] l @ u # body"
    and l: "read_u16_be (drop 4 buffer) = Inr l"
    by (rule buffer_header)
  show ?thesis unfolding l by (auto simp: b decode_header)
qed (auto simp: decode_def)

lemma decode_SomeD:
  assumes "decode buffer = Inr (Some (f, n))"
  shows "n \<le> length buffer" "n = 7 + length (pdu f)" "length (pdu f) < 65535"
    "pdu f = drop 7 (take n buffer)" "unit_id f = buffer ! 6"
proof -
  have len: "7 \<le> length buffer"
    using assms by (auto simp: decode_def split: if_splits)
  obtain t p l u body where b:
    "buffer = write_u16_be [] t @ write_u16_be [] p @ write_u16_be [] l @ u # body"
    using len by (rule buffer_header)
  have l: "unat l \<noteq> 0" "6 + unat l = n" "unat l \<le> Suc (length body)"
    "f = \<lparr>transaction_id = t, unit_id = u, pdu = take (unat l - 1) body\<rparr>"
    using assms by (auto simp: b decode_header unat_eq_zero split: if_splits)
  have "unat l < 65536" by (rule unat_u16_less)
  with l show "n \<le> length buffer" "n = 7 + length (pdu f)" "length (pdu f) < 65535"
    by (auto simp: b)
  show "unit_id f = buffer ! 6" using l by (simp add: b write_u16_be_def)
  obtain k where "unat l = Suc k" using l(1) by (cases "unat l") auto
  with l show "pdu f = drop 7 (take n buffer)"
    by (auto simp: b write_u16_be_def drop_take)
qed

lemma decode_prefix_None:
  assumes "length (pdu f) < 65535" and "n < length (encode f)"
  shows "decode (take n (encode f)) = Inr None"
proof (cases "n < 7")
  case True
  then show ?thesis using assms by (simp add: decode_def)
next
  case False
  then obtain k where n: "n = 7 + k" by (metis le_add_diff_inverse not_less)
  have "unat (word_of_nat (length (pdu f) + 1) :: u16) = length (pdu f) + 1"
    using assms by (intro unat_u16_of_nat) simp
  moreover have "take n (encode f) = write_u16_be [] (transaction_id f) @ write_u16_be [] kProtocolId @
     write_u16_be [] (word_of_nat (length (pdu f) + 1)) @ unit_id f # take k (pdu f)"
    by (simp add: n encode_layout)
  ultimately show ?thesis using assms n by (simp add: decode_header)
qed

subsection \<open>Socket loops\<close>

lemma read_exact_done [simp]: "sz \<le> length buffer \<Longrightarrow> read_exact evs sz buffer = Some (True, buffer, evs)"
  by (subst read_exact.simps) simp

lemma read_exact_Nil [simp]: "length buffer < sz \<Longrightarrow> read_exact [] sz buffer = None"
  by (subst read_exact.simps) simp

lemma read_exact_Segment [simp]:
  assumes "length buffer < sz" and "bs \<noteq> []"
  shows "read_exact (Segment bs # es) sz buffer =
    (if length bs \<le> sz - length buffer then read_exact es sz (buffer @ bs)
     else Some (True, buffer @ take (sz - length buffer) bs, Segment (drop (sz - length buffer) bs) # es))"
  using assms by (subst read_exact.simps) (auto simp: min_def Let_def)

lemma read_exact_failures [simp]:
  assumes "length buffer < sz"
  shows "read_exact (PollFailed # es) sz buffer = Some (False, buffer, es)"
    "read_exact (PollHangup # es) sz buffer = Some (False, buffer, es)"
    "read_exact (ReadFailed # es) sz buffer = Some (False, buffer, es)"
    "read_exact (Segment [] # es) sz buffer = Some (False, buffer, es)"
  using assms by (subst read_exact.simps, simp)+

text \<open>Reading from data that is there, however it is cut into segments.\<close>

lemma read_exact_segments:
  assumes "[] \<notin> set cs" and "length buffer \<le> sz" and "sz \<le> length buffer + length (concat cs)"
  shows "\<exists>cs'. read_exact (map Segment cs @ es) sz buffer =
      Some (True, buffer @ take (sz - length buffer) (concat cs), map Segment cs' @ es) \<and>
    concat cs' = drop (sz - length buffer) (concat cs) \<and> [] \<notin> set cs'"
  using assms
proof (induction cs arbitrary: buffer)
  case Nil
  then show ?case by (intro exI [of _ "[]"]) simp
next
  case (Cons c cs)
  consider "sz = length buffer" | "length buffer < sz" "length c \<le> sz - length buffer"
    | "length buffer < sz" "sz - length buffer < length c"
    using Cons.prems by linarith
  then show ?case
  proof cases
    case 1
    then show ?thesis using Cons.prems by (intro exI [of _ "c # cs"]) simp
  next
    case 2
    then have "length (buffer @ c) \<le> sz" "sz \<le> length (buffer @ c) + length (concat cs)"
      using Cons.prems by auto
    from Cons.IH [OF _ this] Cons.prems 2 show ?thesis by auto
  next
    case 3
    then show ?thesis using Cons.prems by (intro exI [of _ "drop (sz - length buffer) c # cs"]) auto
  qed
qed

text \<open>With too little data and no end of the stream in sight, the loop waits in \<^verbatim>\<open>poll\<close>.\<close>

lemma read_exact_blocks:
  "[] \<notin> set cs \<Longrightarrow> length buffer + length (concat cs) < sz \<Longrightarrow> read_exact (map Segment cs) sz buffer = None"
  by (induction cs arbitrary: buffer) auto

text \<open>A successful read fills the buffer exactly.\<close>

lemma read_exact_length:
  "read_exact evs sz buffer = Some (True, b, es) \<Longrightarrow> length buffer \<le> sz \<Longrightarrow> length b = sz"
proof (induction evs arbitrary: buffer)
  case Nil
  then show ?case by (cases "length buffer < sz") auto
next
  case (Cons e evs)
  show ?case
  proof (cases "length buffer < sz")
    case True
    show ?thesis
    proof (cases e)
      case (Segment bs)
      with True Cons show ?thesis by (cases "bs = []") (auto split: if_splits)
    qed (use True Cons.prems in auto)
  qed (use Cons.prems in auto)
qed

subsection \<open>Whole frames over a socket\<close>

lemma read_frame_segments:
  assumes "[] \<notin> set cs" and cs: "concat cs = encode f @ rest" and len: "length (pdu f) < 65535"
  shows "\<exists>cs'. read_frame (map Segment cs @ es) = Some (Inr (Some f), map Segment cs' @ es) \<and>
    concat cs' = rest \<and> [] \<notin> set cs'"
proof -
  define l :: u16 where "l = word_of_nat (length (pdu f) + 1)"
  have l: "unat l = length (pdu f) + 1" unfolding l_def using len by (intro unat_u16_of_nat) simp
  then have "l \<noteq> 0" by auto
  define h where "h = write_u16_be [] (transaction_id f) @ write_u16_be [] kProtocolId @ write_u16_be [] l"
  have h: "length h = 6" "drop 4 h = write_u16_be [] l" by (simp_all add: h_def write_u16_be_def)
  have enc: "encode f = h @ unit_id f # pdu f" by (simp add: encode_layout h_def l_def)
  obtain cs1 where 1: "read_exact (map Segment cs @ es) 6 [] = Some (True, h, map Segment cs1 @ es)"
    "concat cs1 = unit_id f # pdu f @ rest" "[] \<notin> set cs1"
    using read_exact_segments [OF assms(1), of "[]" 6 es] by (auto simp: cs enc h)
  obtain cs2 where 2: "read_exact (map Segment cs1 @ es) (unat l) [] =
      Some (True, unit_id f # pdu f, map Segment cs2 @ es)" "concat cs2 = rest" "[] \<notin> set cs2"
    using read_exact_segments [OF 1(3), of "[]" "unat l" es] by (auto simp: 1(2) l)
  have "decode (h @ unit_id f # pdu f) = Inr (Some (f, length (encode f)))"
    using decode_encode_append [OF len, of "[]"] by (simp add: enc)
  with 1 2 h \<open>l \<noteq> 0\<close> show ?thesis
    by (auto simp: read_frame_def modbus_u16 Let_def)
qed

lemma read_frames_segments:
  assumes "[] \<notin> set cs" and "concat cs = concat (map encode fs) @ rest"
    and "\<forall>f \<in> set fs. length (pdu f) < 65535"
  shows "\<exists>cs'. read_frames (length fs) (map Segment cs @ es) = Some (fs, map Segment cs' @ es) \<and>
    concat cs' = rest \<and> [] \<notin> set cs'"
  using assms
proof (induction fs arbitrary: cs)
  case Nil
  then show ?case by auto
next
  case (Cons f fs)
  then obtain cs1 where 1: "read_frame (map Segment cs @ es) = Some (Inr (Some f), map Segment cs1 @ es)"
    "concat cs1 = concat (map encode fs) @ rest" "[] \<notin> set cs1"
    using read_frame_segments [of cs f "concat (map encode fs) @ rest" es] by auto
  with Cons.IH [of cs1] Cons.prems show ?case by auto
qed

text \<open>The socket reader never hands the decoder a header with a zero length field.\<close>

lemma read_frame_SomeD:
  assumes "read_frame evs = Some (r, es)"
  shows "r = Inr None \<or> (\<exists>f. r = Inr (Some f) \<and> length (pdu f) < 65535)"
proof -
  obtain ok header es1 where 1: "read_exact evs 6 [] = Some (ok, header, es1)"
    using assms by (auto simp: read_frame_def split: option.splits)
  show ?thesis
  proof (cases ok)
    case False
    then show ?thesis using assms 1 by (simp add: read_frame_def)
  next
    case ok: True
    then have h: "length header = 6" using 1 read_exact_length by fastforce
    then obtain len where len: "read_u16_be (drop 4 header) = Inr len"
      using read_u16_be_total [of "drop 4 header"] by auto
    have "decode (header @ rest) \<noteq> Inl e" if "len \<noteq> 0" for rest e
    proof -
      have "read_u16_be (drop 4 header @ rest) = Inr len"
        using len by (cases "drop 4 header" rule: read_u16_be.cases) auto
      then show ?thesis using that h by (simp add: decode_UB_iff)
    qed
    with assms 1 ok len show ?thesis
      by (auto simp: read_frame_def modbus_u16 Let_def bindr_def
          split: option.splits if_splits prod.splits sum.splits dest: decode_SomeD(3))
  qed
qed

lemma read_frame_blocks:
  assumes "[] \<notin> set cs" and cs: "concat cs = take n (encode f)" and n: "n < length (encode f)"
    and len: "length (pdu f) < 65535"
  shows "read_frame (map Segment cs) = None"
proof (cases "n < 6")
  case True
  then have "read_exact (map Segment cs) 6 [] = None"
    using assms by (intro read_exact_blocks) auto
  then show ?thesis by (simp add: read_frame_def)
next
  case False
  define l :: u16 where "l = word_of_nat (length (pdu f) + 1)"
  have l: "unat l = length (pdu f) + 1" unfolding l_def using len by (intro unat_u16_of_nat) simp
  define h where "h = write_u16_be [] (transaction_id f) @ write_u16_be [] kProtocolId @ write_u16_be [] l"
  have h: "length h = 6" "drop 4 h = write_u16_be [] l" by (simp_all add: h_def write_u16_be_def)
  have enc: "encode f = h @ unit_id f # pdu f" by (simp add: encode_layout h_def l_def)
  have "concat cs = h @ take (n - 6) (unit_id f # pdu f)"
    using False by (simp add: cs enc h)
  then obtain cs1 where 1: "read_exact (map Segment cs @ []) 6 [] = Some (True, h, map Segment cs1 @ [])"
    "concat cs1 = take (n - 6) (unit_id f # pdu f)" "[] \<notin> set cs1"
    using read_exact_segments [OF assms(1), of "[]" 6 "[]"] by (auto simp: h)
  have "length (concat cs1) < unat l"
    using n False by (auto simp: 1(2) enc h l)
  then have "read_exact (map Segment cs1) (unat l) [] = None"
    using 1(3) by (intro read_exact_blocks) auto
  moreover have "l \<noteq> 0" using l by auto
  ultimately show ?thesis using 1 h by (simp add: read_frame_def modbus_u16)
qed

lemma write_exact_prefix:
  "write_exact rs buffer sent wire = Some (ok, wire', rs') \<Longrightarrow> sent \<le> length buffer \<Longrightarrow>
    (ok \<longrightarrow> wire' = wire @ drop sent buffer) \<and>
    (\<exists>n \<le> length buffer - sent. wire' = wire @ take n (drop sent buffer))"
proof (induction rs arbitrary: sent wire)
  case Nil
  then show ?case by (subst (asm) write_exact.simps) (auto split: if_splits)
next
  case (Cons r rs)
  show ?case
  proof (cases "sent < length buffer \<and> 0 < r")
    case True
    define k where "k = min (nat r) (length buffer - sent)"
    have k: "sent + k \<le> length buffer" using True unfolding k_def by linarith
    have "write_exact rs buffer (sent + k) (wire @ take k (drop sent buffer)) = Some (ok, wire', rs')"
      using Cons.prems True by (subst (asm) write_exact.simps) (auto simp: k_def Let_def)
    note IH = Cons.IH [OF this k]
    have split: "take k (drop sent buffer) @ drop (sent + k) buffer = drop sent buffer"
      by (metis append_take_drop_id drop_drop add.commute)
    from IH obtain n where n: "n \<le> length buffer - (sent + k)"
      "wire' = wire @ take k (drop sent buffer) @ take n (drop (sent + k) buffer)" by auto
    have "take k (drop sent buffer) @ take n (drop (sent + k) buffer) = take (k + n) (drop sent buffer)"
      by (simp add: take_add add.commute)
    moreover have "k + n \<le> length buffer - sent" using n(1) k by linarith
    ultimately show ?thesis using IH split n(2) by auto
  next
    case False
    then show ?thesis using Cons.prems
      by (subst (asm) write_exact.simps) (auto split: if_splits)
  qed
qed

lemma write_exact_progress:
  "\<forall>n \<in> set rs. 0 < n \<Longrightarrow> length buffer - sent \<le> length rs \<Longrightarrow>
   \<exists>wire' rs'. write_exact rs buffer sent wire = Some (True, wire', rs')"
proof (induction rs arbitrary: sent wire)
  case Nil
  then show ?case by (subst write_exact.simps) simp
next
  case (Cons r rs)
  show ?case
  proof (cases "sent < length buffer")
    case True
    let ?k = "min (nat r) (length buffer - sent)"
    have "0 < ?k" using Cons.prems True by simp
    moreover have "length buffer - sent \<le> Suc (length rs)" using Cons.prems by simp
    ultimately have "length buffer - (sent + ?k) \<le> length rs" by linarith
    then have "\<exists>wire' rs'. write_exact rs buffer (sent + ?k) (wire @ take ?k (drop sent buffer)) =
        Some (True, wire', rs')"
      using Cons.prems by (intro Cons.IH) auto
    moreover have "\<not> r \<le> 0" using Cons.prems by simp
    ultimately show ?thesis using True by (subst write_exact.simps) (simp add: Let_def)
  next
    case False
    then show ?thesis by (subst write_exact.simps) simp
  qed
qed

section \<open>Properties\<close>

text \<open>C8: Framing survives the byte stream. A run of frames whose PDUs are shorter than 65535
  bytes, written one behind the other and cut into arbitrary non-empty segments, is read back
  frame by frame, and the reader stops exactly behind the last frame.\<close>

theorem frames_over_socket:
  assumes "\<forall>f \<in> set fs. length (pdu f) < 65535"
    and "[] \<notin> set cs" and "concat cs = concat (map encode fs) @ rest"
  shows "\<exists>cs'. read_frames (length fs) (map Segment cs @ es) = Some (fs, map Segment cs' @ es) \<and>
    concat cs' = rest"
  using read_frames_segments [OF assms(2,3,1), of es] by auto

theorem frames_over_socket_witness:
  "\<exists>cs'. read_frames 1 (map Segment [[0, 7, 0], [0, 0, 3, 9, 0x41], [8, 0]]) =
     Some ([\<lparr>transaction_id = 7, unit_id = 9, pdu = [0x41, 8]\<rparr>], map Segment cs') \<and> concat cs' = [0]"
  using frames_over_socket [of "[\<lparr>transaction_id = 7, unit_id = 9, pdu = [0x41, 8]\<rparr>]"
      "[[0, 7, 0], [0, 0, 3, 9, 0x41], [8, 0]]" "[0]" "[]"]
  by (simp add: encode_layout write_u16_be_def kProtocolId_def)

text \<open>Whatever \<^verbatim>\<open>send\<close> accepts at each call, \<^verbatim>\<open>write_frame\<close> puts a prefix of the encoded frame
  on the wire, and the whole encoding when it reports success; and it does report success when
  every call accepts at least one byte and there are as many calls as bytes.\<close>

theorem write_frame_wire:
  "(\<forall>ok wire' rs'. write_frame rs f wire = Some (ok, wire', rs') \<longrightarrow>
      (\<exists>n \<le> length (encode f). wire' = wire @ take n (encode f)) \<and>
      (ok \<longrightarrow> wire' = wire @ encode f)) \<and>
   ((\<forall>n \<in> set rs. 0 < n) \<longrightarrow> length (encode f) \<le> length rs \<longrightarrow>
      (\<exists>rs'. write_frame rs f wire = Some (True, wire @ encode f, rs')))"
proof -
  have "\<exists>rs'. write_frame rs f wire = Some (True, wire @ encode f, rs')"
    if "\<forall>n \<in> set rs. 0 < n" "length (encode f) \<le> length rs"
    using write_exact_progress [of rs "encode f" 0 wire] that
      write_exact_prefix [of rs "encode f" 0 wire True] by (fastforce simp: write_frame_def)
  then show ?thesis
    using write_exact_prefix [of rs "encode f" 0 wire] by (auto simp: write_frame_def)
qed

theorem write_frame_wire_witness:
  "\<exists>rs'. write_frame (replicate 8 3) \<lparr>transaction_id = 0, unit_id = 0, pdu = [1]\<rparr> [] =
     Some (True, encode \<lparr>transaction_id = 0, unit_id = 0, pdu = [1]\<rparr>, rs')"
  using write_frame_wire [of "replicate 8 3" "\<lparr>transaction_id = 0, unit_id = 0, pdu = [1]\<rparr>" "[]"]
  by simp

text \<open>C25: The incremental decoder: behind a whole frame anything may follow, and any strict prefix
  of a frame is reported as incomplete and never as an error.\<close>

theorem decode_incremental:
  assumes "length (pdu f) < 65535"
  shows "decode (encode f @ rest) = Inr (Some (f, length (encode f))) \<and>
    (\<forall>n < length (encode f). decode (take n (encode f)) = Inr None)"
  using decode_encode_append [OF assms] decode_prefix_None [OF assms] by blast

theorem decode_incremental_witness:
  "decode (encode \<lparr>transaction_id = 1, unit_id = 2, pdu = [3]\<rparr> @ [4, 5]) =
     Inr (Some (\<lparr>transaction_id = 1, unit_id = 2, pdu = [3]\<rparr>, 8))"
  using decode_incremental [of "\<lparr>transaction_id = 1, unit_id = 2, pdu = [3]\<rparr>" "[4, 5]"] by simp

text \<open>Memory safety of the framing layer. The decoder has undefined behaviour exactly on a
  buffer of at least seven bytes whose length field is 0, and the socket reader never reaches
  that case: it fails or returns a frame that fits the length field.\<close>

theorem framing_memory_safe:
  "(decode buffer = Inl e \<longleftrightarrow>
      7 \<le> length buffer \<and> read_u16_be (drop 4 buffer) = Inr 0 \<and> e = UndefinedBehaviour) \<and>
   (\<forall>r es. read_frame evs = Some (r, es) \<longrightarrow>
      r = Inr None \<or> (\<exists>f. r = Inr (Some f) \<and> length (pdu f) < 65535))"
  using decode_UB_iff read_frame_SomeD by blast

theorem framing_memory_safe_witness:
  "decode [0, 0, 0, 0, 0, 0, 0] = Inl UndefinedBehaviour \<and>
   read_frame [Segment [0, 0, 0, 0, 0, 0, 0]] = Some (Inr None, [Segment [0]])"
  using framing_memory_safe [of "[0, 0, 0, 0, 0, 0, 0]" UndefinedBehaviour "[Segment [0, 0, 0, 0, 0, 0, 0]]"]
  by (simp add: read_frame_def modbus_u16)



text \<open>The framing layer's \<^verbatim>\<open>memcpy\<close>/\<^verbatim>\<open>ntohs\<close> accessors and the shift-based accessors of the
  protocol layer are the same codec.\<close>

theorem u16_codecs_agree:
  "modbus_read_u16_be bs = read_u16_be bs \<and> modbus_write_u16_be out v = write_u16_be out v"
  by (simp add: modbus_u16)

end
