(* ===== verification/Protocol.thy ===== *)
theory Protocol
  imports ModbusTcp
begin

text \<open>
  The application protocol (\<^verbatim>\<open>common/Protocol.hpp\<close>, \<^verbatim>\<open>common/Protocol.cpp\<close>): message types and
  payloads, the encoder of each payload, and \<^verbatim>\<open>decode_app_message\<close>, which turns a received frame
  into a message or throws.

  A pointer with a length is the list of the bytes from the pointer on; reads are checked, so
  that a read past the end would show up as \<open>UndefinedBehaviour\<close>.
\<close>

section \<open>Types and constants\<close>

datatype MsgType =
    Register | AssignId | Chat | Deliver | Error | UserJoined | UserLeft | ListUsers | UsersList
  | KeyOffer | RoomKeyOffer | BannedIds | PeerKey | RoomKey

fun msg_code :: "MsgType \<Rightarrow> byte" where
  "msg_code Register = 0x01"
| "msg_code AssignId = 0x02"
| "msg_code Chat = 0x03"
| "msg_code Deliver = 0x04"
| "msg_code Error = 0x05"
| "msg_code UserJoined = 0x06"
| "msg_code UserLeft = 0x07"
| "msg_code ListUsers = 0x08"
| "msg_code UsersList = 0x09"
| "msg_code KeyOffer = 0x0A"
| "msg_code RoomKeyOffer = 0x0B"
| "msg_code BannedIds = 0x0C"
| "msg_code PeerKey = 0x0D"
| "msg_code RoomKey = 0x0E"

text \<open>
  The cast of a received byte to the enumeration; \<open>None\<close> is a value without an enumerator,
  which takes the \<^verbatim>\<open>default\<close> branch of every switch.
\<close>

definition msg_type_of_code :: "byte \<Rightarrow> MsgType option" where
  "msg_type_of_code b = find (\<lambda>t. msg_code t = b)
     [Register, AssignId, Chat, Deliver, Error, UserJoined, UserLeft, ListUsers, UsersList,
      KeyOffer, RoomKeyOffer, BannedIds, PeerKey, RoomKey]"

abbreviation (input) kUint16Size :: nat where "kUint16Size \<equiv> 2"
abbreviation (input) kUint32Size :: nat where "kUint32Size \<equiv> 4"
abbreviation (input) kPduAppHeaderSize :: nat where "kPduAppHeaderSize \<equiv> 2"
abbreviation (input) kChatHeaderSize :: nat where "kChatHeaderSize \<equiv> 5"
abbreviation (input) kMaxU16Count :: nat where "kMaxU16Count \<equiv> 65535"

abbreviation (input) kRecipientById :: byte where "kRecipientById \<equiv> 1"
abbreviation (input) kRecipientByNickname :: byte where "kRecipientByNickname \<equiv> 2"
abbreviation (input) kRecipientBroadcast :: byte where "kRecipientBroadcast \<equiv> 3"

abbreviation (input) kBroadcastRecipient :: string where "kBroadcastRecipient \<equiv> ''all''"

record chat_payload =
  chat_from_id :: u32
  recipient_tag :: byte
  recipient_data :: bytes
  chat_text :: string

record user_info =
  ui_id :: u32
  ui_nickname :: string

datatype AppPayload =
    RegisterPayload string
  | AssignIdPayload u32 bool
  | ChatPayload chat_payload
  | DeliverPayload u32 string
  | ErrorPayload string
  | UserJoinedPayload u32 string
  | UserLeftPayload u32 string
  | ListUsersPayload
  | UsersListPayload "user_info list"
  | BannedIdsPayload "u32 list"

record app_message =
  msg_type :: MsgType
  payload :: AppPayload

section \<open>Strings and user records\<close>

definition encode_string :: "string \<Rightarrow> bytes res" where
  "encode_string value =
    (if kMaxU16Count < length value then Inl (RuntimeError ''String too long'')
     else Inr (write_u16_be [] (word_of_nat (length value)) @ string_bytes value))"

definition decode_string :: "bytes \<Rightarrow> string res" where
  "decode_string data =
    (if length data < kUint16Size then Inl (RuntimeError ''Invalid string payload'')
     else bindr (read_u16_be data) (\<lambda>str_len.
       if length data < kUint16Size + unat str_len then Inl (RuntimeError ''Truncated string payload'')
       else Inr (bytes_string (take (unat str_len) (drop kUint16Size data)))))"

definition decode_user_info :: "bytes \<Rightarrow> nat \<Rightarrow> (user_info \<times> nat) res" where
  "decode_user_info data offset =
    (if length data < offset + kUint32Size then Inl (RuntimeError ''UserInfo id too short'')
     else bindr (read_u32_be (drop offset data)) (\<lambda>id.
       let offset = offset + kUint32Size in
       bindr (decode_string (drop offset data)) (\<lambda>nickname.
         Inr (\<lparr>ui_id = id, ui_nickname = nickname\<rparr>, offset + (kUint16Size + length nickname)))))"

definition encode_user_info :: "user_info \<Rightarrow> bytes res" where
  "encode_user_info info =
    (let out = write_u32_be [] (ui_id info) in
     bindr (encode_string (ui_nickname info)) (\<lambda>nickname_bytes. Inr (out @ nickname_bytes)))"

section \<open>Payload decoders\<close>

definition decode_chat_payload :: "bytes \<Rightarrow> chat_payload res" where
  "decode_chat_payload p =
    (if length p < kChatHeaderSize then Inl (RuntimeError ''Chat payload too short'')
     else bindr (read_u32_be p) (\<lambda>from_id.
       let tag = p ! kUint32Size;
           offset = kChatHeaderSize
       in bindr
         (if tag = kRecipientById then
            (if length p < offset + kUint32Size then Inl (RuntimeError ''Chat id recipient too short'')
             else Inr (take kUint32Size (drop offset p), offset + kUint32Size))
          else if tag = kRecipientByNickname then
            bindr (decode_string (drop offset p)) (\<lambda>nickname.
            bindr (encode_string nickname) (\<lambda>rdata. Inr (rdata, offset + length rdata)))
          else if tag = kRecipientBroadcast then Inr ([], offset)
          else Inl (RuntimeError ''Unknown recipient tag''))
         (\<lambda>(rdata, offset).
            bindr (decode_string (drop offset p)) (\<lambda>body.
              Inr \<lparr>chat_from_id = from_id, recipient_tag = tag, recipient_data = rdata, chat_text = body\<rparr>))))"

definition decode_deliver_payload :: "bytes \<Rightarrow> (u32 \<times> string) res" where
  "decode_deliver_payload p =
    (if length p < kUint32Size then Inl (RuntimeError ''Deliver payload too short'')
     else bindr (read_u32_be p) (\<lambda>from_id.
       bindr (decode_string (drop kUint32Size p)) (\<lambda>body. Inr (from_id, body))))"

text \<open>The loop body of the \<^verbatim>\<open>BannedIds\<close> branch: one id, four bytes further.\<close>

definition decode_banned_id :: "bytes \<Rightarrow> nat \<Rightarrow> (u32 \<times> nat) res" where
  "decode_banned_id p offset =
    bindr (read_u32_be (drop offset p)) (\<lambda>id. Inr (id, offset + kUint32Size))"

definition decode_payload :: "MsgType \<Rightarrow> bytes \<Rightarrow> AppPayload res" where
  "decode_payload t p =
    (case t of
       Register \<Rightarrow> bindr (decode_string p) (\<lambda>nickname. Inr (RegisterPayload nickname))
     | AssignId \<Rightarrow>
         if length p < kUint32Size then Inl (RuntimeError ''AssignId payload too short'')
         else bindr (read_u32_be p) (\<lambda>id.
           Inr (AssignIdPayload id (kUint32Size < length p \<and> p ! kUint32Size \<noteq> 0)))
     | Chat \<Rightarrow> bindr (decode_chat_payload p) (\<lambda>chat. Inr (ChatPayload chat))
     | KeyOffer \<Rightarrow> bindr (decode_chat_payload p) (\<lambda>chat. Inr (ChatPayload chat))
     | RoomKeyOffer \<Rightarrow> bindr (decode_chat_payload p) (\<lambda>chat. Inr (ChatPayload chat))
     | Deliver \<Rightarrow> bindr (decode_deliver_payload p) (\<lambda>(from_id, body). Inr (DeliverPayload from_id body))
     | PeerKey \<Rightarrow> bindr (decode_deliver_payload p) (\<lambda>(from_id, body). Inr (DeliverPayload from_id body))
     | RoomKey \<Rightarrow> bindr (decode_deliver_payload p) (\<lambda>(from_id, body). Inr (DeliverPayload from_id body))
     | Error \<Rightarrow> bindr (decode_string p) (\<lambda>msg. Inr (ErrorPayload msg))
     | UserJoined \<Rightarrow> bindr (decode_user_info p 0) (\<lambda>(info, _).
         Inr (UserJoinedPayload (ui_id info) (ui_nickname info)))
     | UserLeft \<Rightarrow> bindr (decode_user_info p 0) (\<lambda>(info, _).
         Inr (UserLeftPayload (ui_id info) (ui_nickname info)))
     | ListUsers \<Rightarrow> Inr ListUsersPayload
     | UsersList \<Rightarrow>
         if length p < kUint16Size then Inl (RuntimeError ''UsersList payload too short'')
         else bindr (read_u16_be p) (\<lambda>count.
           bindr (decode_items decode_user_info (unat count) p kUint16Size) (\<lambda>(users, _).
             Inr (UsersListPayload users)))
     | BannedIds \<Rightarrow>
         if length p < kUint16Size then Inl (RuntimeError ''BannedIds payload too short'')
         else bindr (read_u16_be p) (\<lambda>count.
           if length p < kUint16Size + unat count * kUint32Size
           then Inl (RuntimeError ''BannedIds payload truncated'')
           else bindr (decode_items decode_banned_id (unat count) p kUint16Size) (\<lambda>(ids, _).
             Inr (BannedIdsPayload ids))))"

definition decode_app_message :: "frame \<Rightarrow> app_message res" where
  "decode_app_message f =
    (if length (pdu f) < kPduAppHeaderSize then Inl (RuntimeError ''PDU too short'')
     else if pdu f ! 0 \<noteq> kAppFunctionCode then Inl (RuntimeError ''Unexpected function code'')
     else (case msg_type_of_code (pdu f ! 1) of
         None \<Rightarrow> Inl (RuntimeError ''Unknown message type'')
       | Some t \<Rightarrow> bindr (decode_payload t (drop kPduAppHeaderSize (pdu f))) (\<lambda>p.
           Inr \<lparr>msg_type = t, payload = p\<rparr>)))"

definition make_frame :: "MsgType \<Rightarrow> bytes \<Rightarrow> u16 \<Rightarrow> frame" where
  "make_frame t p tid =
    \<lparr>transaction_id = tid, unit_id = 0, pdu = [kAppFunctionCode, msg_code t] @ p\<rparr>"

section \<open>Payload encoders\<close>

definition encode_register :: "string \<Rightarrow> bytes res" where
  "encode_register nickname = encode_string nickname"

definition encode_assign_id :: "u32 \<Rightarrow> bool \<Rightarrow> bytes" where
  "encode_assign_id cid create_room = encode_u32_be cid @ [if create_room then 1 else 0]"

definition encode_chat :: "chat_payload \<Rightarrow> bytes res" where
  "encode_chat chat =
    (let out = write_u32_be [] (chat_from_id chat) @ [recipient_tag chat] @ recipient_data chat in
     bindr (encode_string (chat_text chat)) (\<lambda>text_bytes. Inr (out @ text_bytes)))"

definition encode_deliver :: "u32 \<Rightarrow> string \<Rightarrow> bytes res" where
  "encode_deliver from_id body =
    (let out = write_u32_be [] from_id in
     bindr (encode_string body) (\<lambda>text_bytes. Inr (out @ text_bytes)))"

definition encode_error :: "string \<Rightarrow> bytes res" where
  "encode_error msg = encode_string msg"

definition encode_user_joined :: "u32 \<Rightarrow> string \<Rightarrow> bytes res" where
  "encode_user_joined cid nickname = encode_user_info \<lparr>ui_id = cid, ui_nickname = nickname\<rparr>"

definition encode_user_left :: "u32 \<Rightarrow> string \<Rightarrow> bytes res" where
  "encode_user_left cid nickname = encode_user_info \<lparr>ui_id = cid, ui_nickname = nickname\<rparr>"

definition encode_list_users :: bytes where
  "encode_list_users = []"

fun encode_user_infos :: "bytes \<Rightarrow> user_info list \<Rightarrow> bytes res" where
  "encode_user_infos out [] = Inr out"
| "encode_user_infos out (user # users) =
     bindr (encode_user_info user) (\<lambda>bs. encode_user_infos (out @ bs) users)"

definition encode_users_list :: "user_info list \<Rightarrow> bytes res" where
  "encode_users_list users =
    (if kMaxU16Count < length users then Inl (RuntimeError ''Too many users'')
     else encode_user_infos (write_u16_be [] (word_of_nat (length users))) users)"

definition encode_banned_ids :: "u32 list \<Rightarrow> bytes res" where
  "encode_banned_ids ids =
    (if kMaxU16Count < length ids then Inl (RuntimeError ''Too many banned ids'')
     else Inr (foldl write_u32_be (write_u16_be [] (word_of_nat (length ids))) ids))"

section \<open>The protocol as one codec\<close>

text \<open>
  The encoder that the senders use for each payload, and the messages the protocol speaks: the
  payload alternative fits the message type, and the recipient bytes of a chat fit its tag.
\<close>

fun encode_payload :: "AppPayload \<Rightarrow> bytes res" where
  "encode_payload (RegisterPayload n) = encode_register n"
| "encode_payload (AssignIdPayload i r) = Inr (encode_assign_id i r)"
| "encode_payload (ChatPayload c) = encode_chat c"
| "encode_payload (DeliverPayload i s) = encode_deliver i s"
| "encode_payload (ErrorPayload s) = encode_error s"
| "encode_payload (UserJoinedPayload i n) = encode_user_joined i n"
| "encode_payload (UserLeftPayload i n) = encode_user_left i n"
| "encode_payload ListUsersPayload = Inr encode_list_users"
| "encode_payload (UsersListPayload us) = encode_users_list us"
| "encode_payload (BannedIdsPayload ids) = encode_banned_ids ids"

definition wf_chat :: "chat_payload \<Rightarrow> bool" where
  "wf_chat c =
    (if recipient_tag c = kRecipientById then length (recipient_data c) = 4
     else if recipient_tag c = kRecipientByNickname then
       (case decode_string (recipient_data c) of
          Inr n \<Rightarrow> length (recipient_data c) = 2 + length n
        | Inl _ \<Rightarrow> False)
     else recipient_tag c = kRecipientBroadcast \<and> recipient_data c = [])"

fun payload_fits :: "MsgType \<Rightarrow> AppPayload \<Rightarrow> bool" where
  "payload_fits t (RegisterPayload _) \<longleftrightarrow> t = Register"
| "payload_fits t (AssignIdPayload _ _) \<longleftrightarrow> t = AssignId"
| "payload_fits t (ChatPayload c) \<longleftrightarrow> t \<in> {Chat, KeyOffer, RoomKeyOffer} \<and> wf_chat c"
| "payload_fits t (DeliverPayload _ _) \<longleftrightarrow> t \<in> {Deliver, PeerKey, RoomKey}"
| "payload_fits t (ErrorPayload _) \<longleftrightarrow> t = Error"
| "payload_fits t (UserJoinedPayload _ _) \<longleftrightarrow> t = UserJoined"
| "payload_fits t (UserLeftPayload _ _) \<longleftrightarrow> t = UserLeft"
| "payload_fits t ListUsersPayload \<longleftrightarrow> t = ListUsers"
| "payload_fits t (UsersListPayload _) \<longleftrightarrow> t = UsersList"
| "payload_fits t (BannedIdsPayload _) \<longleftrightarrow> t = BannedIds"

definition wf_message :: "app_message \<Rightarrow> bool" where
  "wf_message m \<longleftrightarrow> payload_fits (msg_type m) (payload m)"

section \<open>Lemmas\<close>

subsection \<open>Strings\<close>

text \<open>The bytes of a length-prefixed string.\<close>

definition string_field :: "string \<Rightarrow> bytes" where
  "string_field s = write_u16_be [] (word_of_nat (length s)) @ string_bytes s"

lemma length_string_field [simp]: "length (string_field s) = 2 + length s"
  by (simp add: string_field_def)

lemma encode_string_eq:
  "encode_string s = (if length s \<le> 65535 then Inr (string_field s) else Inl (RuntimeError ''String too long''))"
  by (simp add: encode_string_def string_field_def)

lemma encode_string_Inr [simp]: "encode_string s = Inr bs \<longleftrightarrow> length s \<le> 65535 \<and> bs = string_field s"
  by (auto simp: encode_string_eq)

lemma decode_string_field [simp]:
  assumes "length s \<le> 65535"
  shows "decode_string (string_field s @ rest) = Inr s"
proof -
  have "unat (word_of_nat (length s) :: u16) = length s"
    using assms by (intro unat_u16_of_nat) simp
  then show ?thesis
    by (simp add: decode_string_def string_field_def)
qed

lemma decode_string_field_end [simp]: "length s \<le> 65535 \<Longrightarrow> decode_string (string_field s) = Inr s"
  using decode_string_field [of s "[]"] by simp

lemma decode_string_short:
  assumes "length s \<le> 65535" and "k < length (string_field s)"
  shows "\<exists>e. decode_string (take k (string_field s)) = Inl (RuntimeError e)"
proof (cases "k < 2")
  case True
  then show ?thesis using assms by (simp add: decode_string_def)
next
  case False
  have len: "unat (word_of_nat (length s) :: u16) = length s"
    using assms by (intro unat_u16_of_nat) simp
  have "take k (string_field s) = write_u16_be [] (word_of_nat (length s)) @ take (k - 2) (string_bytes s)"
    using False by (simp add: string_field_def numeral_2_eq_2)
  then show ?thesis using assms False by (auto simp: decode_string_def len)
qed

lemma decode_string_InrD:
  assumes "decode_string data = Inr s"
  shows "length s \<le> 65535" "2 + length s \<le> length data" "take (2 + length s) data = string_field s"
proof -
  obtain l where l: "read_u16_be data = Inr l" "2 + unat l \<le> length data"
    "s = bytes_string (take (unat l) (drop 2 data))"
    using assms by (auto simp: decode_string_def split: if_splits)
  have len: "length s = unat l" using l by simp
  then show "length s \<le> 65535" "2 + length s \<le> length data"
    using unat_u16_less [of l] l(2) by simp_all
  have "take 2 data = write_u16_be [] l" using write_read_u16 [OF l(1)] by simp
  moreover have "word_of_nat (length s) = l" by (simp add: len)
  moreover have "string_bytes s = take (length s) (drop 2 data)"
    unfolding len by (simp add: l(3))
  ultimately show "take (2 + length s) data = string_field s"
    by (simp only: take_add string_field_def)
qed

lemma decode_string_errors: "decode_string data = Inl e \<Longrightarrow> \<exists>s. e = RuntimeError s"
  by (auto simp: decode_string_def bindr_eq_Inl split: if_splits)

subsection \<open>User records and id lists\<close>

definition user_info_bytes :: "user_info \<Rightarrow> bytes" where
  "user_info_bytes u = encode_u32_be (ui_id u) @ string_field (ui_nickname u)"

definition good_user :: "user_info \<Rightarrow> bool" where
  "good_user u \<longleftrightarrow> length (ui_nickname u) \<le> 65535"

lemma length_user_info_bytes [simp]: "length (user_info_bytes u) = 6 + length (ui_nickname u)"
  by (simp add: user_info_bytes_def)

lemma encode_user_info_Inr [simp]: "encode_user_info u = Inr bs \<longleftrightarrow> good_user u \<and> bs = user_info_bytes u"
  by (auto simp: encode_user_info_def user_info_bytes_def good_user_def Let_def encode_u32_be_def)

lemma encode_user_infos_Inr:
  "encode_user_infos out us = Inr bs \<longleftrightarrow> (\<forall>u \<in> set us. good_user u) \<and> bs = out @ concat (map user_info_bytes us)"
  by (induction us arbitrary: out) auto

lemma decode_user_info_errors: "decode_user_info data off = Inl e \<Longrightarrow> \<exists>s. e = RuntimeError s"
  by (auto simp: decode_user_info_def bindr_eq_Inl Let_def dest: decode_string_errors split: if_splits)

lemma decode_user_info_good: "decode_user_info data off = Inr (u, off') \<Longrightarrow> good_user u"
  by (auto simp: decode_user_info_def good_user_def Let_def dest: decode_string_InrD split: if_splits)

interpretation ui: strict_item_codec user_info_bytes decode_user_info good_user
proof (unfold_locales, goal_cases)
  case (1 x pre post)
  have "drop (length pre + 4) (pre @ user_info_bytes x @ post) = string_field (ui_nickname x) @ post"
    by (simp add: user_info_bytes_def)
  with 1 show ?case
    by (simp add: decode_user_info_def user_info_bytes_def good_user_def Let_def)
next
  case (2 x k pre)
  show ?case
  proof (cases "k < 4")
    case True
    then show ?thesis using 2 by (simp add: decode_user_info_def)
  next
    case False
    have "take k (user_info_bytes x) = encode_u32_be (ui_id x) @ take (k - 4) (string_field (ui_nickname x))"
      using False by (simp add: user_info_bytes_def)
    moreover have "\<exists>e. decode_string (take (k - 4) (string_field (ui_nickname x))) = Inl (RuntimeError e)"
      using 2 False by (intro decode_string_short) (auto simp: good_user_def)
    ultimately show ?thesis
      using False 2 by (auto simp: decode_user_info_def Let_def)
  qed
qed

interpretation bi: strict_item_codec encode_u32_be decode_banned_id "\<lambda>_. True"
proof (unfold_locales, goal_cases)
  case (1 x pre post)
  show ?case by (simp add: decode_banned_id_def)
next
  case (2 x k pre)
  then show ?case by (auto simp: decode_banned_id_def bindr_eq_Inl)
qed

lemma foldl_write_u32: "foldl write_u32_be out ids = out @ concat (map encode_u32_be ids)"
proof (induction ids arbitrary: out)
  case (Cons i ids)
  show ?case by (simp add: Cons.IH) (simp add: write_u32_be_append)
qed simp

lemma length_concat_u32 [simp]: "length (concat (map encode_u32_be ids)) = 4 * length ids"
  by (induction ids) simp_all

lemma decode_banned_ids_errors:
  "off + n * 4 \<le> length data \<Longrightarrow> decode_items decode_banned_id n data off \<noteq> Inl e"
proof (induction n arbitrary: off)
  case (Suc n)
  then have "4 \<le> length (drop off data)" by simp
  then obtain v where "read_u32_be (drop off data) = Inr v"
    using read_u32_be_total by blast
  then have "decode_banned_id data off = Inr (v, off + 4)"
    by (simp add: decode_banned_id_def)
  moreover have "decode_items decode_banned_id n data (off + 4) \<noteq> Inl e"
    using Suc.prems by (intro Suc.IH) simp
  ultimately show ?case by (simp add: bindr_eq_Inl split_def)
qed simp

subsection \<open>Message types\<close>

lemma msg_type_of_msg_code [simp]: "msg_type_of_code (msg_code t) = Some t"
  by (cases t) (simp_all add: msg_type_of_code_def)

subsection \<open>Chat payloads\<close>

lemma wf_chat_cases:
  assumes "wf_chat c"
  obtains (by_id) "recipient_tag c = 1" "length (recipient_data c) = 4"
  | (by_nickname) n where "recipient_tag c = 2" "length n \<le> 65535" "recipient_data c = string_field n"
  | (broadcast) "recipient_tag c = 3" "recipient_data c = []"
proof -
  consider "recipient_tag c = 1" | "recipient_tag c = 2" | "recipient_tag c = 3"
    using assms unfolding wf_chat_def by metis
  then show ?thesis
  proof cases
    case 2
    then obtain n where "decode_string (recipient_data c) = Inr n" "length (recipient_data c) = 2 + length n"
      using assms by (auto simp: wf_chat_def split: sum.splits)
    then show ?thesis using 2 decode_string_InrD [of "recipient_data c" n] by (intro by_nickname) auto
  qed (use assms that in \<open>auto simp: wf_chat_def\<close>)
qed

text \<open>The recipient part of a chat payload, decoded behind its five header bytes.\<close>

lemma decode_chat_layout:
  "decode_chat_payload (encode_u32_be f @ tag # body) =
     bindr
       (if tag = 1 then (if length body < 4 then Inl (RuntimeError ''Chat id recipient too short'')
                         else Inr (take 4 body, 4))
        else if tag = 2 then bindr (decode_string body) (\<lambda>n. Inr (string_field n, 2 + length n))
        else if tag = 3 then Inr ([], 0)
        else Inl (RuntimeError ''Unknown recipient tag''))
       (\<lambda>(rdata, off). bindr (decode_string (drop off body)) (\<lambda>body.
          Inr \<lparr>chat_from_id = f, recipient_tag = tag, recipient_data = rdata, chat_text = body\<rparr>))"
proof -
  define p where "p = encode_u32_be f @ tag # body"
  have p: "length p = 5 + length body" "read_u32_be p = Inr f" "p ! 4 = tag"
    by (simp_all add: p_def nth_append)
  have d: "drop (5 + n) p = drop n body" for n
    by (simp add: p_def numeral_eq_Suc)
  have e: "encode_string n = Inr (string_field n)" if "decode_string body = Inr n" for n
    using decode_string_InrD(1) [OF that] by simp
  show ?thesis
    unfolding p_def [symmetric]
    using p d [of 0] d [of 4] d [of "2 + length (projr (decode_string body))"]
    by (cases "decode_string body") (auto simp: decode_chat_payload_def Let_def e)
qed

lemma encode_chat_Inr:
  "encode_chat c = Inr bs \<longleftrightarrow> length (chat_text c) \<le> 65535 \<and>
     bs = encode_u32_be (chat_from_id c) @ recipient_tag c # recipient_data c @ string_field (chat_text c)"
  by (auto simp: encode_chat_def Let_def encode_u32_be_def)

lemma decode_encode_chat:
  assumes "wf_chat c" and "encode_chat c = Inr bs"
  shows "decode_chat_payload bs = Inr c"
  using assms(1)
  by (cases rule: wf_chat_cases)
    (use assms(2) in \<open>auto simp: encode_chat_Inr decode_chat_layout\<close>)

lemma decode_chat_split:
  assumes "decode_chat_payload p = r" and "5 \<le> length p"
  obtains f tag body where "p = encode_u32_be f @ tag # body"
proof -
  obtain f where f: "read_u32_be p = Inr f" using assms(2) read_u32_be_total [of p] by auto
  have "p = take 4 p @ p ! 4 # drop 5 p"
    using assms(2) by (metis append_take_drop_id Cons_nth_drop_Suc Suc_le_eq eval_nat_numeral(3))
  then show ?thesis using write_read_u32 [OF f] that by metis
qed

lemma decode_chat_payload_errors: "decode_chat_payload p = Inl e \<Longrightarrow> \<exists>s. e = RuntimeError s"
proof (cases "5 \<le> length p")
  case True
  assume *: "decode_chat_payload p = Inl e"
  obtain f tag body where "p = encode_u32_be f @ tag # body"
    using * True by (rule decode_chat_split)
  with * show ?thesis
    by (auto simp: decode_chat_layout bindr_eq_Inl dest: decode_string_errors split: if_splits)
qed (auto simp: decode_chat_payload_def)

lemma decode_chat_payload_wf:
  assumes "decode_chat_payload p = Inr c"
  shows "wf_chat c \<and> length (chat_text c) \<le> 65535"
proof -
  have "5 \<le> length p" using assms by (auto simp: decode_chat_payload_def split: if_splits)
  with assms obtain f tag body where "p = encode_u32_be f @ tag # body"
    by (rule decode_chat_split)
  with assms show ?thesis
    by (auto simp: decode_chat_layout wf_chat_def dest: decode_string_InrD split: if_splits)
qed

lemma decode_chat_short:
  assumes "wf_chat c" and "encode_chat c = Inr bs" and "k < length bs"
  shows "\<exists>e. decode_chat_payload (take k bs) = Inl e"
proof (cases "k < 5")
  case True
  then show ?thesis using assms by (simp add: decode_chat_payload_def)
next
  case False
  then obtain j where k: "k = 5 + j" by (metis le_add_diff_inverse not_less)
  have bs: "bs = encode_u32_be (chat_from_id c) @ recipient_tag c # recipient_data c @ string_field (chat_text c)"
    and len: "length (chat_text c) \<le> 65535"
    using assms(2) by (simp_all add: encode_chat_Inr)
  have tk: "take k bs = encode_u32_be (chat_from_id c) @ recipient_tag c #
      take j (recipient_data c @ string_field (chat_text c))"
    by (simp add: bs k numeral_eq_Suc)
  have jb: "j < length (recipient_data c) + (2 + length (chat_text c))"
    using assms(3) by (simp add: bs k)
  have short: "\<exists>e. decode_string (take i (string_field (chat_text c))) = Inl (RuntimeError e)"
    if "i < 2 + length (chat_text c)" for i
    using that len by (intro decode_string_short) auto
  from assms(1) show ?thesis
  proof (cases rule: wf_chat_cases)
    case by_id
    then have "j < 4 \<or> j - 4 < 2 + length (chat_text c)" using jb by linarith
    with by_id show ?thesis
      using short [of "j - 4"] by (auto simp: tk decode_chat_layout)
  next
    case (by_nickname n)
    show ?thesis
    proof (cases "j < 2 + length n")
      case True
      then have "\<exists>e. decode_string (take j (string_field n)) = Inl (RuntimeError e)"
        using by_nickname by (intro decode_string_short) auto
      with True by_nickname show ?thesis by (auto simp: tk decode_chat_layout)
    next
      case False
      then have "j - (2 + length n) < 2 + length (chat_text c)" using jb by_nickname by simp
      from short [OF this] False by_nickname show ?thesis
        by (auto simp: tk decode_chat_layout)
    qed
  next
    case broadcast
    then show ?thesis using short [of j] jb by (auto simp: tk decode_chat_layout)
  qed
qed

subsection \<open>Payloads\<close>

lemma encode_deliver_Inr:
  "encode_deliver f body = Inr bs \<longleftrightarrow> length body \<le> 65535 \<and> bs = encode_u32_be f @ string_field body"
  by (auto simp: encode_deliver_def Let_def encode_u32_be_def)

lemma encode_user_joined_Inr:
  "encode_user_joined i n = Inr bs \<longleftrightarrow> length n \<le> 65535 \<and> bs = encode_u32_be i @ string_field n"
  by (simp add: encode_user_joined_def good_user_def user_info_bytes_def)

lemma encode_user_left_Inr:
  "encode_user_left i n = Inr bs \<longleftrightarrow> length n \<le> 65535 \<and> bs = encode_u32_be i @ string_field n"
  by (simp add: encode_user_left_def good_user_def user_info_bytes_def)

lemma encode_users_list_Inr:
  "encode_users_list us = Inr bs \<longleftrightarrow> length us \<le> 65535 \<and> (\<forall>u \<in> set us. good_user u) \<and>
     bs = write_u16_be [] (word_of_nat (length us)) @ concat (map user_info_bytes us)"
  by (auto simp: encode_users_list_def encode_user_infos_Inr)

lemma encode_banned_ids_Inr:
  "encode_banned_ids ids = Inr bs \<longleftrightarrow> length ids \<le> 65535 \<and>
     bs = write_u16_be [] (word_of_nat (length ids)) @ concat (map encode_u32_be ids)"
  by (auto simp: encode_banned_ids_def foldl_write_u32)

lemmas encode_Inr = encode_register_def encode_error_def encode_chat_Inr encode_deliver_Inr
  encode_user_joined_Inr encode_user_left_Inr encode_users_list_Inr encode_banned_ids_Inr

text \<open>The user record at the start of a presence payload.\<close>

lemma decode_user_info_0:
  "length n \<le> 65535 \<Longrightarrow> decode_user_info (encode_u32_be i @ string_field n) 0 =
     Inr (\<lparr>ui_id = i, ui_nickname = n\<rparr>, 6 + length n)"
  using ui.item_enc [of "\<lparr>ui_id = i, ui_nickname = n\<rparr>" "[]" "[]"]
  by (simp add: user_info_bytes_def good_user_def)

lemma unat_count: "length xs \<le> 65535 \<Longrightarrow> unat (word_of_nat (length xs) :: u16) = length xs"
  by (rule unat_u16_of_nat) simp

lemma decode_encode_users_list:
  assumes "encode_users_list us = Inr bs"
  shows "decode_payload UsersList bs = Inr (UsersListPayload us)"
  using assms ui.items_enc [of us "write_u16_be [] (word_of_nat (length us))" "[]"]
  by (auto simp: encode_users_list_Inr decode_payload_def unat_count numeral_2_eq_2)

lemma decode_encode_banned_ids:
  assumes "encode_banned_ids ids = Inr bs"
  shows "decode_payload BannedIds bs = Inr (BannedIdsPayload ids)"
  using assms bi.items_enc [of ids "write_u16_be [] (word_of_nat (length ids))" "[]"]
  by (auto simp: encode_banned_ids_Inr decode_payload_def unat_count numeral_2_eq_2)

lemma decode_encode_payload:
  assumes "payload_fits t p" and "encode_payload p = Inr bs"
  shows "decode_payload t bs = Inr p"
proof (cases p)
  case (ChatPayload c)
  then have "wf_chat c" "encode_chat c = Inr bs" using assms by auto
  then have "decode_chat_payload bs = Inr c" by (rule decode_encode_chat)
  then show ?thesis using ChatPayload assms(1) by (auto simp: decode_payload_def)
next
  case (UsersListPayload us)
  then show ?thesis using assms decode_encode_users_list by auto
next
  case (BannedIdsPayload ids)
  then show ?thesis using assms decode_encode_banned_ids by auto
qed (use assms in \<open>auto simp: decode_payload_def encode_Inr encode_assign_id_def decode_deliver_payload_def
      decode_user_info_0 nth_append split: if_splits\<close>)

lemma decode_payload_errors: "decode_payload t bs = Inl e \<Longrightarrow> \<exists>s. e = RuntimeError s"
proof (cases "t = UsersList")
  case True
  assume *: "decode_payload t bs = Inl e"
  have "\<exists>s. e = RuntimeError s" if "decode_items decode_user_info n bs off = Inl e" for n off
    using _ that by (rule decode_items_Inl) (rule decode_user_info_errors)
  with * True show ?thesis
    by (auto simp: decode_payload_def bindr_eq_Inl split: if_splits)
qed (auto simp: decode_payload_def bindr_eq_Inl decode_deliver_payload_def decode_banned_ids_errors
    dest: decode_string_errors decode_chat_payload_errors decode_user_info_errors
    split: MsgType.splits if_splits)

lemma decode_items_count:
  "decode_items item (unat (c :: u16)) bs off = Inr (xs, off') \<Longrightarrow> length xs \<le> 65535"
  using decode_items_length [of item "unat c" bs off xs off'] unat_u16_less [of c] by simp

lemma decode_users_good:
  assumes "decode_items decode_user_info n bs off = Inr (us, off')" and "u \<in> set us"
  shows "length (ui_nickname u) \<le> 65535"
  using decode_items_all [of decode_user_info bs good_user n off us off'] assms decode_user_info_good
  by (auto simp: good_user_def)

lemma decode_payload_fits:
  assumes "decode_payload t bs = Inr p"
  shows "payload_fits t p" "\<exists>out. encode_payload p = Inr out"
proof -
  show "payload_fits t p"
    using assms
    by (auto simp: decode_payload_def decode_deliver_payload_def dest: decode_chat_payload_wf
        split: MsgType.splits if_splits)
  show "\<exists>out. encode_payload p = Inr out"
    using assms
    by (auto simp: decode_payload_def decode_deliver_payload_def encode_Inr good_user_def
        dest: decode_chat_payload_wf decode_string_InrD(1) decode_user_info_good [unfolded good_user_def]
          decode_users_good decode_items_count
        split: MsgType.splits if_splits)
qed

lemma decode_deliver_short:
  assumes "length body \<le> 65535" and "k < 6 + length body"
  shows "\<exists>e. decode_deliver_payload (take k (encode_u32_be f @ string_field body)) = Inl e"
proof (cases "k < 4")
  case False
  then have "\<exists>e. decode_string (take (k - 4) (string_field body)) = Inl (RuntimeError e)"
    using assms by (intro decode_string_short) auto
  with False show ?thesis by (auto simp: decode_deliver_payload_def)
qed (simp add: decode_deliver_payload_def)

lemma decode_user_info_short:
  assumes "length n \<le> 65535" and "k < 6 + length n"
  shows "\<exists>e. decode_user_info (take k (encode_u32_be i @ string_field n)) 0 = Inl e"
  using ui.item_short [of "\<lparr>ui_id = i, ui_nickname = n\<rparr>" k "[]"] assms
  by (simp add: good_user_def user_info_bytes_def)

lemma decode_users_list_short:
  assumes "encode_users_list us = Inr bs" and "k < length bs"
  shows "\<exists>e. decode_payload UsersList (take k bs) = Inl e"
proof (cases "k < 2")
  case False
  let ?w = "write_u16_be [] (word_of_nat (length us))"
  have us: "length us \<le> 65535" "\<forall>u \<in> set us. good_user u" "bs = ?w @ concat (map user_info_bytes us)"
    using assms(1) by (auto simp: encode_users_list_Inr)
  then have "take k bs = ?w @ take (k - 2) (concat (map user_info_bytes us))" using False
    by (simp add: numeral_2_eq_2)
  moreover have "\<exists>e. decode_items decode_user_info (length us)
      (?w @ take (k - 2) (concat (map user_info_bytes us))) (length ?w) = Inl e"
    using us assms(2) False by (intro ui.items_short) auto
  ultimately show ?thesis
    using us(1) by (auto simp: decode_payload_def unat_count numeral_2_eq_2)
qed (use assms in \<open>simp add: decode_payload_def\<close>)

lemma decode_banned_ids_short:
  assumes "encode_banned_ids ids = Inr bs" and "k < length bs"
  shows "\<exists>e. decode_payload BannedIds (take k bs) = Inl e"
proof (cases "k < 2")
  case False
  let ?w = "write_u16_be [] (word_of_nat (length ids))"
  have ids: "length ids \<le> 65535" "bs = ?w @ concat (map encode_u32_be ids)"
    using assms(1) by (auto simp: encode_banned_ids_Inr)
  then have "take k bs = ?w @ take (k - 2) (concat (map encode_u32_be ids))" using False
    by (simp add: numeral_2_eq_2)
  with ids assms(2) False show ?thesis
    by (auto simp: decode_payload_def unat_count)
qed (use assms in \<open>simp add: decode_payload_def\<close>)

lemma decode_payload_short:
  assumes "payload_fits t p" and "encode_payload p = Inr bs" and "k < length bs"
    and "t = AssignId \<longrightarrow> k < 4"
  shows "\<exists>e. decode_payload t (take k bs) = Inl e"
proof (cases p)
  case (ChatPayload c)
  then have "\<exists>e. decode_chat_payload (take k bs) = Inl e"
    using assms by (intro decode_chat_short) auto
  then show ?thesis using ChatPayload assms(1) by (auto simp: decode_payload_def)
next
  case (RegisterPayload n)
  then show ?thesis
    using assms decode_string_short [of n k] by (auto simp: decode_payload_def encode_Inr)
next
  case (ErrorPayload n)
  then show ?thesis
    using assms decode_string_short [of n k] by (auto simp: decode_payload_def encode_Inr)
next
  case (DeliverPayload f body)
  then show ?thesis
    using assms decode_deliver_short [of body k f] by (auto simp: decode_payload_def encode_Inr)
next
  case (UserJoinedPayload i n)
  then show ?thesis
    using assms decode_user_info_short [of n k i] by (auto simp: decode_payload_def encode_Inr)
next
  case (UserLeftPayload i n)
  then show ?thesis
    using assms decode_user_info_short [of n k i] by (auto simp: decode_payload_def encode_Inr)
next
  case (UsersListPayload us)
  then show ?thesis using assms decode_users_list_short by auto
next
  case (BannedIdsPayload ids)
  then show ?thesis using assms decode_banned_ids_short by auto
qed (use assms in \<open>auto simp: decode_payload_def encode_assign_id_def encode_list_users_def\<close>)

lemma decode_app_message_make_frame [simp]:
  "decode_app_message (make_frame t p tid) =
     bindr (decode_payload t p) (\<lambda>pl. Inr \<lparr>msg_type = t, payload = pl\<rparr>)"
  by (simp add: decode_app_message_def make_frame_def)

section \<open>Properties\<close>

text \<open>C9: Round trip of the whole protocol. Every well-formed message of each of the fourteen
  types, encoded by its encoder and put into a frame, is decoded to the same message.\<close>

theorem app_message_roundtrip:
  assumes "wf_message m" and "encode_payload (payload m) = Inr bs"
  shows "decode_app_message (make_frame (msg_type m) bs tid) = Inr m"
  using decode_encode_payload assms by (simp add: wf_message_def)

theorem app_message_roundtrip_witness:
  "decode_app_message (make_frame UsersList
      [0, 1, 0, 0, 0, 7, 0, 2, 0x62, 0x6F] 0) =
   Inr \<lparr>msg_type = UsersList, payload = UsersListPayload [\<lparr>ui_id = 7, ui_nickname = ''bo''\<rparr>]\<rparr>"
  using app_message_roundtrip [of
      "\<lparr>msg_type = UsersList, payload = UsersListPayload [\<lparr>ui_id = 7, ui_nickname = ''bo''\<rparr>]\<rparr>"
      "[0, 1, 0, 0, 0, 7, 0, 2, 0x62, 0x6F]" 0]
  by (simp add: wf_message_def encode_users_list_def encode_user_info_def encode_string_def
      write_u16_be_def write_u32_be_def string_bytes_def byte_of_char_def)

text \<open>C24: What the decoder accepts is well formed: the payload alternative fits the message type
  (so that no later \<^verbatim>\<open>std::get\<close> can throw), chat recipients fit their tag, and the message can be
  encoded again, which is what a relay does.\<close>

theorem decode_app_message_wf:
  assumes "decode_app_message f = Inr m"
  shows "wf_message m \<and> (\<exists>bs. encode_payload (payload m) = Inr bs)"
  using assms decode_payload_fits
  by (auto simp: decode_app_message_def wf_message_def split: if_splits option.splits)

theorem decode_app_message_wf_witness:
  "\<exists>m. decode_app_message \<lparr>transaction_id = 0, unit_id = 0, pdu = [0x41, 8]\<rparr> = Inr m \<and> wf_message m"
  using decode_app_message_wf [of "make_frame ListUsers [] 0" "\<lparr>msg_type = ListUsers, payload = ListUsersPayload\<rparr>"]
  by (simp add: decode_payload_def) (simp add: make_frame_def decode_app_message_def kAppFunctionCode_def
      msg_type_of_code_def decode_payload_def wf_message_def)

text \<open>Memory safety of the decoder. Whatever bytes arrive, \<^verbatim>\<open>decode_app_message\<close> reads inside the
  PDU: it returns a message or throws a \<^verbatim>\<open>runtime_error\<close>.\<close>

theorem decode_app_message_memory_safe:
  "(\<exists>m. decode_app_message f = Inr m) \<or> (\<exists>s. decode_app_message f = Inl (RuntimeError s))"
  by (cases "decode_app_message f")
    (auto simp: decode_app_message_def bindr_eq_Inl dest: decode_payload_errors
      split: if_splits option.splits)



end
