(* ===== verification/Text.thy ===== *)
theory Text
  imports Prelude
begin

text \<open>
  The text processing that the sources take from the C++ standard library: character classes,
  \<^verbatim>\<open>std::stoul\<close>, \<^verbatim>\<open>std::stoi\<close>, \<^verbatim>\<open>std::to_string\<close>, \<^verbatim>\<open>std::getline\<close> with a delimiter and
  \<^verbatim>\<open>find\<close>-then-\<^verbatim>\<open>substr\<close>. \<^verbatim>\<open>unsigned long\<close> has 64 bits and \<^verbatim>\<open>int\<close> has 32, as on the Linux targets
  the program is built for.
\<close>

section \<open>Definitions\<close>

definition isspace :: "char \<Rightarrow> bool" where
  "isspace c \<longleftrightarrow> of_char c \<in> {32, 9, 10, 11, 12, 13 :: nat}"

definition is_digit :: "char \<Rightarrow> bool" where
  "is_digit c \<longleftrightarrow> 48 \<le> (of_char c :: nat) \<and> (of_char c :: nat) \<le> 57"

definition digit_value :: "char \<Rightarrow> nat" where
  "digit_value c = of_char c - 48"

definition digits_value :: "string \<Rightarrow> nat" where
  "digits_value ds = foldl (\<lambda>a c. 10 * a + digit_value c) 0 ds"

definition digit_char :: "nat \<Rightarrow> char" where
  "digit_char d = char_of (48 + d)"

fun to_string :: "nat \<Rightarrow> string" where
  "to_string n = (if n < 10 then [digit_char n] else to_string (n div 10) @ [digit_char (n mod 10)])"

declare to_string.simps [simp del]

text \<open>The optional sign of a number: whether it is a minus, and the text behind it.\<close>

fun number_sign :: "string \<Rightarrow> bool \<times> string" where
  "number_sign [] = (False, [])"
| "number_sign (c # cs) =
     (if c = CHR ''-'' then (True, cs) else if c = CHR ''+'' then (False, cs) else (False, c # cs))"

text \<open>
  \<^verbatim>\<open>std::stoul(s, &consumed, 10)\<close>: leading white space and a sign are skipped, a minus negates the
  value modulo \<open>2^64\<close>, a text without digits and a magnitude beyond 64 bits are exceptions.
\<close>

definition stoul :: "string \<Rightarrow> (u64 \<times> nat) res" where
  "stoul s =
    (let (neg, u) = number_sign (dropWhile isspace s);
         ds = takeWhile is_digit u;
         v = digits_value ds
     in if ds = [] then Inl (InvalidArgument ''stoul'')
        else if 2 ^ 64 \<le> v then Inl (OutOfRange ''stoul'')
        else Inr (if neg then - word_of_nat v else word_of_nat v, length s - length u + length ds))"

text \<open>\<^verbatim>\<open>std::stoi(s)\<close>: the same syntax, with the value in the range of a 32-bit \<^verbatim>\<open>int\<close>.\<close>

definition stoi :: "string \<Rightarrow> int res" where
  "stoi s =
    (let (neg, u) = number_sign (dropWhile isspace s);
         ds = takeWhile is_digit u;
         v = (if neg then - int (digits_value ds) else int (digits_value ds))
     in if ds = [] then Inl (InvalidArgument ''stoi'')
        else if v < - (2 ^ 31) \<or> 2 ^ 31 \<le> v then Inl (OutOfRange ''stoi'')
        else Inr v)"

text \<open>\<^verbatim>\<open>find(c)\<close> followed by the two \<^verbatim>\<open>substr\<close> around the position.\<close>

definition split_first :: "char \<Rightarrow> string \<Rightarrow> (string \<times> string) option" where
  "split_first c s =
    (case dropWhile (\<lambda>x. x \<noteq> c) s of
       [] \<Rightarrow> None
     | _ # rest \<Rightarrow> Some (takeWhile (\<lambda>x. x \<noteq> c) s, rest))"

text \<open>The tokens of a \<^verbatim>\<open>while (std::getline(stream, token, delim))\<close> loop.\<close>

function getlines :: "char \<Rightarrow> string \<Rightarrow> string list" where
  "getlines d [] = []"
| "getlines d (c # cs) =
     (case split_first d (c # cs) of
        None \<Rightarrow> [c # cs]
      | Some (t, rest) \<Rightarrow> t # getlines d rest)"
  by pat_completeness auto

lemma split_first_SomeD: "split_first c s = Some (t, r) \<Longrightarrow> s = t @ c # r \<and> c \<notin> set t"
proof -
  assume "split_first c s = Some (t, r)"
  then obtain x where d: "dropWhile (\<lambda>x. x \<noteq> c) s = x # r" and t: "t = takeWhile (\<lambda>x. x \<noteq> c) s"
    by (auto simp: split_first_def split: list.splits)
  have "x = c" using hd_dropWhile [of "\<lambda>x. x \<noteq> c" s] d by simp
  moreover have "s = t @ x # r" using takeWhile_dropWhile_id [of "\<lambda>x. x \<noteq> c" s] d t by simp
  moreover have "c \<notin> set t" using t by (auto dest: set_takeWhileD)
  ultimately show ?thesis by simp
qed

termination getlines
  by (relation "measure (\<lambda>(d, s). length s)") (auto dest!: split_first_SomeD simp: Cons_eq_append_conv)

text \<open>Removing a set of leading and of trailing characters, one at a time.\<close>

definition trim_front :: "(char \<Rightarrow> bool) \<Rightarrow> string \<Rightarrow> string" where
  "trim_front p s = dropWhile p s"

definition trim_back :: "(char \<Rightarrow> bool) \<Rightarrow> string \<Rightarrow> string" where
  "trim_back p s = rev (dropWhile p (rev s))"

section \<open>Lemmas\<close>

lemma split_first_append [simp]: "c \<notin> set t \<Longrightarrow> split_first c (t @ c # r) = Some (t, r)"
proof -
  assume "c \<notin> set t"
  then have "dropWhile (\<lambda>x. x \<noteq> c) (t @ c # r) = c # r" "takeWhile (\<lambda>x. x \<noteq> c) (t @ c # r) = t"
    by (induction t) auto
  then show ?thesis by (simp add: split_first_def)
qed

lemma split_first_None_iff: "split_first c s = None \<longleftrightarrow> c \<notin> set s"
proof (cases "c \<in> set s")
  case True
  then obtain t r where "s = t @ c # r" "c \<notin> set t" by (metis split_list_first)
  then show ?thesis by simp
next
  case False
  then have "dropWhile (\<lambda>x. x \<noteq> c) s = []" by auto
  then show ?thesis using False unfolding split_first_def by (simp only: list.case) simp
qed

lemma of_char_digit_char [simp]: "d < 10 \<Longrightarrow> of_char (digit_char d) = 48 + d"
  by (simp add: digit_char_def)

lemma is_digit_digit_char [simp]: "d < 10 \<Longrightarrow> is_digit (digit_char d)"
  by (simp add: is_digit_def)

lemma digit_value_digit_char [simp]: "d < 10 \<Longrightarrow> digit_value (digit_char d) = d"
  by (simp add: digit_value_def)

lemma to_string_digits: "c \<in> set (to_string n) \<Longrightarrow> is_digit c"
proof (induction n arbitrary: c rule: to_string.induct)
  case (1 n)
  then show ?case by (subst (asm) (2) to_string.simps) (auto split: if_splits)
qed

lemma to_string_nonempty [simp]: "to_string n \<noteq> []"
  by (subst to_string.simps) simp

lemma digits_value_snoc: "digits_value (ds @ [c]) = 10 * digits_value ds + digit_value c"
  by (simp add: digits_value_def)

lemma digits_value_to_string [simp]: "digits_value (to_string n) = n"
proof (induction n rule: to_string.induct)
  case (1 n)
  show ?case
  proof (cases "n < 10")
    case True
    then show ?thesis by (subst to_string.simps) (simp add: digits_value_def)
  next
    case False
    with 1 show ?thesis by (subst to_string.simps) (simp add: digits_value_snoc)
  qed
qed

lemma to_string_inj [simp]: "to_string m = to_string n \<longleftrightarrow> m = n"
  by (metis digits_value_to_string)

lemma digit_not_space: "is_digit c \<Longrightarrow> \<not> isspace c"
  by (auto simp: is_digit_def isspace_def)

lemma digit_neq: "is_digit c \<Longrightarrow> c \<noteq> CHR ''-'' \<and> c \<noteq> CHR ''+'' \<and> c \<noteq> CHR '':'' \<and> c \<noteq> CHR '',''"
  by (auto simp: is_digit_def)

lemma takeWhile_digits: "\<forall>c \<in> set ds. is_digit c \<Longrightarrow> takeWhile is_digit ds = ds"
  by (simp add: takeWhile_eq_all_conv)

lemma number_sign_digits: "ds \<noteq> [] \<Longrightarrow> \<forall>c \<in> set ds. is_digit c \<Longrightarrow> number_sign (dropWhile isspace ds) = (False, ds)"
  by (cases ds) (auto simp: digit_not_space dest: digit_neq)

lemma stoul_digits:
  assumes "ds \<noteq> []" and "\<forall>c \<in> set ds. is_digit c"
  shows "stoul ds = (if 2 ^ 64 \<le> digits_value ds then Inl (OutOfRange ''stoul'')
    else Inr (word_of_nat (digits_value ds), length ds))"
  using assms by (simp add: stoul_def number_sign_digits takeWhile_digits)

lemma stoul_to_string [simp]: "n < 2 ^ 64 \<Longrightarrow> stoul (to_string n) = Inr (word_of_nat n, length (to_string n))"
  using stoul_digits [of "to_string n"] to_string_digits by auto

lemma stoi_to_string [simp]:
  assumes "n < 2 ^ 31"
  shows "stoi (to_string n) = Inr (int n)"
proof -
  have "\<forall>c \<in> set (to_string n). is_digit c" using to_string_digits by blast
  then show ?thesis using assms by (simp add: stoi_def number_sign_digits takeWhile_digits)
qed

end
