(* ===== verification/Registry.thy ===== *)
theory Registry
  imports Protocol Text "HOL-Library.AList"
begin

text \<open>
  The server's model of its clients: \<^verbatim>\<open>server/model/ClientRecord.hpp\<close>, the interface
  \<^verbatim>\<open>IClientRegistry\<close> and its implementation \<^verbatim>\<open>ClientRegistry\<close>.

  The three hash maps of \<^verbatim>\<open>ClientRegistry\<close> are redundant views of one relation between
  descriptors, ids and nicknames. \<open>registry_inv\<close> states that they agree. The table by descriptor
  is an association list because the program iterates over it; the iteration order of a
  \<^verbatim>\<open>std::unordered_map\<close> is unspecified, and nothing proved here depends on it.

  The locale \<open>client_registry\<close> is the contract of \<^verbatim>\<open>IClientRegistry\<close>, stated on the abstract view
  of a registry as one finite map from descriptors to records.
\<close>

section \<open>State\<close>

record client_record =
  cr_fd :: int
  cr_id :: u32
  cr_nickname :: string
  cr_registered :: bool

record registry =
  clients_by_fd :: "(int \<times> client_record) list"
  fd_by_id_map :: "u32 \<rightharpoonup> int"
  id_by_nickname_map :: "string \<rightharpoonup> u32"

definition empty_registry :: registry where
  "empty_registry = \<lparr>clients_by_fd = [], fd_by_id_map = Map.empty, id_by_nickname_map = Map.empty\<rparr>"

section \<open>Operations\<close>

definition registry_add :: "registry \<Rightarrow> int \<Rightarrow> u32 \<Rightarrow> client_record \<times> registry" where
  "registry_add r fd cid =
    (let rec = \<lparr>cr_fd = fd, cr_id = cid, cr_nickname = '''', cr_registered = False\<rparr>
     in (rec, r\<lparr>clients_by_fd := AList.update fd rec (clients_by_fd r),
                fd_by_id_map := (fd_by_id_map r)(cid \<mapsto> fd)\<rparr>))"

definition find_by_fd :: "registry \<Rightarrow> int \<Rightarrow> client_record option" where
  "find_by_fd r fd = map_of (clients_by_fd r) fd"

definition registry_remove :: "registry \<Rightarrow> int \<Rightarrow> client_record option \<times> registry" where
  "registry_remove r fd =
    (case find_by_fd r fd of
       None \<Rightarrow> (None, r)
     | Some rec \<Rightarrow>
         (Some rec,
          r\<lparr>id_by_nickname_map :=
               (if cr_nickname rec \<noteq> '''' then (id_by_nickname_map r)(cr_nickname rec := None)
                else id_by_nickname_map r),
            fd_by_id_map := (fd_by_id_map r)(cr_id rec := None),
            clients_by_fd := AList.delete fd (clients_by_fd r)\<rparr>))"

definition fd_by_id :: "registry \<Rightarrow> u32 \<Rightarrow> int option" where
  "fd_by_id r cid = fd_by_id_map r cid"

definition id_by_nickname :: "registry \<Rightarrow> string \<Rightarrow> u32 option" where
  "id_by_nickname r nickname = id_by_nickname_map r nickname"

definition nickname_taken_by_other :: "registry \<Rightarrow> string \<Rightarrow> u32 \<Rightarrow> bool" where
  "nickname_taken_by_other r nickname cid =
    (case id_by_nickname_map r nickname of None \<Rightarrow> False | Some other \<Rightarrow> other \<noteq> cid)"

definition set_nickname :: "registry \<Rightarrow> int \<Rightarrow> string \<Rightarrow> registry" where
  "set_nickname r fd nickname =
    (case find_by_fd r fd of
       None \<Rightarrow> r
     | Some rec \<Rightarrow>
         let m = (if cr_nickname rec \<noteq> '''' then (id_by_nickname_map r)(cr_nickname rec := None)
                  else id_by_nickname_map r);
             rec' = rec\<lparr>cr_nickname := nickname, cr_registered := True\<rparr>
         in r\<lparr>clients_by_fd := AList.update fd rec' (clients_by_fd r),
              id_by_nickname_map := m(nickname \<mapsto> cr_id rec')\<rparr>)"

definition collect_users :: "registry \<Rightarrow> user_info list" where
  "collect_users r =
    sort_key ui_id (map (\<lambda>(fd, c). \<lparr>ui_id = cr_id c, ui_nickname = cr_nickname c\<rparr>) (clients_by_fd r))"

definition resolve_recipient :: "registry \<Rightarrow> chat_payload \<Rightarrow> u32 option res" where
  "resolve_recipient r chat =
    (if recipient_tag chat = kRecipientById then
       (if length (recipient_data chat) < kUint32Size then Inr None
        else bindr (read_u32_be (recipient_data chat)) (\<lambda>cid.
          Inr (case fd_by_id r cid of None \<Rightarrow> None | Some _ \<Rightarrow> Some cid)))
     else if recipient_tag chat = kRecipientByNickname then
       bindr (decode_string (recipient_data chat)) (\<lambda>nickname. Inr (id_by_nickname r nickname))
     else Inr None)"

definition recipient_label :: "registry \<Rightarrow> chat_payload \<Rightarrow> string res" where
  "recipient_label r chat =
    (if recipient_tag chat = kRecipientBroadcast then Inr kBroadcastRecipient
     else if recipient_tag chat = kRecipientById \<and> kUint32Size \<le> length (recipient_data chat) then
       bindr (read_u32_be (recipient_data chat)) (\<lambda>cid. Inr (to_string (unat cid)))
     else if recipient_tag chat = kRecipientByNickname then decode_string (recipient_data chat)
     else Inr ''?'')"

definition all_fds :: "registry \<Rightarrow> int list" where
  "all_fds r = map fst (clients_by_fd r)"

section \<open>The invariant\<close>

definition registry_inv :: "registry \<Rightarrow> bool" where
  "registry_inv r \<longleftrightarrow>
     distinct (map fst (clients_by_fd r)) \<and>
     (\<forall>fd c. find_by_fd r fd = Some c \<longrightarrow>
        cr_fd c = fd \<and> fd_by_id r (cr_id c) = Some fd \<and>
        (cr_registered c \<longleftrightarrow> cr_nickname c \<noteq> '''') \<and>
        (cr_nickname c \<noteq> '''' \<longrightarrow> id_by_nickname r (cr_nickname c) = Some (cr_id c))) \<and>
     (\<forall>cid fd. fd_by_id r cid = Some fd \<longrightarrow> (\<exists>c. find_by_fd r fd = Some c \<and> cr_id c = cid)) \<and>
     (\<forall>n cid. id_by_nickname r n = Some cid \<longrightarrow>
        n \<noteq> '''' \<and> (\<exists>fd c. find_by_fd r fd = Some c \<and> cr_id c = cid \<and> cr_nickname c = n))"

section \<open>The contract of IClientRegistry\<close>

locale client_registry =
  fixes inv :: "'r \<Rightarrow> bool"
    and find :: "'r \<Rightarrow> int \<Rightarrow> client_record option"
    and by_id :: "'r \<Rightarrow> u32 \<Rightarrow> int option"
    and by_nickname :: "'r \<Rightarrow> string \<Rightarrow> u32 option"
    and fds :: "'r \<Rightarrow> int list"
    and add :: "'r \<Rightarrow> int \<Rightarrow> u32 \<Rightarrow> client_record \<times> 'r"
    and remove :: "'r \<Rightarrow> int \<Rightarrow> client_record option \<times> 'r"
    and rename :: "'r \<Rightarrow> int \<Rightarrow> string \<Rightarrow> 'r"
  assumes find_fd: "inv r \<Longrightarrow> find r fd = Some c \<Longrightarrow> cr_fd c = fd"
    and by_id_iff: "inv r \<Longrightarrow> by_id r i = Some fd \<longleftrightarrow> (\<exists>c. find r fd = Some c \<and> cr_id c = i)"
    and by_nickname_iff: "inv r \<Longrightarrow> by_nickname r n = Some i \<longleftrightarrow>
      n \<noteq> '''' \<and> (\<exists>fd c. find r fd = Some c \<and> cr_id c = i \<and> cr_nickname c = n)"
    and fds_dom: "inv r \<Longrightarrow> set (fds r) = dom (find r)"
    and fds_distinct: "inv r \<Longrightarrow> distinct (fds r)"
    and add_inv: "inv r \<Longrightarrow> find r fd = None \<Longrightarrow> by_id r i = None \<Longrightarrow> inv (snd (add r fd i))"
    and add_rec: "fst (add r fd i) = \<lparr>cr_fd = fd, cr_id = i, cr_nickname = '''', cr_registered = False\<rparr>"
    and add_find: "find (snd (add r fd i)) = (find r)(fd \<mapsto> fst (add r fd i))"
    and remove_inv: "inv r \<Longrightarrow> inv (snd (remove r fd))"
    and remove_rec: "fst (remove r fd) = find r fd"
    and remove_find: "inv r \<Longrightarrow> find (snd (remove r fd)) = (find r)(fd := None)"
    and rename_inv: "inv r \<Longrightarrow> n \<noteq> '''' \<Longrightarrow> (\<And>c. find r fd = Some c \<Longrightarrow> by_nickname r n \<in> {None, Some (cr_id c)}) \<Longrightarrow>
      inv (rename r fd n)"
    and rename_find: "find (rename r fd n) =
      (find r)(fd := map_option (\<lambda>c. c\<lparr>cr_nickname := n, cr_registered := True\<rparr>) (find r fd))"
begin

text \<open>An id belongs to one descriptor, and so does a nickname.\<close>

lemma ids_unique: "inv r \<Longrightarrow> find r fd = Some c \<Longrightarrow> find r fd' = Some c' \<Longrightarrow> cr_id c = cr_id c' \<Longrightarrow> fd = fd'"
  using by_id_iff by (metis option.inject)

lemma nicknames_unique:
  "inv r \<Longrightarrow> find r fd = Some c \<Longrightarrow> find r fd' = Some c' \<Longrightarrow> cr_nickname c = cr_nickname c' \<Longrightarrow>
   cr_nickname c \<noteq> '''' \<Longrightarrow> fd = fd'"
  using by_nickname_iff ids_unique by (metis option.inject)

lemma by_id_None_iff: "inv r \<Longrightarrow> by_id r i = None \<longleftrightarrow> (\<forall>fd c. find r fd = Some c \<longrightarrow> cr_id c \<noteq> i)"
  using by_id_iff by (metis not_None_eq)

lemma nickname_connected: "inv r \<Longrightarrow> by_nickname r n = Some i \<Longrightarrow> by_id r i \<noteq> None"
  using by_nickname_iff by_id_iff by (metis option.distinct(1))

lemma find_iff_fds: "inv r \<Longrightarrow> fd \<in> set (fds r) \<longleftrightarrow> find r fd \<noteq> None"
  by (auto simp: fds_dom)

lemma add_by_id: "inv r \<Longrightarrow> find r fd = None \<Longrightarrow> by_id r i = None \<Longrightarrow> by_id (snd (add r fd i)) i = Some fd"
  by (simp add: by_id_iff add_inv add_find add_rec)

lemma remove_by_id:
  assumes "inv r" and "find r fd = Some c"
  shows "by_id (snd (remove r fd)) (cr_id c) = None"
  using assms ids_unique by (auto simp: by_id_None_iff remove_inv remove_find)

text \<open>A client that joins and leaves leaves no trace.\<close>

lemma remove_add:
  assumes "inv r" and "find r fd = None" and "by_id r i = None"
  shows "find (snd (remove (snd (add r fd i)) fd)) = find r"
  using assms by (auto simp: remove_find add_inv add_find)

end

section \<open>ClientRegistry implements the contract\<close>

lemma find_by_fd_add [simp]:
  "find_by_fd (snd (registry_add r fd cid)) = (find_by_fd r)(fd \<mapsto> fst (registry_add r fd cid))"
  by (rule ext) (simp add: find_by_fd_def registry_add_def Let_def update_conv)

lemma fd_by_id_add [simp]: "fd_by_id (snd (registry_add r fd cid)) = (fd_by_id r)(cid \<mapsto> fd)"
  by (rule ext) (simp add: fd_by_id_def registry_add_def Let_def)

lemma id_by_nickname_add [simp]: "id_by_nickname (snd (registry_add r fd cid)) = id_by_nickname r"
  by (rule ext) (simp add: id_by_nickname_def registry_add_def Let_def)

lemma registry_add_rec [simp]:
  "fst (registry_add r fd cid) = \<lparr>cr_fd = fd, cr_id = cid, cr_nickname = '''', cr_registered = False\<rparr>"
  by (simp add: registry_add_def Let_def)

lemma registry_remove_rec [simp]: "fst (registry_remove r fd) = find_by_fd r fd"
  by (simp add: registry_remove_def split: option.split)

lemma find_by_fd_remove [simp]: "find_by_fd (snd (registry_remove r fd)) = (find_by_fd r)(fd := None)"
  by (rule ext) (auto simp: find_by_fd_def registry_remove_def delete_conv split: option.split)

lemma fd_by_id_remove:
  "fd_by_id (snd (registry_remove r fd)) =
     (case find_by_fd r fd of None \<Rightarrow> fd_by_id r | Some c \<Rightarrow> (fd_by_id r)(cr_id c := None))"
  by (rule ext) (auto simp: fd_by_id_def registry_remove_def split: option.split)

lemma id_by_nickname_remove:
  "id_by_nickname (snd (registry_remove r fd)) =
     (case find_by_fd r fd of None \<Rightarrow> id_by_nickname r
      | Some c \<Rightarrow> if cr_nickname c \<noteq> '''' then (id_by_nickname r)(cr_nickname c := None) else id_by_nickname r)"
  by (rule ext) (auto simp: id_by_nickname_def registry_remove_def split: option.split)

lemma find_by_fd_set_nickname [simp]:
  "find_by_fd (set_nickname r fd n) =
     (find_by_fd r)(fd := map_option (\<lambda>c. c\<lparr>cr_nickname := n, cr_registered := True\<rparr>) (find_by_fd r fd))"
  by (rule ext) (auto simp: find_by_fd_def set_nickname_def Let_def update_conv split: option.split)

lemma fd_by_id_set_nickname [simp]: "fd_by_id (set_nickname r fd n) = fd_by_id r"
  by (rule ext) (auto simp: fd_by_id_def set_nickname_def Let_def split: option.split)

lemma id_by_nickname_set_nickname:
  "id_by_nickname (set_nickname r fd n) =
     (case find_by_fd r fd of None \<Rightarrow> id_by_nickname r
      | Some c \<Rightarrow> (if cr_nickname c \<noteq> '''' then (id_by_nickname r)(cr_nickname c := None)
                   else id_by_nickname r)(n \<mapsto> cr_id c))"
  by (rule ext) (auto simp: id_by_nickname_def set_nickname_def Let_def split: option.split)

lemma all_fds_add: "all_fds (snd (registry_add r fd cid)) =
    (if fd \<in> set (all_fds r) then all_fds r else all_fds r @ [fd])"
  by (simp add: all_fds_def registry_add_def Let_def update_keys)

lemma all_fds_remove: "all_fds (snd (registry_remove r fd)) = removeAll fd (all_fds r)"
  by (auto simp: all_fds_def registry_remove_def find_by_fd_def delete_keys map_of_eq_None_iff
        split: option.split)

lemma all_fds_set_nickname [simp]: "all_fds (set_nickname r fd n) = all_fds r"
  by (auto simp: all_fds_def set_nickname_def Let_def find_by_fd_def update_keys map_of_eq_None_iff
        split: option.split dest!: map_of_SomeD intro: rev_image_eqI)

lemma set_all_fds: "set (all_fds r) = dom (find_by_fd r)"
proof -
  have "find_by_fd r = map_of (clients_by_fd r)" by (rule ext) (simp add: find_by_fd_def)
  then show ?thesis by (simp add: all_fds_def dom_map_of_conv_image_fst)
qed

lemma registry_inv_empty [simp]: "registry_inv empty_registry"
  by (simp add: registry_inv_def empty_registry_def find_by_fd_def fd_by_id_def id_by_nickname_def)

text \<open>The invariant split into its clauses, stated on the observers.\<close>

lemma registry_invI:
  assumes "distinct (all_fds r)"
    and "\<And>fd c. find_by_fd r fd = Some c \<Longrightarrow> cr_fd c = fd \<and> fd_by_id r (cr_id c) = Some fd \<and>
          (cr_registered c \<longleftrightarrow> cr_nickname c \<noteq> '''') \<and>
          (cr_nickname c \<noteq> '''' \<longrightarrow> id_by_nickname r (cr_nickname c) = Some (cr_id c))"
    and "\<And>cid fd. fd_by_id r cid = Some fd \<Longrightarrow> \<exists>c. find_by_fd r fd = Some c \<and> cr_id c = cid"
    and "\<And>n cid. id_by_nickname r n = Some cid \<Longrightarrow>
          n \<noteq> '''' \<and> (\<exists>fd c. find_by_fd r fd = Some c \<and> cr_id c = cid \<and> cr_nickname c = n)"
  shows "registry_inv r"
  using assms unfolding registry_inv_def all_fds_def by blast

lemma registry_invD:
  assumes "registry_inv r"
  shows "distinct (all_fds r)"
    and "find_by_fd r fd = Some c \<Longrightarrow> cr_fd c = fd"
    and "find_by_fd r fd = Some c \<Longrightarrow> fd_by_id r (cr_id c) = Some fd"
    and "find_by_fd r fd = Some c \<Longrightarrow> cr_registered c \<longleftrightarrow> cr_nickname c \<noteq> ''''"
    and "find_by_fd r fd = Some c \<Longrightarrow> cr_nickname c \<noteq> '''' \<Longrightarrow> id_by_nickname r (cr_nickname c) = Some (cr_id c)"
    and "fd_by_id r cid = Some fd \<Longrightarrow> \<exists>c. find_by_fd r fd = Some c \<and> cr_id c = cid"
    and "id_by_nickname r n = Some cid \<Longrightarrow>
          n \<noteq> '''' \<and> (\<exists>fd c. find_by_fd r fd = Some c \<and> cr_id c = cid \<and> cr_nickname c = n)"
  using assms unfolding registry_inv_def all_fds_def by blast+

lemma registry_inv_add:
  assumes "registry_inv r" and "find_by_fd r fd = None" and "fd_by_id r cid = None"
  shows "registry_inv (snd (registry_add r fd cid))"
proof (rule registry_invI)
  show "distinct (all_fds (snd (registry_add r fd cid)))"
    using assms(1) by (simp add: all_fds_add registry_invD(1))
next
  fix f c assume "find_by_fd (snd (registry_add r fd cid)) f = Some c"
  then show "cr_fd c = f \<and> fd_by_id (snd (registry_add r fd cid)) (cr_id c) = Some f \<and>
      (cr_registered c \<longleftrightarrow> cr_nickname c \<noteq> '''') \<and>
      (cr_nickname c \<noteq> '''' \<longrightarrow> id_by_nickname (snd (registry_add r fd cid)) (cr_nickname c) = Some (cr_id c))"
    using assms registry_invD(2-5)[OF assms(1), of f c] by (auto split: if_splits)
next
  fix i f assume "fd_by_id (snd (registry_add r fd cid)) i = Some f"
  then show "\<exists>c. find_by_fd (snd (registry_add r fd cid)) f = Some c \<and> cr_id c = i"
    using assms registry_invD(6)[OF assms(1), of i f] by (auto split: if_splits)
next
  fix n i assume "id_by_nickname (snd (registry_add r fd cid)) n = Some i"
  then obtain f c where "n \<noteq> ''''" "find_by_fd r f = Some c" "cr_id c = i" "cr_nickname c = n"
    using registry_invD(7)[OF assms(1)] by fastforce
  moreover from this assms(2) have "f \<noteq> fd" by auto
  ultimately show "n \<noteq> '''' \<and> (\<exists>f c. find_by_fd (snd (registry_add r fd cid)) f = Some c \<and> cr_id c = i \<and> cr_nickname c = n)"
    by (auto intro: exI[of _ f])
qed

lemma registry_id_inj:
  "registry_inv r \<Longrightarrow> find_by_fd r f = Some c \<Longrightarrow> find_by_fd r f' = Some c' \<Longrightarrow> cr_id c = cr_id c' \<Longrightarrow> f = f'"
  using registry_invD(3) by (metis option.inject)

lemma registry_inv_remove:
  assumes "registry_inv r"
  shows "registry_inv (snd (registry_remove r fd))"
proof (cases "find_by_fd r fd")
  case None
  then show ?thesis using assms by (simp add: registry_remove_def)
next
  case (Some d)
  show ?thesis
  proof (rule registry_invI)
    show "distinct (all_fds (snd (registry_remove r fd)))"
      using assms by (simp add: all_fds_remove distinct_removeAll registry_invD(1))
  next
    fix f c assume "find_by_fd (snd (registry_remove r fd)) f = Some c"
    then have f: "f \<noteq> fd" "find_by_fd r f = Some c" by (auto split: if_splits)
    then have "cr_id c \<noteq> cr_id d" using registry_id_inj[OF assms _ Some] by blast
    moreover have "cr_nickname c \<noteq> '''' \<Longrightarrow> cr_nickname c \<noteq> cr_nickname d"
      using registry_invD(5)[OF assms f(2)] registry_invD(5)[OF assms Some] \<open>cr_id c \<noteq> cr_id d\<close> by auto
    ultimately show "cr_fd c = f \<and> fd_by_id (snd (registry_remove r fd)) (cr_id c) = Some f \<and>
        (cr_registered c \<longleftrightarrow> cr_nickname c \<noteq> '''') \<and>
        (cr_nickname c \<noteq> '''' \<longrightarrow> id_by_nickname (snd (registry_remove r fd)) (cr_nickname c) = Some (cr_id c))"
      using registry_invD(2-5)[OF assms f(2)] Some by (simp add: fd_by_id_remove id_by_nickname_remove)
  next
    fix i f assume "fd_by_id (snd (registry_remove r fd)) i = Some f"
    then have i: "i \<noteq> cr_id d" "fd_by_id r i = Some f"
      using Some by (auto simp: fd_by_id_remove split: if_splits)
    then show "\<exists>c. find_by_fd (snd (registry_remove r fd)) f = Some c \<and> cr_id c = i"
      using registry_invD(6)[OF assms i(2)] Some by auto
  next
    fix n i assume n: "id_by_nickname (snd (registry_remove r fd)) n = Some i"
    then have n': "id_by_nickname r n = Some i" "cr_nickname d \<noteq> '''' \<longrightarrow> n \<noteq> cr_nickname d"
      using Some by (auto simp: id_by_nickname_remove split: if_splits)
    then obtain f c where f: "n \<noteq> ''''" "find_by_fd r f = Some c" "cr_id c = i" "cr_nickname c = n"
      using registry_invD(7)[OF assms] by blast
    with n' Some have "f \<noteq> fd" by auto
    with f show "n \<noteq> '''' \<and> (\<exists>f c. find_by_fd (snd (registry_remove r fd)) f = Some c \<and> cr_id c = i \<and> cr_nickname c = n)"
      by (auto intro: exI[of _ f])
  qed
qed

lemma registry_inv_set_nickname:
  assumes "registry_inv r" and "n \<noteq> ''''"
    and free: "\<And>c. find_by_fd r fd = Some c \<Longrightarrow> id_by_nickname r n \<in> {None, Some (cr_id c)}"
  shows "registry_inv (set_nickname r fd n)"
proof (cases "find_by_fd r fd")
  case None
  then show ?thesis using assms by (simp add: set_nickname_def)
next
  case (Some d)
  show ?thesis
  proof (rule registry_invI)
    show "distinct (all_fds (set_nickname r fd n))"
      using assms(1) by (simp add: registry_invD(1))
  next
    fix f c assume c: "find_by_fd (set_nickname r fd n) f = Some c"
    show "cr_fd c = f \<and> fd_by_id (set_nickname r fd n) (cr_id c) = Some f \<and>
        (cr_registered c \<longleftrightarrow> cr_nickname c \<noteq> '''') \<and>
        (cr_nickname c \<noteq> '''' \<longrightarrow> id_by_nickname (set_nickname r fd n) (cr_nickname c) = Some (cr_id c))"
    proof (cases "f = fd")
      case True
      then show ?thesis
        using c Some assms(2) registry_invD(2-3)[OF assms(1) Some] by (auto simp: id_by_nickname_set_nickname)
    next
      case False
      then have f: "find_by_fd r f = Some c" using c by simp
      have "cr_id c \<noteq> cr_id d" using False registry_id_inj[OF assms(1) f Some] by blast
      then have "cr_nickname c \<noteq> '''' \<Longrightarrow> cr_nickname c \<noteq> cr_nickname d \<and> cr_nickname c \<noteq> n"
        using registry_invD(5)[OF assms(1) f] registry_invD(5)[OF assms(1) Some] free[OF Some] by auto
      then show ?thesis
        using registry_invD(2-5)[OF assms(1) f] Some by (auto simp: id_by_nickname_set_nickname)
    qed
  next
    fix i f assume "fd_by_id (set_nickname r fd n) i = Some f"
    then show "\<exists>c. find_by_fd (set_nickname r fd n) f = Some c \<and> cr_id c = i"
      using registry_invD(6)[OF assms(1), of i f] by auto
  next
    fix m i assume m: "id_by_nickname (set_nickname r fd n) m = Some i"
    show "m \<noteq> '''' \<and> (\<exists>f c. find_by_fd (set_nickname r fd n) f = Some c \<and> cr_id c = i \<and> cr_nickname c = m)"
    proof (cases "m = n")
      case True
      then show ?thesis using m Some assms(2) by (auto simp: id_by_nickname_set_nickname)
    next
      case False
      then have m': "id_by_nickname r m = Some i" "cr_nickname d \<noteq> '''' \<longrightarrow> m \<noteq> cr_nickname d"
        using m Some by (auto simp: id_by_nickname_set_nickname split: if_splits)
      then obtain f c where f: "m \<noteq> ''''" "find_by_fd r f = Some c" "cr_id c = i" "cr_nickname c = m"
        using registry_invD(7)[OF assms(1)] by blast
      with m' Some have "f \<noteq> fd" by auto
      with f show ?thesis by (auto intro: exI[of _ f])
    qed
  qed
qed

interpretation reg: client_registry registry_inv find_by_fd fd_by_id id_by_nickname all_fds
  registry_add registry_remove set_nickname
proof unfold_locales
  fix r fd n
  assume "registry_inv r" and "n \<noteq> ''''"
    and "\<And>c. find_by_fd r fd = Some c \<Longrightarrow> id_by_nickname r n \<in> {None, Some (cr_id c)}"
  then show "registry_inv (set_nickname r fd n)" by (rule registry_inv_set_nickname)
next
  fix r i fd assume r: "registry_inv r"
  show "fd_by_id r i = Some fd \<longleftrightarrow> (\<exists>c. find_by_fd r fd = Some c \<and> cr_id c = i)"
    using registry_invD(3,6)[OF r] by blast
next
  fix r n i assume r: "registry_inv r"
  show "id_by_nickname r n = Some i \<longleftrightarrow>
      n \<noteq> '''' \<and> (\<exists>fd c. find_by_fd r fd = Some c \<and> cr_id c = i \<and> cr_nickname c = n)"
    using registry_invD(5,7)[OF r] by blast
qed (simp_all add: registry_invD registry_inv_add registry_inv_remove set_all_fds)

lemma nickname_taken_by_other_iff:
  "\<not> nickname_taken_by_other r n cid \<longleftrightarrow> id_by_nickname r n \<in> {None, Some cid}"
  by (auto simp: nickname_taken_by_other_def id_by_nickname_def split: option.split)

lemma nickname_taken_by_other_find:
  assumes "registry_inv r" and "find_by_fd r fd = Some c"
  shows "nickname_taken_by_other r n (cr_id c) \<longleftrightarrow>
    n \<noteq> '''' \<and> (\<exists>f d. f \<noteq> fd \<and> find_by_fd r f = Some d \<and> cr_nickname d = n)"
proof
  assume "nickname_taken_by_other r n (cr_id c)"
  then obtain i where i: "id_by_nickname r n = Some i" "i \<noteq> cr_id c"
    by (auto simp: nickname_taken_by_other_def id_by_nickname_def split: option.splits)
  then obtain f d where "n \<noteq> ''''" "find_by_fd r f = Some d" "cr_id d = i" "cr_nickname d = n"
    using registry_invD(7)[OF assms(1)] by blast
  moreover from this i(2) assms(2) have "f \<noteq> fd" by auto
  ultimately show "n \<noteq> '''' \<and> (\<exists>f d. f \<noteq> fd \<and> find_by_fd r f = Some d \<and> cr_nickname d = n)" by blast
next
  assume "n \<noteq> '''' \<and> (\<exists>f d. f \<noteq> fd \<and> find_by_fd r f = Some d \<and> cr_nickname d = n)"
  then obtain f d where d: "n \<noteq> ''''" "f \<noteq> fd" "find_by_fd r f = Some d" "cr_nickname d = n" by blast
  then have "id_by_nickname r n = Some (cr_id d)" using registry_invD(5)[OF assms(1)] by blast
  moreover have "cr_id d \<noteq> cr_id c" using registry_id_inj[OF assms(1) d(3) assms(2)] d(2) by blast
  ultimately show "nickname_taken_by_other r n (cr_id c)"
    by (simp add: nickname_taken_by_other_def id_by_nickname_def)
qed

section \<open>The user list\<close>

lemma distinct_client_ids:
  assumes "registry_inv r"
  shows "distinct (map (\<lambda>(fd, c). cr_id c) (clients_by_fd r))"
proof -
  have d: "distinct (map fst (clients_by_fd r))" using assms by (simp add: registry_inv_def)
  have "inj_on (\<lambda>(fd, c). cr_id c) (set (clients_by_fd r))"
  proof (rule inj_onI, clarify)
    fix f c f' c'
    assume "(f, c) \<in> set (clients_by_fd r)" "(f', c') \<in> set (clients_by_fd r)" "cr_id c = cr_id c'"
    then have "find_by_fd r f = Some c" "find_by_fd r f' = Some c'" "cr_id c = cr_id c'"
      using d by (simp_all add: find_by_fd_def)
    moreover from this have "f = f'" using assms registry_id_inj by blast
    ultimately show "f = f' \<and> c = c'" by simp
  qed
  then show ?thesis using d by (simp add: distinct_map)
qed

lemma set_collect_users:
  assumes "registry_inv r"
  shows "set (collect_users r) =
    {\<lparr>ui_id = cr_id c, ui_nickname = cr_nickname c\<rparr> | fd c. find_by_fd r fd = Some c}"
proof -
  have "distinct (map fst (clients_by_fd r))" using assms by (simp add: registry_inv_def)
  then show ?thesis by (auto simp: collect_users_def find_by_fd_def)
qed

lemma distinct_map_sort_key: "distinct (map f xs) \<Longrightarrow> distinct (map f (sort_key f xs))"
  by (simp add: distinct_map)

lemma sorted_collect_users:
  assumes "registry_inv r"
  shows "sorted_wrt (<) (map ui_id (collect_users r))"
proof -
  let ?us = "map (\<lambda>(fd, c). \<lparr>ui_id = cr_id c, ui_nickname = cr_nickname c\<rparr>) (clients_by_fd r)"
  have "map ui_id ?us = map (\<lambda>(fd, c). cr_id c) (clients_by_fd r)" by (simp add: case_prod_beta')
  then have "distinct (map ui_id ?us)" using distinct_client_ids[OF assms] by (simp only:)
  then have "distinct (map ui_id (sort_key ui_id ?us))" by (rule distinct_map_sort_key)
  then show ?thesis unfolding collect_users_def strict_sorted_iff by (simp add: sorted_sort_key)
qed

text \<open>\<^verbatim>\<open>collect_users\<close> returns every connected client exactly once, in strictly increasing
  order of id, whatever order the hash map is iterated in.\<close>

theorem collect_users_correct:
  assumes "registry_inv r"
  shows "sorted_wrt (<) (map ui_id (collect_users r)) \<and>
    set (collect_users r) =
      {\<lparr>ui_id = cr_id c, ui_nickname = cr_nickname c\<rparr> | fd c. find_by_fd r fd = Some c}"
  using sorted_collect_users[OF assms] set_collect_users[OF assms] by blast

text \<open>A registry with two named clients, for the witnesses.\<close>

definition sample_registry :: registry where
  "sample_registry =
    set_nickname (snd (registry_add (set_nickname (snd (registry_add empty_registry 7 1)) 7 ''bob'') 9 2)) 9 ''eve''"

lemma sample_registry_eq: "sample_registry =
    \<lparr>clients_by_fd = [(7, \<lparr>cr_fd = 7, cr_id = 1, cr_nickname = ''bob'', cr_registered = True\<rparr>),
                      (9, \<lparr>cr_fd = 9, cr_id = 2, cr_nickname = ''eve'', cr_registered = True\<rparr>)],
     fd_by_id_map = [1 \<mapsto> 7, 2 \<mapsto> 9], id_by_nickname_map = [''bob'' \<mapsto> 1, ''eve'' \<mapsto> 2]\<rparr>"
  by (simp add: sample_registry_def set_nickname_def registry_add_def empty_registry_def find_by_fd_def Let_def)

lemma registry_inv_sample [simp]: "registry_inv sample_registry"
  by (auto simp: registry_inv_def sample_registry_eq find_by_fd_def fd_by_id_def id_by_nickname_def
      split: if_splits) (rule exI[of _ 7], simp)

theorem collect_users_correct_witness:
  "\<lparr>ui_id = 2, ui_nickname = ''eve''\<rparr> \<in> set (collect_users sample_registry)"
  using collect_users_correct[OF registry_inv_sample]
  by (auto simp: sample_registry_eq find_by_fd_def intro!: exI[of _ "9 :: int"])

section \<open>Recipients\<close>

lemma fd_by_id_iff: "registry_inv r \<Longrightarrow> fd_by_id r i = Some fd \<longleftrightarrow> (\<exists>c. find_by_fd r fd = Some c \<and> cr_id c = i)"
  by (rule reg.by_id_iff)

lemma resolve_by_id:
  "recipient_tag chat = kRecipientById \<Longrightarrow> recipient_data chat = encode_u32_be i \<Longrightarrow>
   resolve_recipient r chat = Inr (case fd_by_id r i of None \<Rightarrow> None | Some _ \<Rightarrow> Some i)"
  by (simp add: resolve_recipient_def)

lemma resolve_by_nickname:
  "recipient_tag chat = kRecipientByNickname \<Longrightarrow> recipient_data chat = string_field n \<Longrightarrow> length n \<le> 65535 \<Longrightarrow>
   resolve_recipient r chat = Inr (id_by_nickname r n)"
  by (simp add: resolve_recipient_def)

lemma resolve_broadcast: "recipient_tag chat = kRecipientBroadcast \<Longrightarrow> resolve_recipient r chat = Inr None"
  by (simp add: resolve_recipient_def)

text \<open>The recipient of a well-formed chat by value: the id bytes always name some id.\<close>

lemma wf_chat_recipient:
  assumes "wf_chat c"
  obtains (by_id) i where "recipient_tag c = kRecipientById" "recipient_data c = encode_u32_be i"
  | (by_nickname) n where "recipient_tag c = kRecipientByNickname" "length n \<le> 65535" "recipient_data c = string_field n"
  | (broadcast) "recipient_tag c = kRecipientBroadcast" "recipient_data c = []"
  using assms
proof (cases rule: wf_chat_cases)
  case by_id
  then obtain i where "read_u32_be (recipient_data c) = Inr i"
    using read_u32_be_total[of "recipient_data c"] by auto
  then have "recipient_data c = encode_u32_be i" using by_id write_read_u32[of "recipient_data c" i] by simp
  with by_id(1) show ?thesis by (rule that(1))
qed (use that in auto)

lemma string_field_inj [simp]: "length s \<le> 65535 \<Longrightarrow> length t \<le> 65535 \<Longrightarrow> string_field s = string_field t \<longleftrightarrow> s = t"
  using decode_string_field_end by (metis sum.inject(2))

lemma encode_u32_be_inj [simp]: "encode_u32_be i = encode_u32_be j \<longleftrightarrow> i = j"
  using read_encode_u32_end by (metis sum.inject(2))

lemma resolve_total: "wf_chat c \<Longrightarrow> \<exists>x. resolve_recipient r c = Inr x"
  by (erule wf_chat_recipient) (auto simp: resolve_by_id resolve_by_nickname resolve_broadcast)

lemma label_total: "wf_chat c \<Longrightarrow> \<exists>x. recipient_label r c = Inr x"
  by (erule wf_chat_recipient) (auto simp: recipient_label_def)

text \<open>A well-formed recipient resolves to an id exactly when a connected client has that id, or
  has that (nonempty) nickname; resolving never throws.\<close>

theorem resolve_recipient_correct:
  assumes "registry_inv r" and "wf_chat chat"
  shows "\<exists>x. resolve_recipient r chat = Inr x \<and>
    (\<forall>i. x = Some i \<longleftrightarrow>
      (\<exists>fd c. find_by_fd r fd = Some c \<and> cr_id c = i \<and>
        (recipient_tag chat = kRecipientById \<and> recipient_data chat = encode_u32_be i \<or>
         recipient_tag chat = kRecipientByNickname \<and> cr_nickname c \<noteq> '''' \<and>
           length (cr_nickname c) \<le> 65535 \<and> recipient_data chat = string_field (cr_nickname c))))"
  using assms(2)
proof (cases rule: wf_chat_recipient)
  case (by_id j)
  have "fd_by_id r j = None \<longleftrightarrow> (\<forall>fd c. find_by_fd r fd = Some c \<longrightarrow> cr_id c \<noteq> j)"
    by (rule reg.by_id_None_iff[OF assms(1)])
  then show ?thesis using by_id by (auto simp: resolve_by_id split: option.split)
next
  case (by_nickname n)
  have "id_by_nickname r n = Some i \<longleftrightarrow>
      n \<noteq> '''' \<and> (\<exists>fd c. find_by_fd r fd = Some c \<and> cr_id c = i \<and> cr_nickname c = n)" for i
    by (rule reg.by_nickname_iff[OF assms(1)])
  then show ?thesis using by_nickname by (auto simp: resolve_by_nickname) blast
next
  case broadcast
  then show ?thesis by (simp add: resolve_broadcast)
qed

theorem resolve_recipient_correct_witness:
  "\<exists>x. resolve_recipient sample_registry
      \<lparr>chat_from_id = 1, recipient_tag = kRecipientByNickname, recipient_data = string_field ''eve'', chat_text = ''hi''\<rparr>
    = Inr x \<and> x = Some 2"
  using resolve_recipient_correct[OF registry_inv_sample, of
      "\<lparr>chat_from_id = 1, recipient_tag = kRecipientByNickname, recipient_data = string_field ''eve'', chat_text = ''hi''\<rparr>"]
  by (auto simp: wf_chat_def sample_registry_eq find_by_fd_def intro!: exI[of _ "9 :: int"])

section \<open>Properties of the registry\<close>

text \<open>Starting from the empty registry, \<^verbatim>\<open>add\<close> with a fresh descriptor and id, \<^verbatim>\<open>remove\<close>, and
  \<^verbatim>\<open>set_nickname\<close> with a nonempty nickname that no other client has, keep the three tables of the
  registry consistent with each other.\<close>

theorem registry_operations_keep_inv:
  "registry_inv empty_registry \<and>
   (registry_inv r \<longrightarrow>
     (find_by_fd r fd = None \<and> fd_by_id r cid = None \<longrightarrow> registry_inv (snd (registry_add r fd cid))) \<and>
     registry_inv (snd (registry_remove r fd)) \<and>
     (n \<noteq> '''' \<and> (\<forall>c. find_by_fd r fd = Some c \<longrightarrow> \<not> nickname_taken_by_other r n (cr_id c)) \<longrightarrow>
        registry_inv (set_nickname r fd n)))"
  using registry_inv_set_nickname[of r n fd]
  by (simp add: registry_inv_add registry_inv_remove nickname_taken_by_other_iff)

theorem registry_operations_keep_inv_witness:
  "registry_inv (snd (registry_add sample_registry 4 3)) \<and> registry_inv (snd (registry_remove sample_registry 7)) \<and>
   registry_inv (set_nickname sample_registry 7 ''ann'')"
  using registry_operations_keep_inv[of sample_registry 4 3 "''ann''"]
    registry_operations_keep_inv[of sample_registry 7 3 "''ann''"]
  by (simp add: sample_registry_eq find_by_fd_def fd_by_id_def nickname_taken_by_other_def
      registry_inv_sample[unfolded sample_registry_eq])

text \<open>After a client takes a free nickname the nickname leads to that client's id, the nickname
  it had before is free again, and every other client keeps its nickname.\<close>

theorem set_nickname_lookup:
  assumes "registry_inv r" and "find_by_fd r fd = Some c" and "n \<noteq> ''''"
    and "\<not> nickname_taken_by_other r n (cr_id c)"
  shows "id_by_nickname (set_nickname r fd n) n = Some (cr_id c) \<and>
    (cr_nickname c \<noteq> n \<longrightarrow> id_by_nickname (set_nickname r fd n) (cr_nickname c) = None) \<and>
    (\<forall>m. m \<noteq> n \<and> m \<noteq> cr_nickname c \<longrightarrow> id_by_nickname (set_nickname r fd n) m = id_by_nickname r m)"
proof -
  have "id_by_nickname r '''' = None"
    using registry_invD(7)[OF assms(1)] by (cases "id_by_nickname r ''''") blast+
  then show ?thesis using assms(2) by (auto simp: id_by_nickname_set_nickname)
qed

theorem set_nickname_lookup_witness:
  "id_by_nickname (set_nickname sample_registry 7 ''ann'') ''ann'' = Some 1 \<and>
   id_by_nickname (set_nickname sample_registry 7 ''ann'') ''bob'' = None"
  using set_nickname_lookup[OF registry_inv_sample, of 7 _ "''ann''"]
  by (auto simp: sample_registry_eq find_by_fd_def nickname_taken_by_other_def)

text \<open>Two connected clients never have the same id, nor the same nonempty nickname.\<close>

theorem registry_identities_unique:
  assumes "registry_inv r" and "find_by_fd r fd = Some c" and "find_by_fd r fd' = Some c'" and "fd \<noteq> fd'"
  shows "cr_id c \<noteq> cr_id c' \<and> (cr_nickname c = cr_nickname c' \<longrightarrow> cr_nickname c = '''')"
  using assms reg.ids_unique reg.nicknames_unique by blast

theorem registry_identities_unique_witness:
  "find_by_fd sample_registry 7 \<noteq> None \<and> find_by_fd sample_registry 9 \<noteq> None \<and>
   cr_id (the (find_by_fd sample_registry 7)) \<noteq> cr_id (the (find_by_fd sample_registry 9))"
  using registry_identities_unique[OF registry_inv_sample, of 7 _ 9 _]
  by (simp add: sample_registry_eq find_by_fd_def)

end
