(* ===== verification/Handlers.thy ===== *)
theory Handlers
  imports Registry
begin

text \<open>
  The message handlers of the server (\<^verbatim>\<open>server/viewmodel/handlers\<close>), the \<^verbatim>\<open>PresenceBroadcaster\<close>, the
  \<^verbatim>\<open>ServerContext\<close> they act on, and the \<^verbatim>\<open>MessageDispatcher\<close> that selects one of them.

  A handler changes the registry and produces effects: frames sent to sockets and calls of the
  view. The effects are recorded in order in the trace of the context. No handler looks at the
  result of \<^verbatim>\<open>IMessageTransport::send\<close>, so a send is one event of the trace whether or not the
  peer still reads. A handler returns \<open>Inl\<close> with the exception it throws; what it did before the
  throw stays in the context.
\<close>

section \<open>Context and effects\<close>

datatype effect =
    Send int MsgType bytes
  | ShowListening string u16
  | ShowClientConnected u32
  | ShowClientRegistered u32 string
  | ShowClientDisconnected u32 string
  | ShowChat u32 string string
  | ShowDecodeError string
  | ShowAcceptFailed string
  | ShowAdminMessage string
  | Shutdown int
  | Close int

text \<open>
  \<^verbatim>\<open>banned_ids\<close> is the set the context's pointer leads to; a null pointer answers like the empty
  set, and the constructor of \<^verbatim>\<open>ServerViewModel\<close> always sets it to the view model's own set.
\<close>

record server_context =
  ctx_registry :: registry
  banned_ids :: "u32 set"
  trace :: "effect list"

definition ctx_is_banned :: "server_context \<Rightarrow> u32 \<Rightarrow> bool" where
  "ctx_is_banned ctx cid \<longleftrightarrow> cid \<in> banned_ids ctx"

definition emit :: "effect \<Rightarrow> server_context \<Rightarrow> server_context" where
  "emit e ctx = ctx\<lparr>trace := trace ctx @ [e]\<rparr>"

text \<open>\<^verbatim>\<open>transport.send(fd, type, encode(..))\<close>: the payload is encoded first and may throw.\<close>

definition send_encoded :: "int \<Rightarrow> MsgType \<Rightarrow> bytes res \<Rightarrow> server_context \<Rightarrow> unit res \<times> server_context" where
  "send_encoded fd t enc ctx =
    (case enc of Inl e \<Rightarrow> (Inl e, ctx) | Inr p \<Rightarrow> (Inr (), emit (Send fd t p) ctx))"

section \<open>PresenceBroadcaster\<close>

definition presence_broadcast :: "MsgType \<Rightarrow> bytes \<Rightarrow> int \<Rightarrow> server_context \<Rightarrow> server_context" where
  "presence_broadcast t p except_fd ctx =
    foldl (\<lambda>ctx client_fd. if client_fd \<noteq> except_fd then emit (Send client_fd t p) ctx else ctx)
      ctx (all_fds (ctx_registry ctx))"

definition user_joined :: "u32 \<Rightarrow> string \<Rightarrow> int \<Rightarrow> server_context \<Rightarrow> unit res \<times> server_context" where
  "user_joined cid nickname except_fd ctx =
    (case encode_user_joined cid nickname of
       Inl e \<Rightarrow> (Inl e, ctx)
     | Inr p \<Rightarrow> (Inr (), presence_broadcast UserJoined p except_fd ctx))"

definition user_left :: "u32 \<Rightarrow> string \<Rightarrow> server_context \<Rightarrow> unit res \<times> server_context" where
  "user_left cid nickname ctx =
    (case encode_user_left cid nickname of
       Inl e \<Rightarrow> (Inl e, ctx)
     | Inr p \<Rightarrow> (Inr (), presence_broadcast UserLeft p (-1) ctx))"

section \<open>Handlers\<close>

definition register_handle :: "int \<Rightarrow> app_message \<Rightarrow> server_context \<Rightarrow> unit res \<times> server_context" where
  "register_handle fd message ctx =
    (case payload message of
       RegisterPayload nickname \<Rightarrow>
         (case find_by_fd (ctx_registry ctx) fd of
            None \<Rightarrow> (Inr (), ctx)
          | Some rec \<Rightarrow>
              if nickname = '''' then
                send_encoded fd Error (encode_error ''Nickname cannot be empty'') ctx
              else if nickname = kBroadcastRecipient then
                send_encoded fd Error (encode_error (''Nickname '' @ [CHR 0x27] @ ''all'' @ [CHR 0x27] @ '' is reserved'')) ctx
              else if nickname_taken_by_other (ctx_registry ctx) nickname (cr_id rec) then
                send_encoded fd Error (encode_error ''Nickname already taken'') ctx
              else
                let ctx = ctx\<lparr>ctx_registry := set_nickname (ctx_registry ctx) fd nickname\<rparr>;
                    ctx = emit (ShowClientRegistered (cr_id rec) nickname) ctx
                in user_joined (cr_id rec) nickname fd ctx)
     | _ \<Rightarrow> (Inl BadVariantAccess, ctx))"

text \<open>The broadcast loop, which \<^verbatim>\<open>ChatMessageHandler\<close> and \<^verbatim>\<open>OpaqueUnicastHandler\<close> both contain.\<close>

definition deliver_to_others :: "int \<Rightarrow> MsgType \<Rightarrow> bytes \<Rightarrow> server_context \<Rightarrow> server_context" where
  "deliver_to_others fd t p ctx =
    foldl (\<lambda>ctx target_fd.
        if target_fd = fd then ctx
        else case find_by_fd (ctx_registry ctx) target_fd of
            None \<Rightarrow> ctx
          | Some target \<Rightarrow>
              if ctx_is_banned ctx (cr_id target) then ctx else emit (Send target_fd t p) ctx)
      ctx (all_fds (ctx_registry ctx))"

definition chat_handle :: "int \<Rightarrow> app_message \<Rightarrow> server_context \<Rightarrow> unit res \<times> server_context" where
  "chat_handle fd message ctx =
    (case payload message of
       ChatPayload chat \<Rightarrow>
         (case find_by_fd (ctx_registry ctx) fd of
            None \<Rightarrow> (Inr (), ctx)
          | Some sender \<Rightarrow>
              if ctx_is_banned ctx (cr_id sender) then (Inr (), ctx)
              else case recipient_label (ctx_registry ctx) chat of
                  Inl e \<Rightarrow> (Inl e, ctx)
                | Inr to_label \<Rightarrow>
                    let ctx = emit (ShowChat (cr_id sender) to_label ''Chat'') ctx in
                    if recipient_tag chat = kRecipientBroadcast then
                      (case encode_deliver (cr_id sender) (chat_text chat) of
                         Inl e \<Rightarrow> (Inl e, ctx)
                       | Inr p \<Rightarrow> (Inr (), deliver_to_others fd Deliver p ctx))
                    else case resolve_recipient (ctx_registry ctx) chat of
                        Inl e \<Rightarrow> (Inl e, ctx)
                      | Inr None \<Rightarrow>
                          send_encoded fd Error (encode_error (''Unknown recipient: '' @ to_label)) ctx
                      | Inr (Some target_id) \<Rightarrow>
                          if ctx_is_banned ctx target_id then
                            send_encoded fd Error (encode_error (''Recipient banned: '' @ to_label)) ctx
                          else case fd_by_id (ctx_registry ctx) target_id of
                              None \<Rightarrow>
                                send_encoded fd Error (encode_error (''Recipient offline: '' @ to_label)) ctx
                            | Some target_fd \<Rightarrow>
                                send_encoded target_fd Deliver
                                  (encode_deliver (cr_id sender) (chat_text chat)) ctx)
     | _ \<Rightarrow> (Inl BadVariantAccess, ctx))"

definition opaque_handle ::
  "MsgType \<Rightarrow> string \<Rightarrow> int \<Rightarrow> app_message \<Rightarrow> server_context \<Rightarrow> unit res \<times> server_context" where
  "opaque_handle deliver_type log_label fd message ctx =
    (case payload message of
       ChatPayload chat \<Rightarrow>
         (case find_by_fd (ctx_registry ctx) fd of
            None \<Rightarrow> (Inr (), ctx)
          | Some sender \<Rightarrow>
              if ctx_is_banned ctx (cr_id sender) then (Inr (), ctx)
              else case recipient_label (ctx_registry ctx) chat of
                  Inl e \<Rightarrow> (Inl e, ctx)
                | Inr to_label \<Rightarrow>
                    let ctx = emit (ShowChat (cr_id sender) to_label log_label) ctx in
                    if recipient_tag chat = kRecipientBroadcast then
                      (case encode_deliver (cr_id sender) (chat_text chat) of
                         Inl e \<Rightarrow> (Inl e, ctx)
                       | Inr p \<Rightarrow> (Inr (), deliver_to_others fd deliver_type p ctx))
                    else case resolve_recipient (ctx_registry ctx) chat of
                        Inl e \<Rightarrow> (Inl e, ctx)
                      | Inr None \<Rightarrow>
                          send_encoded fd Error (encode_error (''Unknown recipient: '' @ to_label)) ctx
                      | Inr (Some target_id) \<Rightarrow>
                          if ctx_is_banned ctx target_id then
                            send_encoded fd Error (encode_error (''Recipient banned: '' @ to_label)) ctx
                          else case fd_by_id (ctx_registry ctx) target_id of
                              None \<Rightarrow>
                                send_encoded fd Error (encode_error (''Recipient offline: '' @ to_label)) ctx
                            | Some target_fd \<Rightarrow>
                                send_encoded target_fd deliver_type
                                  (encode_deliver (cr_id sender) (chat_text chat)) ctx)
     | _ \<Rightarrow> (Inl BadVariantAccess, ctx))"

definition list_users_handle :: "int \<Rightarrow> app_message \<Rightarrow> server_context \<Rightarrow> unit res \<times> server_context" where
  "list_users_handle fd message ctx =
    send_encoded fd UsersList (encode_users_list (collect_users (ctx_registry ctx))) ctx"

section \<open>MessageDispatcher\<close>

datatype handler =
    RegisterMessageHandler
  | ChatMessageHandler
  | OpaqueUnicastHandler MsgType MsgType string
  | ListUsersMessageHandler

fun can_handle :: "handler \<Rightarrow> MsgType \<Rightarrow> bool" where
  "can_handle RegisterMessageHandler t \<longleftrightarrow> t = Register"
| "can_handle ChatMessageHandler t \<longleftrightarrow> t = Chat"
| "can_handle (OpaqueUnicastHandler request_type _ _) t \<longleftrightarrow> t = request_type"
| "can_handle ListUsersMessageHandler t \<longleftrightarrow> t = ListUsers"

fun handle :: "handler \<Rightarrow> int \<Rightarrow> app_message \<Rightarrow> server_context \<Rightarrow> unit res \<times> server_context" where
  "handle RegisterMessageHandler fd m ctx = register_handle fd m ctx"
| "handle ChatMessageHandler fd m ctx = chat_handle fd m ctx"
| "handle (OpaqueUnicastHandler _ deliver_type log_label) fd m ctx = opaque_handle deliver_type log_label fd m ctx"
| "handle ListUsersMessageHandler fd m ctx = list_users_handle fd m ctx"

fun dispatch :: "handler list \<Rightarrow> int \<Rightarrow> app_message \<Rightarrow> server_context \<Rightarrow> unit res \<times> server_context" where
  "dispatch [] fd m ctx = send_encoded fd Error (encode_error ''Unsupported message type'') ctx"
| "dispatch (h # hs) fd m ctx = (if can_handle h (msg_type m) then handle h fd m ctx else dispatch hs fd m ctx)"

definition add_handler :: "handler list \<Rightarrow> handler \<Rightarrow> handler list" where
  "add_handler handlers h = handlers @ [h]"

definition create_message_dispatcher :: "handler list" where
  "create_message_dispatcher =
    (let d = [];
         d = add_handler d RegisterMessageHandler;
         d = add_handler d ChatMessageHandler;
         d = add_handler d (OpaqueUnicastHandler KeyOffer PeerKey ''KeyOffer'');
         d = add_handler d (OpaqueUnicastHandler RoomKeyOffer RoomKey ''RoomKeyOffer'')
     in add_handler d ListUsersMessageHandler)"

section \<open>What the loops and the handlers do\<close>

lemma emit_simps [simp]:
  "ctx_registry (emit e ctx) = ctx_registry ctx"
  "banned_ids (emit e ctx) = banned_ids ctx"
  "trace (emit e ctx) = trace ctx @ [e]"
  "ctx_is_banned (emit e ctx) cid = ctx_is_banned ctx cid"
  by (simp_all add: emit_def ctx_is_banned_def)

text \<open>A loop whose body sends at most one frame and changes nothing else.\<close>

lemma foldl_emit:
  assumes "\<And>c x. ctx_registry c = r \<Longrightarrow> banned_ids c = b \<Longrightarrow> g c x = (if P x then emit (f x) c else c)"
  shows "ctx_registry ctx = r \<Longrightarrow> banned_ids ctx = b \<Longrightarrow>
    foldl g ctx xs = ctx\<lparr>trace := trace ctx @ map f (filter P xs)\<rparr>"
  by (induction xs arbitrary: ctx) (simp_all add: assms emit_def)

lemma presence_broadcast_eq:
  "presence_broadcast t p ex ctx =
    ctx\<lparr>trace := trace ctx @ map (\<lambda>f. Send f t p) (filter (\<lambda>f. f \<noteq> ex) (all_fds (ctx_registry ctx)))\<rparr>"
  unfolding presence_broadcast_def by (rule foldl_emit) simp_all

text \<open>The clients a broadcast from \<open>fd\<close> is meant for: every other one that is not banned.\<close>

definition audience :: "server_context \<Rightarrow> int \<Rightarrow> int list" where
  "audience ctx fd =
    filter (\<lambda>f. f \<noteq> fd \<and>
        (case find_by_fd (ctx_registry ctx) f of None \<Rightarrow> False | Some c \<Rightarrow> \<not> ctx_is_banned ctx (cr_id c)))
      (all_fds (ctx_registry ctx))"

lemma audience_emit [simp]: "audience (emit e ctx) fd = audience ctx fd"
  by (simp add: audience_def cong: option.case_cong)

lemma distinct_audience: "registry_inv (ctx_registry ctx) \<Longrightarrow> distinct (audience ctx fd)"
  by (simp add: audience_def registry_invD(1))

lemma in_audience:
  "f \<in> set (audience ctx fd) \<longleftrightarrow>
    f \<noteq> fd \<and> (\<exists>c. find_by_fd (ctx_registry ctx) f = Some c \<and> \<not> ctx_is_banned ctx (cr_id c))"
  by (auto simp: audience_def set_all_fds split: option.splits)

lemma deliver_to_others_eq:
  "deliver_to_others fd t p ctx =
    ctx\<lparr>trace := trace ctx @ map (\<lambda>f. Send f t p) (audience ctx fd)\<rparr>"
  unfolding deliver_to_others_def audience_def
  by (rule foldl_emit[where r = "ctx_registry ctx" and b = "banned_ids ctx"])
    (auto simp: ctx_is_banned_def split: option.split)

text \<open>The duplicated handler is one handler: \<^verbatim>\<open>ChatMessageHandler\<close> is the opaque relay from \<^verbatim>\<open>Chat\<close>
  to \<^verbatim>\<open>Deliver\<close>.\<close>

lemma chat_is_opaque: "chat_handle = opaque_handle Deliver ''Chat''"
  by (intro ext) (simp add: chat_handle_def opaque_handle_def)

text \<open>The trace of a relayed message, by cases.\<close>

definition relay_effects :: "MsgType \<Rightarrow> int \<Rightarrow> chat_payload \<Rightarrow> string \<Rightarrow> u32 \<Rightarrow> server_context \<Rightarrow> unit res \<times> effect list" where
  "relay_effects t fd chat label sender ctx =
    (let to = (\<lambda>f t enc. case enc of Inl e \<Rightarrow> (Inl e, []) | Inr p \<Rightarrow> (Inr (), [Send f t p])) in
     if recipient_tag chat = kRecipientBroadcast then
       (case encode_deliver sender (chat_text chat) of
          Inl e \<Rightarrow> (Inl e, [])
        | Inr p \<Rightarrow> (Inr (), map (\<lambda>f. Send f t p) (audience ctx fd)))
     else case resolve_recipient (ctx_registry ctx) chat of
         Inl e \<Rightarrow> (Inl e, [])
       | Inr None \<Rightarrow> to fd Error (encode_error (''Unknown recipient: '' @ label))
       | Inr (Some i) \<Rightarrow>
           if ctx_is_banned ctx i then to fd Error (encode_error (''Recipient banned: '' @ label))
           else (case fd_by_id (ctx_registry ctx) i of
               None \<Rightarrow> to fd Error (encode_error (''Recipient offline: '' @ label))
             | Some target_fd \<Rightarrow> to target_fd t (encode_deliver sender (chat_text chat))))"

lemma opaque_handle_eq:
  assumes "payload m = ChatPayload chat" and "find_by_fd (ctx_registry ctx) fd = Some c"
    and "\<not> ctx_is_banned ctx (cr_id c)" and "recipient_label (ctx_registry ctx) chat = Inr label"
  shows "opaque_handle t k fd m ctx =
    (fst (relay_effects t fd chat label (cr_id c) ctx),
     ctx\<lparr>trace := trace ctx @ ShowChat (cr_id c) label k # snd (relay_effects t fd chat label (cr_id c) ctx)\<rparr>)"
  using assms
  by (auto simp: opaque_handle_def relay_effects_def Let_def send_encoded_def deliver_to_others_eq emit_def
      ctx_is_banned_def audience_def cong: option.case_cong
      split: sum.split option.split)

section \<open>The contract of IMessageHandler\<close>

abbreviation relayed :: "MsgType set" where
  "relayed \<equiv> {Deliver, PeerKey, RoomKey}"

text \<open>
  Effects that respect the rules of the relay for a request from \<open>fd\<close>: a frame of a relayed type
  carries the id under which \<open>fd\<close> is registered, neither end is banned, and it goes to a client
  that is connected.
\<close>

definition honest :: "server_context \<Rightarrow> int \<Rightarrow> effect list \<Rightarrow> bool" where
  "honest ctx fd es \<longleftrightarrow>
    (\<forall>f t p. Send f t p \<in> set es \<longrightarrow> t \<in> relayed \<longrightarrow>
      (\<exists>c d s. find_by_fd (ctx_registry ctx) fd = Some c \<and> \<not> ctx_is_banned ctx (cr_id c) \<and>
        encode_deliver (cr_id c) s = Inr p \<and>
        find_by_fd (ctx_registry ctx) f = Some d \<and> \<not> ctx_is_banned ctx (cr_id d)))"

lemma honest_Nil [simp]: "honest ctx fd []"
  by (simp add: honest_def)

lemma honest_append [simp]: "honest ctx fd (xs @ ys) \<longleftrightarrow> honest ctx fd xs \<and> honest ctx fd ys"
  by (auto simp: honest_def)

lemma honest_other: "(\<And>f t p. e = Send f t p \<Longrightarrow> t \<notin> relayed) \<Longrightarrow> honest ctx fd [e]"
  by (auto simp: honest_def)

text \<open>A session: the requests of any clients, one after the other, exceptions not stopping it.\<close>

definition session :: "(int \<Rightarrow> app_message \<Rightarrow> server_context \<Rightarrow> unit res \<times> server_context) \<Rightarrow>
    (int \<times> app_message) list \<Rightarrow> server_context \<Rightarrow> server_context" where
  "session run reqs ctx = foldl (\<lambda>ctx (fd, m). snd (run fd m ctx)) ctx reqs"

locale message_handler =
  fixes run :: "int \<Rightarrow> app_message \<Rightarrow> server_context \<Rightarrow> unit res \<times> server_context"
  assumes keeps_inv: "registry_inv (ctx_registry ctx) \<Longrightarrow> registry_inv (ctx_registry (snd (run fd m ctx)))"
    and keeps_banned: "banned_ids (snd (run fd m ctx)) = banned_ids ctx"
    and keeps_clients: "map_option cr_id (find_by_fd (ctx_registry (snd (run fd m ctx))) f) =
      map_option cr_id (find_by_fd (ctx_registry ctx) f)"
    and keeps_order: "all_fds (ctx_registry (snd (run fd m ctx))) = all_fds (ctx_registry ctx)"
    and effects: "registry_inv (ctx_registry ctx) \<Longrightarrow>
      \<exists>es. trace (snd (run fd m ctx)) = trace ctx @ es \<and> honest ctx fd es"
    and no_ub: "fst (run fd m ctx) \<noteq> Inl UndefinedBehaviour"
begin


lemma session_keeps:
  "registry_inv (ctx_registry ctx) \<Longrightarrow>
   registry_inv (ctx_registry (session run reqs ctx)) \<and> banned_ids (session run reqs ctx) = banned_ids ctx \<and>
   map_option cr_id (find_by_fd (ctx_registry (session run reqs ctx)) f) =
     map_option cr_id (find_by_fd (ctx_registry ctx) f) \<and>
   all_fds (ctx_registry (session run reqs ctx)) = all_fds (ctx_registry ctx)"
  unfolding session_def
  by (induction reqs arbitrary: ctx)
    (auto simp: keeps_inv keeps_banned keeps_clients keeps_order split: prod.split)

lemma connected_iff:
  "(find_by_fd (ctx_registry (snd (run fd m ctx))) f = None) = (find_by_fd (ctx_registry ctx) f = None)"
  using keeps_clients[of fd m ctx f] by (metis option.map_disc_iff)

end

lemma connected_id:
  assumes "registry_inv r" and "fd_by_id r i = Some f"
  obtains d where "find_by_fd r f = Some d" "cr_id d = i"
  using assms registry_invD(6) by blast

lemma honest_single:
  assumes "find_by_fd (ctx_registry ctx) fd = Some c" "\<not> ctx_is_banned ctx (cr_id c)"
    "encode_deliver (cr_id c) s = Inr p" "registry_inv (ctx_registry ctx)"
    "fd_by_id (ctx_registry ctx) i = Some f" "\<not> ctx_is_banned ctx i"
  shows "honest ctx fd [Send f t p]"
proof -
  obtain d where "find_by_fd (ctx_registry ctx) f = Some d" "cr_id d = i"
    using assms connected_id by blast
  then show ?thesis using assms unfolding honest_def by auto
qed

lemma honest_relay:
  assumes "registry_inv (ctx_registry ctx)" and "find_by_fd (ctx_registry ctx) fd = Some c"
    and "\<not> ctx_is_banned ctx (cr_id c)"
  shows "honest ctx fd (snd (relay_effects t fd chat label (cr_id c) ctx))"
proof (cases "recipient_tag chat = kRecipientBroadcast")
  case True
  then show ?thesis
    using assms by (auto simp: relay_effects_def Let_def honest_def in_audience split: sum.split)
next
  case False
  then show ?thesis
    using assms by (auto simp: relay_effects_def Let_def split: sum.split option.split
        intro: honest_other honest_single)
qed

lemma opaque_handle_ctx:
  "\<exists>es. snd (opaque_handle t k fd m ctx) = ctx\<lparr>trace := trace ctx @ es\<rparr> \<and>
     (registry_inv (ctx_registry ctx) \<longrightarrow> honest ctx fd es)"
proof (cases "\<exists>chat c label. payload m = ChatPayload chat \<and> find_by_fd (ctx_registry ctx) fd = Some c \<and>
    \<not> ctx_is_banned ctx (cr_id c) \<and> recipient_label (ctx_registry ctx) chat = Inr label")
  case True
  then obtain chat c label where *: "payload m = ChatPayload chat" "find_by_fd (ctx_registry ctx) fd = Some c"
    "\<not> ctx_is_banned ctx (cr_id c)" "recipient_label (ctx_registry ctx) chat = Inr label" by blast
  let ?es = "[ShowChat (cr_id c) label k] @ snd (relay_effects t fd chat label (cr_id c) ctx)"
  have "snd (opaque_handle t k fd m ctx) = ctx\<lparr>trace := trace ctx @ ?es\<rparr>"
    by (simp add: opaque_handle_eq[OF *])
  moreover have "registry_inv (ctx_registry ctx) \<Longrightarrow> honest ctx fd ?es"
    unfolding honest_append using *(2,3) by (blast intro: honest_relay honest_other)
  ultimately show ?thesis by blast
next
  case False
  then have "snd (opaque_handle t k fd m ctx) = ctx"
    by (auto simp: opaque_handle_def split: AppPayload.split option.split sum.split)
  then show ?thesis by (intro exI[of _ "[]"]) simp
qed

lemma encode_string_errors: "encode_string s = Inl e \<Longrightarrow> e = RuntimeError ''String too long''"
  by (simp add: encode_string_eq split: if_splits)

lemma encode_user_infos_errors: "encode_user_infos out us = Inl e \<Longrightarrow> \<exists>s. e = RuntimeError s"
  by (induction out us rule: encode_user_infos.induct)
    (auto simp: bindr_eq_Inl encode_user_info_def dest: encode_string_errors)

lemma send_encoded_ub: "enc \<noteq> Inl UndefinedBehaviour \<Longrightarrow> fst (send_encoded fd t enc ctx) \<noteq> Inl UndefinedBehaviour"
  by (auto simp: send_encoded_def split: sum.split)

lemma send_encoded_frame [simp]:
  "ctx_registry (snd (send_encoded fd t enc ctx)) = ctx_registry ctx"
  "banned_ids (snd (send_encoded fd t enc ctx)) = banned_ids ctx"
  by (simp_all add: send_encoded_def split: sum.split)

lemma send_encoded_trace:
  "t \<notin> relayed \<Longrightarrow> \<exists>es. trace (snd (send_encoded f t enc ctx)) = trace ctx @ es \<and> honest ctx fd es"
  by (auto simp: send_encoded_def split: sum.split intro: honest_other)

lemma encoders_no_ub [simp]:
  "encode_error s \<noteq> Inl UndefinedBehaviour" "encode_deliver i s \<noteq> Inl UndefinedBehaviour"
  "encode_user_joined i s \<noteq> Inl UndefinedBehaviour" "encode_user_left i s \<noteq> Inl UndefinedBehaviour"
  "encode_users_list us \<noteq> Inl UndefinedBehaviour"
  by (auto simp: encode_error_def encode_deliver_def encode_user_joined_def encode_user_left_def
      encode_user_info_def encode_users_list_def bindr_eq_Inl dest: encode_string_errors encode_user_infos_errors)

lemma recipient_no_ub [simp]:
  "recipient_label r chat \<noteq> Inl UndefinedBehaviour" "resolve_recipient r chat \<noteq> Inl UndefinedBehaviour"
  by (auto simp: recipient_label_def resolve_recipient_def bindr_eq_Inl dest: decode_string_errors)

lemma opaque_handle_ub: "fst (opaque_handle t k fd m ctx) \<noteq> Inl UndefinedBehaviour"
proof -
  have "recipient_label r chat = Inl e \<Longrightarrow> e \<noteq> UndefinedBehaviour"
    "resolve_recipient r chat = Inl e \<Longrightarrow> e \<noteq> UndefinedBehaviour"
    "encode_deliver i s = Inl e \<Longrightarrow> e \<noteq> UndefinedBehaviour" for r chat e i s
    using recipient_no_ub encoders_no_ub by metis+
  then show ?thesis
    by (auto simp: opaque_handle_def Let_def send_encoded_ub
        split: AppPayload.split option.split sum.split)
qed

lemma opaque_handle_frame [simp]:
  "ctx_registry (snd (opaque_handle t k fd m ctx)) = ctx_registry ctx"
  "banned_ids (snd (opaque_handle t k fd m ctx)) = banned_ids ctx"
  using opaque_handle_ctx[of t k fd m ctx] by auto

interpretation opaque: message_handler "opaque_handle t k"
proof unfold_locales
  fix fd m and ctx :: server_context
  assume "registry_inv (ctx_registry ctx)"
  then show "\<exists>es. trace (snd (opaque_handle t k fd m ctx)) = trace ctx @ es \<and> honest ctx fd es"
    using opaque_handle_ctx[of t k fd m ctx] by auto
qed (simp_all add: opaque_handle_ub)

interpretation chat: message_handler chat_handle
  unfolding chat_is_opaque by (rule opaque.message_handler_axioms)

interpretation list_users: message_handler list_users_handle
  by unfold_locales (simp_all add: list_users_handle_def send_encoded_ub send_encoded_trace)

lemma presence_broadcast_frame [simp]:
  "ctx_registry (presence_broadcast t p ex ctx) = ctx_registry ctx"
  "banned_ids (presence_broadcast t p ex ctx) = banned_ids ctx"
  by (simp_all add: presence_broadcast_eq)

lemma user_joined_frame [simp]:
  "ctx_registry (snd (user_joined i n ex ctx)) = ctx_registry ctx"
  "banned_ids (snd (user_joined i n ex ctx)) = banned_ids ctx"
  by (simp_all add: user_joined_def split: sum.split)

lemma user_joined_trace:
  "\<exists>es. trace (snd (user_joined i n ex ctx)) = trace ctx @ es \<and> honest ctx' fd es"
  by (auto simp: user_joined_def presence_broadcast_eq honest_def split: sum.split)

lemma user_joined_ub: "fst (user_joined i n ex ctx) \<noteq> Inl UndefinedBehaviour"
  using encoders_no_ub(3)[of i n] by (auto simp: user_joined_def split: sum.split)

text \<open>The four outcomes of a registration by a connected client.\<close>

lemma register_handle_cases:
  assumes "payload m = RegisterPayload n" and "find_by_fd (ctx_registry ctx) fd = Some c"
  obtains (refused) s where "s \<in> {''Nickname cannot be empty'', ''Nickname already taken'',
        ''Nickname '' @ [CHR 0x27] @ ''all'' @ [CHR 0x27] @ '' is reserved''}"
      "n \<in> {'''', ''all''} \<or> nickname_taken_by_other (ctx_registry ctx) n (cr_id c)"
      "register_handle fd m ctx = (Inr (), emit (Send fd Error (string_field s)) ctx)"
  | (accepted) "n \<notin> {'''', ''all''}" "\<not> nickname_taken_by_other (ctx_registry ctx) n (cr_id c)"
      "register_handle fd m ctx =
        user_joined (cr_id c) n fd (emit (ShowClientRegistered (cr_id c) n)
          (ctx\<lparr>ctx_registry := set_nickname (ctx_registry ctx) fd n\<rparr>))"
proof -
  have err: "length s \<le> 65535 \<Longrightarrow> send_encoded fd Error (encode_error s) ctx =
      (Inr (), emit (Send fd Error (string_field s)) ctx)" for s
    by (simp add: send_encoded_def encode_error_def encode_string_eq)
  consider "n = ''''" | "n = ''all''"
    | "n \<notin> {'''', ''all''}" "nickname_taken_by_other (ctx_registry ctx) n (cr_id c)"
    | "n \<notin> {'''', ''all''}" "\<not> nickname_taken_by_other (ctx_registry ctx) n (cr_id c)"
    by blast
  then show ?thesis
  proof cases
    case 1
    then show ?thesis
      using assms by (intro refused[of "''Nickname cannot be empty''"]) (simp_all add: register_handle_def err)
  next
    case 2
    then show ?thesis
      using assms by (intro refused[of "''Nickname '' @ [CHR 0x27] @ ''all'' @ [CHR 0x27] @ '' is reserved''"])
        (simp_all add: register_handle_def err)
  next
    case 3
    then show ?thesis
      using assms by (intro refused[of "''Nickname already taken''"]) (simp_all add: register_handle_def err)
  next
    case 4
    then show ?thesis using assms by (intro accepted) (simp_all add: register_handle_def Let_def)
  qed
qed

lemma register_handle_none:
  "\<nexists>n c. payload m = RegisterPayload n \<and> find_by_fd (ctx_registry ctx) fd = Some c \<Longrightarrow>
   snd (register_handle fd m ctx) = ctx \<and> fst (register_handle fd m ctx) \<in> {Inr (), Inl BadVariantAccess}"
  by (auto simp: register_handle_def split: AppPayload.split option.split)

lemma register_handle_ctx:
  fixes ctx :: server_context and fd :: int and m :: app_message
  defines "ctx' \<equiv> snd (register_handle fd m ctx)"
  shows "(registry_inv (ctx_registry ctx) \<longrightarrow> registry_inv (ctx_registry ctx')) \<and>
    banned_ids ctx' = banned_ids ctx \<and>
    map_option cr_id (find_by_fd (ctx_registry ctx') f) = map_option cr_id (find_by_fd (ctx_registry ctx) f) \<and>
    all_fds (ctx_registry ctx') = all_fds (ctx_registry ctx) \<and>
    (\<exists>es. trace ctx' = trace ctx @ es \<and> honest ctx fd es) \<and>
    fst (register_handle fd m ctx) \<noteq> Inl UndefinedBehaviour"
proof (cases "\<exists>n c. payload m = RegisterPayload n \<and> find_by_fd (ctx_registry ctx) fd = Some c")
  case True
  then obtain n c where nc: "payload m = RegisterPayload n" "find_by_fd (ctx_registry ctx) fd = Some c" by blast
  then show ?thesis
  proof (cases rule: register_handle_cases)
    case (refused s)
    then show ?thesis by (auto simp: ctx'_def intro: honest_other)
  next
    case accepted
    let ?ctx = "emit (ShowClientRegistered (cr_id c) n) (ctx\<lparr>ctx_registry := set_nickname (ctx_registry ctx) fd n\<rparr>)"
    obtain es where es: "trace (snd (user_joined (cr_id c) n fd ?ctx)) = trace ?ctx @ es" "honest ctx fd es"
      using user_joined_trace by blast
    have "honest ctx fd (ShowClientRegistered (cr_id c) n # es)"
      using es(2) by (simp add: honest_def)
    moreover have "registry_inv (ctx_registry ctx) \<Longrightarrow> registry_inv (set_nickname (ctx_registry ctx) fd n)"
      using accepted(1,2) nc(2) registry_inv_set_nickname[of "ctx_registry ctx" n fd]
      by (simp add: nickname_taken_by_other_iff)
    ultimately show ?thesis
      using accepted(3) es(1) nc(2) user_joined_ub by (auto simp: ctx'_def)
  qed
next
  case False
  then show ?thesis
    using register_handle_none[of m ctx fd] by (auto simp: ctx'_def intro: exI[of _ "[]"])
qed

interpretation register: message_handler register_handle
  by unfold_locales (use register_handle_ctx in blast)+

lemma handle_contract: "message_handler (handle h)"
proof (cases h)
  case RegisterMessageHandler
  have "handle h = register_handle" by (intro ext) (simp add: RegisterMessageHandler)
  then show ?thesis by (simp add: register.message_handler_axioms)
next
  case ChatMessageHandler
  have "handle h = chat_handle" by (intro ext) (simp add: ChatMessageHandler)
  then show ?thesis by (simp add: chat.message_handler_axioms)
next
  case (OpaqueUnicastHandler r t k)
  have "handle h = opaque_handle t k" by (intro ext) (simp add: OpaqueUnicastHandler)
  then show ?thesis by (simp add: opaque.message_handler_axioms)
next
  case ListUsersMessageHandler
  have "handle h = list_users_handle" by (intro ext) (simp add: ListUsersMessageHandler)
  then show ?thesis by (simp add: list_users.message_handler_axioms)
qed

text \<open>A dispatch is one of the handlers, or the reply for an unsupported type.\<close>

lemma dispatch_cases:
  obtains (handled) h where "h \<in> set hs" "can_handle h (msg_type m)" "dispatch hs fd m = handle h fd m"
  | (unsupported) "\<forall>h \<in> set hs. \<not> can_handle h (msg_type m)"
      "dispatch hs fd m = send_encoded fd Error (encode_error ''Unsupported message type'')"
proof (induction hs arbitrary: thesis)
  case Nil
  show ?case by (rule Nil(2)) (simp_all add: fun_eq_iff)
next
  case (Cons h hs)
  show ?case
  proof (cases "can_handle h (msg_type m)")
    case True
    then show ?thesis by (intro Cons.prems(1)[of h]) (simp_all add: fun_eq_iff)
  next
    case False
    then have "dispatch (h # hs) fd m = dispatch hs fd m" by (simp add: fun_eq_iff)
    with False Cons show ?thesis by (metis list.set_intros(2) set_ConsD)
  qed
qed

interpretation dispatcher: message_handler "dispatch hs"
proof -
  have unsupported: "message_handler (\<lambda>fd m. send_encoded fd Error (encode_error s))" for s
    by unfold_locales (simp_all add: send_encoded_ub send_encoded_trace)
  have "\<exists>run. message_handler run \<and> dispatch hs fd m = run fd m" for fd m
  proof (cases rule: dispatch_cases[of hs m fd])
    case (handled h) then show ?thesis using handle_contract by blast
  next
    case unsupported' : unsupported then show ?thesis using unsupported by blast
  qed
  then show "message_handler (dispatch hs)"
    unfolding message_handler_def by (metis (no_types, opaque_lifting))
qed

section \<open>Properties\<close>

text \<open>A context with three clients, the third of them banned, for the witnesses.\<close>

definition sample_context :: server_context where
  "sample_context = \<lparr>ctx_registry = snd (registry_add sample_registry 11 3), banned_ids = {3}, trace = []\<rparr>"

lemma sample_context_find [simp]:
  "find_by_fd (ctx_registry sample_context) 7 = Some \<lparr>cr_fd = 7, cr_id = 1, cr_nickname = ''bob'', cr_registered = True\<rparr>"
  "find_by_fd (ctx_registry sample_context) 9 = Some \<lparr>cr_fd = 9, cr_id = 2, cr_nickname = ''eve'', cr_registered = True\<rparr>"
  "find_by_fd (ctx_registry sample_context) 11 = Some \<lparr>cr_fd = 11, cr_id = 3, cr_nickname = '''', cr_registered = False\<rparr>"
  "banned_ids sample_context = {3}" "trace sample_context = []"
  by (simp_all add: sample_context_def, simp_all add: sample_registry_eq find_by_fd_def)

lemma sample_context_inv [simp]: "registry_inv (ctx_registry sample_context)"
  unfolding sample_context_def server_context.simps
  by (rule registry_inv_add) (simp_all add: sample_registry_eq find_by_fd_def fd_by_id_def registry_inv_sample[unfolded sample_registry_eq])

text \<open>No sequence of requests, whatever the messages contain and whichever clients send them, makes
  the dispatcher lose the consistency of the registry, change the ban list, connect or disconnect a
  client or change an id.\<close>

theorem dispatch_session_safe:
  assumes "registry_inv (ctx_registry ctx)"
  shows "let ctx' = session (dispatch create_message_dispatcher) reqs ctx in
    registry_inv (ctx_registry ctx') \<and> banned_ids ctx' = banned_ids ctx \<and>
    (\<forall>f. map_option cr_id (find_by_fd (ctx_registry ctx') f) = map_option cr_id (find_by_fd (ctx_registry ctx) f))"
  using dispatcher.session_keeps[OF assms] unfolding Let_def by blast

theorem dispatch_session_safe_witness:
  "registry_inv (ctx_registry (session (dispatch create_message_dispatcher)
     [(7, \<lparr>msg_type = Register, payload = RegisterPayload ''ann''\<rparr>)] sample_context))"
  using dispatch_session_safe[of sample_context "[(7, \<lparr>msg_type = Register, payload = RegisterPayload ''ann''\<rparr>)]"]
  by (simp add: Let_def)

text \<open>C3: The server relays under the sender's true id and only between clients that are not banned:
  every \<^verbatim>\<open>Deliver\<close>, \<^verbatim>\<open>PeerKey\<close> or \<^verbatim>\<open>RoomKey\<close> frame caused by a request from \<open>fd\<close> carries the id the
  server assigned to \<open>fd\<close> and goes to a connected client.\<close>

theorem relay_under_true_id:
  assumes "registry_inv (ctx_registry ctx)"
  shows "\<exists>es. trace (snd (dispatch create_message_dispatcher fd m ctx)) = trace ctx @ es \<and>
    (\<forall>f t p. Send f t p \<in> set es \<longrightarrow> t \<in> {Deliver, PeerKey, RoomKey} \<longrightarrow>
      (\<exists>c d s. find_by_fd (ctx_registry ctx) fd = Some c \<and> cr_id c \<notin> banned_ids ctx \<and>
        encode_deliver (cr_id c) s = Inr p \<and>
        find_by_fd (ctx_registry ctx) f = Some d \<and> cr_id d \<notin> banned_ids ctx))"
  using dispatcher.effects[OF assms, of create_message_dispatcher fd m]
  unfolding honest_def ctx_is_banned_def .

text \<open>A chat from the first client to the second one, with a forged sender id in the request.\<close>

definition sample_chat :: app_message where
  "sample_chat = \<lparr>msg_type = Chat, payload = ChatPayload
     \<lparr>chat_from_id = 99, recipient_tag = kRecipientById, recipient_data = encode_u32_be 2, chat_text = ''hi''\<rparr>\<rparr>"

theorem relay_under_true_id_witness:
  "\<exists>es. trace (snd (dispatch create_message_dispatcher 7 sample_chat sample_context)) = es \<and>
    (\<forall>f t p. Send f t p \<in> set es \<longrightarrow> t = Deliver \<longrightarrow> (\<exists>s. encode_deliver 1 s = Inr p))"
  using relay_under_true_id[of sample_context 7 sample_chat] by fastforce

text \<open>C15: A chat to everyone from a client that is not banned is delivered exactly once to every other
  client that is not banned, and to nobody else.\<close>

theorem broadcast_reaches_others_once:
  assumes "registry_inv (ctx_registry ctx)" and "find_by_fd (ctx_registry ctx) fd = Some c"
    and "cr_id c \<notin> banned_ids ctx" and "recipient_tag chat = kRecipientBroadcast"
    and "encode_deliver (cr_id c) (chat_text chat) = Inr p"
  shows "\<exists>fds. dispatch create_message_dispatcher fd \<lparr>msg_type = Chat, payload = ChatPayload chat\<rparr> ctx =
      (Inr (), ctx\<lparr>trace := trace ctx @ ShowChat (cr_id c) ''all'' ''Chat'' # map (\<lambda>f. Send f Deliver p) fds\<rparr>) \<and>
    distinct fds \<and>
    set fds = {f. f \<noteq> fd \<and> (\<exists>d. find_by_fd (ctx_registry ctx) f = Some d \<and> cr_id d \<notin> banned_ids ctx)}"
proof (intro exI conjI)
  let ?m = "\<lparr>msg_type = Chat, payload = ChatPayload chat\<rparr>"
  have "opaque_handle Deliver ''Chat'' fd ?m ctx =
      (Inr (), ctx\<lparr>trace := trace ctx @ ShowChat (cr_id c) ''all'' ''Chat'' # map (\<lambda>f. Send f Deliver p) (audience ctx fd)\<rparr>)"
    using assms by (subst opaque_handle_eq[where c = c and chat = chat and label = "''all''"])
      (simp_all add: ctx_is_banned_def recipient_label_def relay_effects_def)
  then show "dispatch create_message_dispatcher fd ?m ctx =
      (Inr (), ctx\<lparr>trace := trace ctx @ ShowChat (cr_id c) ''all'' ''Chat'' # map (\<lambda>f. Send f Deliver p) (audience ctx fd)\<rparr>)"
    by (simp add: create_message_dispatcher_def add_handler_def chat_is_opaque)
  show "distinct (audience ctx fd)" by (rule distinct_audience[OF assms(1)])
  show "set (audience ctx fd) =
      {f. f \<noteq> fd \<and> (\<exists>d. find_by_fd (ctx_registry ctx) f = Some d \<and> cr_id d \<notin> banned_ids ctx)}"
    by (auto simp: in_audience ctx_is_banned_def)
qed

theorem broadcast_reaches_others_once_witness:
  "\<exists>fds. 9 \<in> set fds \<and> 11 \<notin> set fds \<and> distinct fds \<and>
     snd (dispatch create_message_dispatcher 7 \<lparr>msg_type = Chat, payload = ChatPayload
       \<lparr>chat_from_id = 0, recipient_tag = kRecipientBroadcast, recipient_data = [], chat_text = ''hi''\<rparr>\<rparr> sample_context)
     = sample_context\<lparr>trace := ShowChat 1 ''all'' ''Chat'' # map (\<lambda>f. Send f Deliver (encode_u32_be 1 @ string_field ''hi'')) fds\<rparr>"
proof -
  let ?chat = "\<lparr>chat_from_id = 0, recipient_tag = kRecipientBroadcast, recipient_data = [], chat_text = ''hi''\<rparr>"
  let ?p = "encode_u32_be 1 @ string_field ''hi''"
  have "encode_deliver 1 ''hi'' = Inr ?p" by (simp add: encode_deliver_def encode_u32_be_def)
  then obtain fds where fds: "dispatch create_message_dispatcher 7 \<lparr>msg_type = Chat, payload = ChatPayload ?chat\<rparr> sample_context =
      (Inr (), sample_context\<lparr>trace := ShowChat 1 ''all'' ''Chat'' # map (\<lambda>f. Send f Deliver ?p) fds\<rparr>)"
    "distinct fds" "set fds = {f. f \<noteq> 7 \<and> (\<exists>d. find_by_fd (ctx_registry sample_context) f = Some d \<and> cr_id d \<noteq> 3)}"
    using broadcast_reaches_others_once[of sample_context 7 _ ?chat ?p, OF sample_context_inv sample_context_find(1)]
    by auto
  then show ?thesis by (intro exI[of _ fds]) (simp only: fds, simp)
qed

text \<open>The relayed request types with the type they are delivered as and the label that is logged.\<close>

definition relay_kinds :: "(MsgType \<times> MsgType \<times> string) list" where
  "relay_kinds = [(Chat, Deliver, ''Chat''), (KeyOffer, PeerKey, ''KeyOffer''), (RoomKeyOffer, RoomKey, ''RoomKeyOffer'')]"

lemma dispatch_relay:
  "(req, del, lab) \<in> set relay_kinds \<Longrightarrow>
   dispatch create_message_dispatcher fd \<lparr>msg_type = req, payload = pl\<rparr> = opaque_handle del lab fd \<lparr>msg_type = req, payload = pl\<rparr>"
  by (intro ext) (auto simp: relay_kinds_def create_message_dispatcher_def add_handler_def chat_is_opaque)

lemma relay_unicast:
  assumes "registry_inv (ctx_registry ctx)" and "(req, del, lab) \<in> set relay_kinds"
    and "find_by_fd (ctx_registry ctx) fd = Some c" and "cr_id c \<notin> banned_ids ctx"
    and "find_by_fd (ctx_registry ctx) f = Some d" and "cr_id d \<notin> banned_ids ctx"
    and "recipient_tag chat = kRecipientById \<and> recipient_data chat = encode_u32_be (cr_id d) \<or>
      recipient_tag chat = kRecipientByNickname \<and> recipient_data chat = string_field (cr_nickname d) \<and>
        cr_nickname d \<noteq> '''' \<and> length (cr_nickname d) \<le> 65535"
    and "encode_deliver (cr_id c) (chat_text chat) = Inr p"
  shows "\<exists>label. dispatch create_message_dispatcher fd \<lparr>msg_type = req, payload = ChatPayload chat\<rparr> ctx =
    (Inr (), ctx\<lparr>trace := trace ctx @ [ShowChat (cr_id c) label lab, Send f del p]\<rparr>)"
proof -
  let ?r = "ctx_registry ctx"
  have "resolve_recipient ?r chat = Inr (Some (cr_id d))"
    using assms(7) registry_invD(3,5)[OF assms(1,5)] by (auto simp: resolve_by_id resolve_by_nickname)
  moreover obtain label where "recipient_label ?r chat = Inr label"
    using assms(7) by (auto simp: recipient_label_def)
  moreover have "recipient_tag chat \<noteq> kRecipientBroadcast" using assms(7) by auto
  ultimately have "opaque_handle del lab fd \<lparr>msg_type = req, payload = ChatPayload chat\<rparr> ctx =
      (Inr (), ctx\<lparr>trace := trace ctx @ [ShowChat (cr_id c) label lab, Send f del p]\<rparr>)"
    using assms(3,4,6,8) registry_invD(3)[OF assms(1,5)]
    by (subst opaque_handle_eq[where c = c and chat = chat and label = label])
      (simp_all add: ctx_is_banned_def relay_effects_def)
  then show ?thesis using dispatch_relay[OF assms(2)] by metis
qed

text \<open>C14: A chat, a key offer or a room key offer to one client that is connected and not banned, named
  by its id or by its nickname, results in one log line and in exactly one frame, to that client's
  socket, with the sender's id and the text unchanged.\<close>

theorem unicast_reaches_recipient:
  assumes "registry_inv (ctx_registry ctx)" and "(req, del, lab) \<in> set relay_kinds"
    and "find_by_fd (ctx_registry ctx) fd = Some c" and "cr_id c \<notin> banned_ids ctx"
    and "find_by_fd (ctx_registry ctx) f = Some d" and "cr_id d \<notin> banned_ids ctx"
    and "recipient_tag chat = kRecipientById \<and> recipient_data chat = encode_u32_be (cr_id d) \<or>
      recipient_tag chat = kRecipientByNickname \<and> recipient_data chat = string_field (cr_nickname d) \<and>
        cr_nickname d \<noteq> '''' \<and> length (cr_nickname d) \<le> 65535"
    and "encode_deliver (cr_id c) (chat_text chat) = Inr p"
  shows "\<exists>label. dispatch create_message_dispatcher fd \<lparr>msg_type = req, payload = ChatPayload chat\<rparr> ctx =
    (Inr (), ctx\<lparr>trace := trace ctx @ [ShowChat (cr_id c) label lab, Send f del p]\<rparr>)"
  using assms by (rule relay_unicast)

theorem unicast_reaches_recipient_witness:
  "\<exists>label. dispatch create_message_dispatcher 7 sample_chat sample_context =
    (Inr (), sample_context\<lparr>trace := [ShowChat 1 label ''Chat'', Send 9 Deliver (encode_u32_be 1 @ string_field ''hi'')]\<rparr>)"
  using unicast_reaches_recipient[of sample_context Chat Deliver "''Chat''" 7 _ 9 _
      "\<lparr>chat_from_id = 99, recipient_tag = kRecipientById, recipient_data = encode_u32_be 2, chat_text = ''hi''\<rparr>"
      "encode_u32_be 1 @ string_field ''hi''", OF sample_context_inv _ sample_context_find(1) _ sample_context_find(2)]
  by (auto simp: relay_kinds_def sample_chat_def encode_deliver_def encode_u32_be_def)

text \<open>What an observer of the trace sees without the relayed payloads.\<close>

fun blank :: "effect \<Rightarrow> effect" where
  "blank (Send f t p) = (if t \<in> relayed then Send f t [] else Send f t p)"
| "blank e = e"

lemma recipient_text [simp]:
  "recipient_label r (chat\<lparr>chat_text := s\<rparr>) = recipient_label r chat"
  "resolve_recipient r (chat\<lparr>chat_text := s\<rparr>) = resolve_recipient r chat"
  by (simp_all add: recipient_label_def resolve_recipient_def)

lemma relay_effects_blind:
  assumes "encode_deliver i s = Inr p" "encode_deliver i s' = Inr p'" and "t \<in> relayed"
  shows "fst (relay_effects t fd (chat\<lparr>chat_text := s\<rparr>) l i ctx) = fst (relay_effects t fd (chat\<lparr>chat_text := s'\<rparr>) l i ctx)"
    and "map blank (snd (relay_effects t fd (chat\<lparr>chat_text := s\<rparr>) l i ctx)) =
      map blank (snd (relay_effects t fd (chat\<lparr>chat_text := s'\<rparr>) l i ctx))"
  using assms by (auto simp: relay_effects_def Let_def split: sum.split option.split)

text \<open>The relay is blind: the log of the server, the replies it sends and the choice of the
  recipients do not depend on the text of a chat, of a key offer or of a room key offer.\<close>

theorem relay_blind:
  assumes "(req, del, lab) \<in> set relay_kinds" and "length s \<le> 65535" and "length s' \<le> 65535"
  shows "map blank (trace (snd (dispatch create_message_dispatcher fd
        \<lparr>msg_type = req, payload = ChatPayload (chat\<lparr>chat_text := s\<rparr>)\<rparr> ctx))) =
    map blank (trace (snd (dispatch create_message_dispatcher fd
        \<lparr>msg_type = req, payload = ChatPayload (chat\<lparr>chat_text := s'\<rparr>)\<rparr> ctx)))"
proof (cases "\<exists>c label. find_by_fd (ctx_registry ctx) fd = Some c \<and> \<not> ctx_is_banned ctx (cr_id c) \<and>
    recipient_label (ctx_registry ctx) chat = Inr label")
  case True
  then obtain c label where c: "find_by_fd (ctx_registry ctx) fd = Some c" "\<not> ctx_is_banned ctx (cr_id c)"
    "recipient_label (ctx_registry ctx) chat = Inr label" by blast
  obtain p p' where "encode_deliver (cr_id c) s = Inr p" "encode_deliver (cr_id c) s' = Inr p'"
    using assms by (simp add: encode_deliver_def)
  moreover have "del \<in> relayed" using assms(1) by (auto simp: relay_kinds_def)
  ultimately have blind: "map blank (snd (relay_effects del fd (chat\<lparr>chat_text := s\<rparr>) label (cr_id c) ctx)) =
      map blank (snd (relay_effects del fd (chat\<lparr>chat_text := s'\<rparr>) label (cr_id c) ctx))"
    by (rule relay_effects_blind)
  have "opaque_handle del lab fd \<lparr>msg_type = req, payload = ChatPayload (chat\<lparr>chat_text := u\<rparr>)\<rparr> ctx =
      (fst (relay_effects del fd (chat\<lparr>chat_text := u\<rparr>) label (cr_id c) ctx),
       ctx\<lparr>trace := trace ctx @ ShowChat (cr_id c) label lab # snd (relay_effects del fd (chat\<lparr>chat_text := u\<rparr>) label (cr_id c) ctx)\<rparr>)" for u
    using c by (intro opaque_handle_eq) simp_all
  then show ?thesis by (simp add: dispatch_relay[OF assms(1)] blind)
next
  case False
  then have "snd (opaque_handle del lab fd \<lparr>msg_type = req, payload = ChatPayload (chat\<lparr>chat_text := u\<rparr>)\<rparr> ctx) = ctx" for u
    by (auto simp: opaque_handle_def split: option.split sum.split)
  then show ?thesis by (simp add: dispatch_relay[OF assms(1)])
qed

theorem relay_blind_witness:
  "map blank (trace (snd (dispatch create_message_dispatcher 7
      \<lparr>msg_type = KeyOffer, payload = ChatPayload \<lparr>chat_from_id = 0, recipient_tag = 3, recipient_data = [], chat_text = ''a''\<rparr>\<rparr> sample_context))) =
   map blank (trace (snd (dispatch create_message_dispatcher 7
      \<lparr>msg_type = KeyOffer, payload = ChatPayload \<lparr>chat_from_id = 0, recipient_tag = 3, recipient_data = [], chat_text = ''bc''\<rparr>\<rparr> sample_context)))"
  using relay_blind[of KeyOffer PeerKey "''KeyOffer''" "''a''" "''bc''" 7
      "\<lparr>chat_from_id = 0, recipient_tag = 3, recipient_data = [], chat_text = ''a''\<rparr>" sample_context]
  by (simp add: relay_kinds_def)

text \<open>C27: Registration by a connected client, on every branch: an empty, reserved or foreign nickname is
  answered with an error to the client and changes nothing else; any other nickname becomes the
  client's and every other client is told, once each.\<close>

theorem register_outcome:
  assumes "registry_inv (ctx_registry ctx)" and "find_by_fd (ctx_registry ctx) fd = Some c"
    and "length n \<le> 65535"
  shows "let r = dispatch create_message_dispatcher fd \<lparr>msg_type = Register, payload = RegisterPayload n\<rparr> ctx in
    fst r = Inr () \<and>
    (if n = '''' \<or> n = ''all'' \<or> (\<exists>f d. f \<noteq> fd \<and> find_by_fd (ctx_registry ctx) f = Some d \<and> cr_nickname d = n)
     then \<exists>p. snd r = ctx\<lparr>trace := trace ctx @ [Send fd Error p]\<rparr>
     else \<exists>p fds. snd r = ctx\<lparr>ctx_registry := set_nickname (ctx_registry ctx) fd n,
         trace := trace ctx @ ShowClientRegistered (cr_id c) n # map (\<lambda>f. Send f UserJoined p) fds\<rparr> \<and>
       encode_user_joined (cr_id c) n = Inr p \<and>
       distinct fds \<and> set fds = dom (find_by_fd (ctx_registry ctx)) - {fd})"
proof -
  let ?m = "\<lparr>msg_type = Register, payload = RegisterPayload n\<rparr>"
  let ?r = "ctx_registry ctx"
  have d: "dispatch create_message_dispatcher fd ?m ctx = register_handle fd ?m ctx"
    by (simp add: create_message_dispatcher_def add_handler_def)
  have taken: "nickname_taken_by_other ?r n (cr_id c) \<longleftrightarrow>
      n \<noteq> '''' \<and> (\<exists>f d. f \<noteq> fd \<and> find_by_fd ?r f = Some d \<and> cr_nickname d = n)"
    by (rule nickname_taken_by_other_find[OF assms(1,2)])
  have "payload ?m = RegisterPayload n" by simp
  from this assms(2) show ?thesis
  proof (cases rule: register_handle_cases)
    case (refused s)
    then show ?thesis unfolding Let_def d using taken by (auto simp: emit_def)
  next
    case accepted
    let ?fds = "filter (\<lambda>f. f \<noteq> fd) (all_fds ?r)"
    have "set ?fds = dom (find_by_fd ?r) - {fd}" "distinct ?fds"
      using registry_invD(1)[OF assms(1)] by (auto simp: set_all_fds)
    moreover obtain p where p: "encode_user_joined (cr_id c) n = Inr p"
      using assms(3) by (simp add: encode_user_joined_def encode_user_info_def)
    moreover have "register_handle fd ?m ctx = (Inr (), ctx\<lparr>ctx_registry := set_nickname ?r fd n,
        trace := trace ctx @ ShowClientRegistered (cr_id c) n # map (\<lambda>f. Send f UserJoined p) ?fds\<rparr>)"
      by (simp add: accepted(3) user_joined_def p presence_broadcast_eq emit_def)
    moreover have "\<not> (n = '''' \<or> n = ''all'' \<or> (\<exists>f d. f \<noteq> fd \<and> find_by_fd ?r f = Some d \<and> cr_nickname d = n))"
      using accepted(1,2) taken by blast
    ultimately show ?thesis unfolding Let_def d by (auto intro!: exI[of _ p] exI[of _ ?fds])
  qed
qed

theorem register_outcome_witness:
  "\<exists>p. snd (dispatch create_message_dispatcher 7 \<lparr>msg_type = Register, payload = RegisterPayload ''eve''\<rparr> sample_context)
     = sample_context\<lparr>trace := [Send 7 Error p]\<rparr>"
proof -
  have "\<exists>f d. f \<noteq> 7 \<and> find_by_fd (ctx_registry sample_context) f = Some d \<and> cr_nickname d = ''eve''"
    by (intro exI[of _ "9 :: int"]) simp
  then show ?thesis
    using register_outcome[of sample_context 7 _ "''eve''", OF sample_context_inv sample_context_find(1)]
    by (simp add: Let_def)
qed

text \<open>C38: \<^verbatim>\<open>ChatMessageHandler\<close> behaves like the generic relay configured for \<^verbatim>\<open>Chat\<close>, \<^verbatim>\<open>Deliver\<close> and
  the label \<^verbatim>\<open>Chat\<close>, and the sender id that a request claims has no influence on it.\<close>

theorem chat_handler_is_relay:
  "can_handle ChatMessageHandler = can_handle (OpaqueUnicastHandler Chat Deliver ''Chat'') \<and>
   handle ChatMessageHandler = handle (OpaqueUnicastHandler Chat Deliver ''Chat'') \<and>
   opaque_handle t k fd \<lparr>msg_type = mt, payload = ChatPayload (chat\<lparr>chat_from_id := i\<rparr>)\<rparr> ctx =
     opaque_handle t k fd \<lparr>msg_type = mt, payload = ChatPayload chat\<rparr> ctx"
proof -
  have "recipient_label r (chat\<lparr>chat_from_id := i\<rparr>) = recipient_label r chat"
    "resolve_recipient r (chat\<lparr>chat_from_id := i\<rparr>) = resolve_recipient r chat" for r
    by (simp_all add: recipient_label_def resolve_recipient_def)
  then have "opaque_handle t k fd \<lparr>msg_type = mt, payload = ChatPayload (chat\<lparr>chat_from_id := i\<rparr>)\<rparr> ctx =
      opaque_handle t k fd \<lparr>msg_type = mt, payload = ChatPayload chat\<rparr> ctx"
    by (auto simp: opaque_handle_def Let_def split: option.split sum.split)
  then show ?thesis by (simp add: fun_eq_iff chat_is_opaque)
qed

text \<open>A message type without a handler, which includes every type that only the server sends, is
  answered with an error and has no other effect.\<close>

theorem unsupported_type_rejected:
  assumes "t \<notin> {Register, Chat, KeyOffer, RoomKeyOffer, ListUsers}"
  shows "dispatch create_message_dispatcher fd \<lparr>msg_type = t, payload = p\<rparr> ctx =
    (Inr (), emit (Send fd Error (string_field ''Unsupported message type'')) ctx)"
  using assms
  by (simp add: create_message_dispatcher_def add_handler_def send_encoded_def encode_error_def encode_string_eq)

theorem unsupported_type_rejected_witness:
  "trace (snd (dispatch create_message_dispatcher 7
     \<lparr>msg_type = BannedIds, payload = BannedIdsPayload [1]\<rparr> sample_context)) =
   [Send 7 Error (string_field ''Unsupported message type'')]"
  using unsupported_type_rejected[of BannedIds 7 "BannedIdsPayload [1]" sample_context] by simp

text \<open>The reply to \<^verbatim>\<open>ListUsers\<close> decodes to the connected clients with their nicknames, in
  increasing order of id.\<close>

theorem list_users_reply:
  assumes "registry_inv (ctx_registry ctx)" and "length (clients_by_fd (ctx_registry ctx)) \<le> 65535"
    and "\<And>f c. find_by_fd (ctx_registry ctx) f = Some c \<Longrightarrow> length (cr_nickname c) \<le> 65535"
  shows "\<exists>p users. dispatch create_message_dispatcher fd \<lparr>msg_type = ListUsers, payload = ListUsersPayload\<rparr> ctx =
      (Inr (), ctx\<lparr>trace := trace ctx @ [Send fd UsersList p]\<rparr>) \<and>
    decode_app_message (make_frame UsersList p 0) = Inr \<lparr>msg_type = UsersList, payload = UsersListPayload users\<rparr> \<and>
    sorted_wrt (<) (map ui_id users) \<and>
    set users = {\<lparr>ui_id = cr_id c, ui_nickname = cr_nickname c\<rparr> | f c. find_by_fd (ctx_registry ctx) f = Some c}"
proof -
  let ?us = "collect_users (ctx_registry ctx)"
  have "length ?us \<le> 65535" using assms(2) by (simp add: collect_users_def)
  moreover have "\<forall>u \<in> set ?us. good_user u"
    using assms(3) set_collect_users[OF assms(1)] by (auto simp: good_user_def)
  ultimately obtain p where p: "encode_users_list ?us = Inr p" by (auto simp: encode_users_list_Inr)
  moreover have "decode_payload UsersList p = Inr (UsersListPayload ?us)"
    using decode_encode_payload[of UsersList "UsersListPayload ?us" p] p by simp
  ultimately show ?thesis
    using set_collect_users[OF assms(1)] sorted_collect_users[OF assms(1)]
    by (intro exI[of _ p] exI[of _ ?us])
      (simp add: create_message_dispatcher_def add_handler_def list_users_handle_def send_encoded_def emit_def)
qed

theorem list_users_reply_witness:
  "\<exists>p. dispatch create_message_dispatcher 7 \<lparr>msg_type = ListUsers, payload = ListUsersPayload\<rparr>
      \<lparr>ctx_registry = sample_registry, banned_ids = {}, trace = []\<rparr> =
      (Inr (), \<lparr>ctx_registry = sample_registry, banned_ids = {}, trace = [Send 7 UsersList p]\<rparr>)"
proof -
  have "find_by_fd sample_registry f = Some c \<Longrightarrow> length (cr_nickname c) \<le> 65535" for f c
    by (auto simp: sample_registry_eq find_by_fd_def split: if_splits)
  moreover have "length (clients_by_fd sample_registry) \<le> 65535" by (simp add: sample_registry_eq)
  ultimately show ?thesis
    using list_users_reply[of "\<lparr>ctx_registry = sample_registry, banned_ids = {}, trace = []\<rparr>" 7] by auto
qed

end
