(* ===== verification/Admin.thy ===== *)
theory Admin
  imports Text
begin

text \<open>
  The admin console of the server: \<^verbatim>\<open>server/viewmodel/AdminCommandParser.cpp\<close>. The only command is
  \<^verbatim>\<open>ban:1,2,3\<close>. The text primitives (\<^verbatim>\<open>isspace\<close>, \<^verbatim>\<open>stoul\<close>, \<^verbatim>\<open>getline\<close>) come from the theory \<open>Text\<close>.
\<close>

section \<open>The parser\<close>

definition trim :: "string \<Rightarrow> string" where
  "trim v = trim_back isspace (trim_front isspace v)"

record BanCommand =
  ban_command_ids :: "u32 list"

text \<open>The \<^verbatim>\<open>getline\<close> loop: the ids pushed for the tokens, or \<open>None\<close> where the source returns
  \<^verbatim>\<open>nullopt\<close> (directly or in the \<^verbatim>\<open>catch\<close>).\<close>

fun parse_ban_tokens :: "string list \<Rightarrow> u32 list option" where
  "parse_ban_tokens [] = Some []"
| "parse_ban_tokens (raw # rest) =
    (let token = trim raw in
     if token = '''' then None
     else case stoul token of
         Inl _ \<Rightarrow> None
       | Inr (value, consumed) \<Rightarrow>
           if consumed \<noteq> length token \<or> value = 0 \<or> 0xFFFFFFFF < value then None
           else map_option ((#) (ucast value)) (parse_ban_tokens rest))"

definition parse_admin_command :: "string \<Rightarrow> BanCommand option" where
  "parse_admin_command line =
    (let trimmed = trim line in
     if trimmed = '''' then None
     else if length trimmed < 4 \<or> take 4 trimmed \<noteq> ''ban:'' then None
     else let ids_part = trim (drop 4 trimmed) in
       if ids_part = '''' then None
       else case parse_ban_tokens (getlines CHR '','' ids_part) of
           None \<Rightarrow> None
         | Some ids \<Rightarrow> if ids = [] then None else Some \<lparr>ban_command_ids = ids\<rparr>)"

definition admin_help_text :: string where
  "admin_help_text = ''Admin commands: ban:1,2,3''"

section \<open>Lemmas\<close>

abbreviation spaces :: "string \<Rightarrow> bool" where
  "spaces w \<equiv> \<forall>c \<in> set w. isspace c"

lemma trim_spaces:
  assumes "spaces a" and "spaces b" and "s \<noteq> ''''" and "\<not> isspace (hd s)" and "\<not> isspace (last s)"
  shows "trim (a @ s @ b) = s"
proof -
  have "dropWhile isspace (a @ s @ b) = s @ b"
    using assms(1,3,4) by (cases s) (simp_all add: dropWhile_append2)
  moreover have "dropWhile isspace (rev b @ rev s) = dropWhile isspace (rev s)"
    using assms(2) by (intro dropWhile_append2) simp
  moreover have "dropWhile isspace (rev s) = rev s"
    using assms(3,5) by (cases s rule: rev_cases) simp_all
  ultimately show ?thesis by (simp add: trim_def trim_front_def trim_back_def)
qed

lemma to_string_ends [simp]: "\<not> isspace (hd (to_string n))" "\<not> isspace (last (to_string n))"
  by (rule digit_not_space, rule to_string_digits[of _ n], simp)+

lemma trim_number: "spaces a \<Longrightarrow> spaces b \<Longrightarrow> trim (a @ to_string n @ b) = to_string n"
  by (rule trim_spaces) simp_all

lemma parse_ban_token:
  assumes "spaces a" and "spaces b" and "i \<noteq> 0"
  shows "parse_ban_tokens ((a @ to_string (unat i) @ b) # rest) = map_option ((#) i) (parse_ban_tokens rest)"
proof -
  have lt: "unat i < 2 ^ 32" using unsigned_less[of i] by simp
  then have st: "stoul (to_string (unat i)) = Inr (word_of_nat (unat i), length (to_string (unat i)))"
    by (intro stoul_to_string) simp
  have v: "unat (ucast i :: u64) = unat i"
    using lt by (simp add: unsigned_ucast_eq take_bit_nat_eq_self)
  have "(ucast i :: u64) \<noteq> 0" using v assms(3) by (metis unat_eq_zero)
  moreover have "\<not> (0xFFFFFFFF :: u64) < ucast i"
    using v lt by (simp add: word_less_nat_alt)
  moreover have "ucast (ucast i :: u64) = i"
    by (rule bit_word_eqI) (simp add: bit_simps)
  ultimately show ?thesis using assms(1,2) by (simp add: trim_number st)
qed

text \<open>The text of further ids: each behind a comma, with any white space on both sides of it.\<close>

definition more_ids :: "(string \<times> string \<times> u32) list \<Rightarrow> string" where
  "more_ids xs = concat (map (\<lambda>(a, b, i). a @ '','' @ b @ to_string (unat i)) xs)"

definition good_ids :: "(string \<times> string \<times> u32) list \<Rightarrow> bool" where
  "good_ids xs \<longleftrightarrow> (\<forall>(a, b, i) \<in> set xs. spaces a \<and> spaces b \<and> i \<noteq> 0)"

lemma more_ids_simps [simp]:
  "more_ids [] = ''''" "more_ids ((a, b, i) # xs) = a @ CHR '','' # b @ to_string (unat i) @ more_ids xs"
  by (simp_all add: more_ids_def)

lemma good_ids_simps [simp]:
  "good_ids []" "good_ids ((a, b, i) # xs) \<longleftrightarrow> spaces a \<and> spaces b \<and> i \<noteq> 0 \<and> good_ids xs"
  by (auto simp: good_ids_def)

lemma no_comma: "spaces w \<Longrightarrow> CHR '','' \<notin> set w" "CHR '','' \<notin> set (to_string n)"
  using digit_neq to_string_digits by (auto simp: isspace_def)

lemma parse_ban_list:
  "spaces w \<Longrightarrow> i \<noteq> 0 \<Longrightarrow> good_ids xs \<Longrightarrow>
   parse_ban_tokens (getlines CHR '','' (w @ to_string (unat i) @ more_ids xs)) =
     Some (i # map (snd \<circ> snd) xs)"
proof (induction xs arbitrary: w i)
  case Nil
  let ?s = "w @ to_string (unat i)"
  have "split_first CHR '','' ?s = None"
    using Nil no_comma by (auto simp: split_first_None_iff)
  moreover obtain c cs where "?s = c # cs" by (cases ?s) auto
  ultimately have "getlines CHR '','' ?s = [?s]" by simp
  then show ?case using Nil parse_ban_token[of w "''''" i "[]"] by simp
next
  case (Cons x xs)
  obtain a b j where x: "x = (a, b, j)" by (cases x)
  let ?s = "w @ to_string (unat i) @ a" and ?r = "b @ to_string (unat j) @ more_ids xs"
  have "split_first CHR '','' (?s @ CHR '','' # ?r) = Some (?s, ?r)"
    using Cons.prems no_comma by (intro split_first_append) (auto simp: x)
  moreover obtain c cs where "?s @ CHR '','' # ?r = c # cs" by (cases "?s @ CHR '','' # ?r") auto
  ultimately have "getlines CHR '','' (?s @ CHR '','' # ?r) = ?s # getlines CHR '','' ?r" by simp
  then show ?case
    using Cons.prems Cons.IH[of b j] parse_ban_token[of w a i] by (simp add: x)
qed

lemma last_ids: "\<not> isspace (last (to_string n @ more_ids xs))"
  by (induction xs arbitrary: n) (auto simp: last_append)

section \<open>Properties\<close>

text \<open>Every list of nonzero ids written as decimal numbers behind \<^verbatim>\<open>ban:\<close>, with any white space
  around the command and around the commas, is parsed back to exactly those ids.\<close>

theorem parse_admin_command_complete:
  assumes "spaces w0" "spaces w1" "spaces w2" and "i \<noteq> 0" and "good_ids xs"
  shows "parse_admin_command (w0 @ ''ban:'' @ w1 @ to_string (unat i) @ more_ids xs @ w2) =
    Some \<lparr>ban_command_ids = i # map (snd \<circ> snd) xs\<rparr>"
proof -
  let ?ids = "to_string (unat i) @ more_ids xs"
  have b: "\<not> isspace CHR ''b''" by (simp add: isspace_def)
  have "trim (w0 @ (''ban:'' @ w1 @ ?ids) @ w2) = ''ban:'' @ w1 @ ?ids"
    using assms b last_ids[of "unat i" xs] by (intro trim_spaces) (simp_all add: last_append)
  then have t: "trim (w0 @ ''ban:'' @ w1 @ to_string (unat i) @ more_ids xs @ w2) = ''ban:'' @ w1 @ ?ids"
    by simp
  have ids: "trim (w1 @ ?ids) = ?ids"
    using trim_spaces[of w1 "''''" ?ids] assms last_ids[of "unat i" xs] by (simp add: hd_append)
  have "parse_ban_tokens (getlines CHR '','' ?ids) = Some (i # map (snd \<circ> snd) xs)"
    using parse_ban_list[of "''''" i xs] assms by simp
  then show ?thesis unfolding parse_admin_command_def Let_def t by (simp add: ids)
qed

theorem parse_admin_command_complete_witness:
  "parse_admin_command '' ban: 1, 2 ,3 '' = Some \<lparr>ban_command_ids = [1, 2, 3]\<rparr>"
proof -
  have "to_string 1 = ''1''" "to_string 2 = ''2''" "to_string 3 = ''3''" by code_simp+
  then show ?thesis
    using parse_admin_command_complete[of "'' ''" "'' ''" "'' ''" 1 "[('''', '' '', 2), ('' '', '''', 3)]"]
    by (simp add: isspace_def)
qed

lemma parse_ban_tokens_sound:
  "parse_ban_tokens ts = Some ids \<Longrightarrow> length ids = length ts \<and> 0 \<notin> set ids"
proof (induction ts arbitrary: ids)
  case (Cons t ts)
  then obtain v n js where v: "v \<noteq> 0" "\<not> 0xFFFFFFFF < (v :: u64)" "parse_ban_tokens ts = Some js" "ids = ucast v # js"
    by (auto simp: Let_def split: if_splits sum.splits)
  have "unat v < 2 ^ 32" using v(2) by (simp add: word_less_nat_alt)
  then have "unat (ucast v :: u32) = unat v" by (simp add: unsigned_ucast_eq take_bit_nat_eq_self)
  then have "(ucast v :: u32) \<noteq> 0" using v(1) by (metis unat_eq_zero)
  with v Cons.IH[of js] show ?case by simp
qed simp

text \<open>Whatever line is typed, an accepted command bans at least one id and never the id 0.\<close>

theorem parse_admin_command_sound:
  assumes "parse_admin_command line = Some cmd"
  shows "ban_command_ids cmd \<noteq> [] \<and> 0 \<notin> set (ban_command_ids cmd) \<and> (\<exists>rest. trim line = ''ban:'' @ rest)"
proof -
  obtain ts where ts: "parse_ban_tokens ts = Some (ban_command_ids cmd)" "ban_command_ids cmd \<noteq> []"
    and pre: "take 4 (trim line) = ''ban:''"
    using assms by (auto simp: parse_admin_command_def Let_def split: if_splits option.splits)
  have "trim line = ''ban:'' @ drop 4 (trim line)" using pre append_take_drop_id[of 4 "trim line"] by simp
  with ts parse_ban_tokens_sound[OF ts(1)] show ?thesis by blast
qed

lemmas parse_line_simps = parse_admin_command_def trim_def trim_front_def trim_back_def isspace_def
  split_first_def stoul_def is_digit_def digits_value_def digit_value_def Let_def

theorem parse_admin_command_sound_witness:
  "parse_admin_command ''ban:7'' = Some \<lparr>ban_command_ids = [7]\<rparr> \<and>
   0 \<notin> set (ban_command_ids \<lparr>ban_command_ids = [7]\<rparr>)"
proof -
  have "parse_admin_command ''ban:7'' = Some \<lparr>ban_command_ids = [7]\<rparr>" by (simp add: parse_line_simps)
  with parse_admin_command_sound[OF this] show ?thesis by blast
qed

text \<open>The parser also accepts a number that is negative as written and small only modulo \<open>2^64\<close>,
  because \<^verbatim>\<open>std::stoul\<close> wraps around before the range check: this line bans the client with id 1.\<close>

theorem parse_admin_command_negative:
  "parse_admin_command ''ban:-18446744073709551615'' = Some \<lparr>ban_command_ids = [1]\<rparr>"
  by (simp add: parse_line_simps)

end
