(* ===== verification/Transport.thy ===== *)
theory Transport
  imports Protocol
begin

text \<open>
  Message transports: the interface \<^verbatim>\<open>common/transport/IMessageTransport.hpp\<close>, its socket
  implementation \<^verbatim>\<open>ModbusMessageTransport\<close> and the in-memory implementation
  \<^verbatim>\<open>testing/MemoryMessageTransport.hpp\<close> that the tests and benchmarks substitute for it.

  The interface's contract is the locale \<open>message_transport\<close>: a channel carries a queue of
  messages, sending appends, receiving takes the oldest one and decodes it. Both implementations
  are interpretations of it.
\<close>

section \<open>ModbusMessageTransport\<close>

definition transport_send :: "int list \<Rightarrow> MsgType \<Rightarrow> bytes \<Rightarrow> bytes \<Rightarrow> (bool \<times> bytes \<times> int list) option" where
  "transport_send rs t p wire = write_frame rs (make_frame t p 0) wire"

definition transport_receive :: "sock_event list \<Rightarrow> (app_message option res \<times> sock_event list) option" where
  "transport_receive evs =
    (case read_frame evs of
       None \<Rightarrow> None
     | Some (Inl e, es) \<Rightarrow> Some (Inl e, es)
     | Some (Inr None, es) \<Rightarrow> Some (Inr None, es)
     | Some (Inr (Some f), es) \<Rightarrow> Some (bindr (decode_app_message f) (\<lambda>m. Inr (Some m)), es))"

section \<open>MemoryMessageTransport\<close>

type_synonym memory_queues = "int \<Rightarrow> bytes list"

definition memory_send :: "memory_queues \<Rightarrow> int \<Rightarrow> MsgType \<Rightarrow> bytes \<Rightarrow> bool \<times> memory_queues" where
  "memory_send queues fd t p = (True, queues(fd := queues fd @ [encode (make_frame t p 0)]))"

definition memory_receive :: "memory_queues \<Rightarrow> int \<Rightarrow> app_message option res \<times> memory_queues" where
  "memory_receive queues fd =
    (case queues fd of
       [] \<Rightarrow> (Inr None, queues)
     | bs # rest \<Rightarrow>
         (bindr (decode bs) (\<lambda>r.
            case r of
              None \<Rightarrow> Inr None
            | Some (f, _) \<Rightarrow> bindr (decode_app_message f) (\<lambda>m. Inr (Some m))),
          queues(fd := rest)))"

definition memory_pending :: "memory_queues \<Rightarrow> int \<Rightarrow> nat" where
  "memory_pending queues fd = length (queues fd)"

section \<open>The contract\<close>

text \<open>Receiving a given number of messages; \<open>None\<close> when one of the calls does not deliver.\<close>

fun receive_n :: "('c \<Rightarrow> (app_message option res \<times> 'c) option) \<Rightarrow> nat \<Rightarrow> 'c \<Rightarrow> (app_message list \<times> 'c) option" where
  "receive_n rcv 0 c = Some ([], c)"
| "receive_n rcv (Suc n) c =
     (case rcv c of
        Some (Inr (Some m), c') \<Rightarrow>
          (case receive_n rcv n c' of Some (ms, c'') \<Rightarrow> Some (m # ms, c'') | None \<Rightarrow> None)
      | _ \<Rightarrow> None)"

text \<open>A payload that fits a frame: function code, type and payload stay below 65535 bytes.\<close>

definition fits_frame :: "bytes \<Rightarrow> bool" where
  "fits_frame p \<longleftrightarrow> length p < 65533"

locale message_transport =
  fixes send :: "'c \<Rightarrow> MsgType \<Rightarrow> bytes \<Rightarrow> 'c"
    and receive :: "'c \<Rightarrow> (app_message option res \<times> 'c) option"
    and carries :: "'c \<Rightarrow> (MsgType \<times> bytes) list \<Rightarrow> bool"
  assumes carries_send: "carries c q \<Longrightarrow> fits_frame p \<Longrightarrow> carries (send c t p) (q @ [(t, p)])"
    and carries_receive: "carries c ((t, p) # q) \<Longrightarrow> fits_frame p \<Longrightarrow>
      \<exists>c'. receive c = Some (bindr (decode_app_message (make_frame t p 0)) (\<lambda>m. Inr (Some m)), c') \<and> carries c' q"
begin

lemma send_all:
  "carries c q \<Longrightarrow> \<forall>(t, p) \<in> set ps. fits_frame p \<Longrightarrow>
   carries (foldl (\<lambda>c (t, p). send c t p) c ps) (q @ ps)"
proof (induction ps arbitrary: c q)
  case (Cons tp ps)
  obtain t p where tp: "tp = (t, p)" by (cases tp)
  then have "carries (send c t p) (q @ [(t, p)])" using Cons.prems by (auto intro: carries_send)
  from Cons.IH [OF this] Cons.prems show ?case by (simp add: tp)
qed simp

lemma receive_all:
  assumes "carries c (map (\<lambda>(m, p). (msg_type m, p)) mps @ q)"
    and "\<forall>(m, p) \<in> set mps. wf_message m \<and> encode_payload (payload m) = Inr p \<and> fits_frame p"
  shows "\<exists>c'. receive_n receive (length mps) c = Some (map fst mps, c') \<and> carries c' q"
  using assms
proof (induction mps arbitrary: c)
  case (Cons mp mps)
  obtain m p where mp: "mp = (m, p)" by (cases mp)
  have ok: "decode_payload (msg_type m) p = Inr (payload m)"
    using Cons.prems(2) by (auto simp: mp wf_message_def intro: decode_encode_payload)
  obtain c1 where "receive c = Some (Inr (Some m), c1)"
    "carries c1 (map (\<lambda>(m, p). (msg_type m, p)) mps @ q)"
    using carries_receive [of c "msg_type m" p "map (\<lambda>(m, p). (msg_type m, p)) mps @ q"] Cons.prems
    by (auto simp: mp ok)
  with Cons.IH [of c1] Cons.prems(2) show ?case by (auto simp: mp)
qed auto

text \<open>Everything sent arrives, decoded, once and in order.\<close>

lemma fifo:
  assumes "carries c []"
    and "\<forall>(m, p) \<in> set mps. wf_message m \<and> encode_payload (payload m) = Inr p \<and> fits_frame p"
  shows "\<exists>c'. receive_n receive (length mps) (foldl (\<lambda>c (t, p). send c t p) c (map (\<lambda>(m, p). (msg_type m, p)) mps)) =
      Some (map fst mps, c') \<and> carries c' []"
proof (rule receive_all)
  have "\<forall>(t, p) \<in> set (map (\<lambda>(m, p). (msg_type m, p)) mps). fits_frame p"
    using assms(2) by fastforce
  from send_all [OF assms(1) this]
  show "carries (foldl (\<lambda>c (t, p). send c t p) c (map (\<lambda>(m, p). (msg_type m, p)) mps))
      (map (\<lambda>(m, p). (msg_type m, p)) mps @ [])" by simp
qed (use assms(2) in simp)

end

section \<open>The two implementations\<close>

subsection \<open>Sockets\<close>

text \<open>
  A connected pair of sockets as a channel: the bytes written and not yet read. \<^verbatim>\<open>send\<close> accepts
  the bytes one by one; the reader sees whatever has accumulated as one segment.
\<close>

definition socket_send :: "bytes \<Rightarrow> MsgType \<Rightarrow> bytes \<Rightarrow> bytes" where
  "socket_send wire t p =
    (case transport_send (replicate (9 + length p) 1) t p wire of
       Some (_, wire', _) \<Rightarrow> wire' | None \<Rightarrow> wire)"

definition socket_receive :: "bytes \<Rightarrow> (app_message option res \<times> bytes) option" where
  "socket_receive wire =
    (case transport_receive (map Segment (filter (\<lambda>bs. bs \<noteq> []) [wire])) of
       None \<Rightarrow> None
     | Some (r, es) \<Rightarrow> Some (r, concat (map (\<lambda>e. case e of Segment bs \<Rightarrow> bs | _ \<Rightarrow> []) es)))"

definition wire_carries :: "bytes \<Rightarrow> (MsgType \<times> bytes) list \<Rightarrow> bool" where
  "wire_carries wire q \<longleftrightarrow> wire = concat (map (\<lambda>(t, p). encode (make_frame t p 0)) q)"

lemma length_pdu_make_frame [simp]: "length (pdu (make_frame t p tid)) = 2 + length p"
  by (simp add: make_frame_def)

lemma transport_send_all:
  assumes "\<forall>n \<in> set rs. 0 < n" and "9 + length p \<le> length rs"
  shows "\<exists>rs'. transport_send rs t p wire = Some (True, wire @ encode (make_frame t p 0), rs')"
  using write_exact_progress [of rs "encode (make_frame t p 0)" 0 wire] assms
    write_exact_prefix [of rs "encode (make_frame t p 0)" 0 wire True]
  by (fastforce simp: transport_send_def write_frame_def)

lemma transport_receive_segments:
  assumes "[] \<notin> set cs" and "concat cs = encode (make_frame t p tid) @ rest" and "fits_frame p"
  shows "\<exists>cs'. transport_receive (map Segment cs @ es) =
      Some (bindr (decode_app_message (make_frame t p tid)) (\<lambda>m. Inr (Some m)), map Segment cs' @ es) \<and>
    concat cs' = rest"
proof -
  have "length (pdu (make_frame t p tid)) < 65535" using assms(3) by (simp add: fits_frame_def)
  from read_frame_segments [OF assms(1,2) this, of es] show ?thesis
    by (auto simp: transport_receive_def simp del: decode_app_message_make_frame)
qed

interpretation socket: message_transport socket_send socket_receive wire_carries
proof (unfold_locales, goal_cases)
  case (1 c q p t)
  obtain rs' where "transport_send (replicate (9 + length p) 1) t p c =
      Some (True, c @ encode (make_frame t p 0), rs')"
    using transport_send_all [of "replicate (9 + length p) 1" p t c] by auto
  with 1 show ?case by (simp add: socket_send_def wire_carries_def)
next
  case (2 c t p q)
  define rest where "rest = concat (map (\<lambda>(t, p). encode (make_frame t p 0)) q)"
  have c: "c = encode (make_frame t p 0) @ rest" using 2 by (simp add: wire_carries_def rest_def)
  then have "c \<noteq> []" by (metis append_is_Nil_conv length_encode list.size(3) add_is_0 zero_neq_numeral)
  have [simp]: "concat (map ((\<lambda>e. case e of Segment bs \<Rightarrow> bs | _ \<Rightarrow> []) \<circ> Segment) cs') = concat cs'" for cs'
    by (induction cs') auto
  show ?case
    using transport_receive_segments [of "[c]" t p 0 rest "[]"] 2(2) c \<open>c \<noteq> []\<close>
    by (auto simp: socket_receive_def wire_carries_def rest_def simp del: decode_app_message_make_frame)
qed

subsection \<open>Memory\<close>

definition queue_carries :: "int \<Rightarrow> memory_queues \<Rightarrow> (MsgType \<times> bytes) list \<Rightarrow> bool" where
  "queue_carries fd queues q \<longleftrightarrow> queues fd = map (\<lambda>(t, p). encode (make_frame t p 0)) q"

interpretation memory: message_transport "\<lambda>c t p. snd (memory_send c fd t p)"
  "\<lambda>c. Some (memory_receive c fd)" "queue_carries fd" for fd
proof (unfold_locales, goal_cases)
  case (1 c q p t)
  then show ?case by (simp add: memory_send_def queue_carries_def)
next
  case (2 c t p q)
  have "decode (encode (make_frame t p 0)) = Inr (Some (make_frame t p 0, length (encode (make_frame t p 0))))"
    using decode_encode_append [of "make_frame t p 0" "[]"] 2 by (simp add: fits_frame_def)
  with 2 show ?case
    by (auto simp: memory_receive_def queue_carries_def simp del: decode_app_message_make_frame)
qed

section \<open>Properties\<close>



text \<open>\<^verbatim>\<open>receive\<close> is blocking: when a peer has sent only a strict prefix of a frame and keeps the
  connection open, the call does not return, however the prefix is cut into segments.\<close>

theorem receive_waits_for_whole_frame:
  assumes "concat cs = take n (encode (make_frame t p tid))" and "n < length (encode (make_frame t p tid))"
    and "[] \<notin> set cs" and "fits_frame p"
  shows "transport_receive (map Segment cs) = None"
  using read_frame_blocks [OF assms(3,1,2)] assms(4) by (simp add: transport_receive_def fits_frame_def)

theorem receive_waits_for_whole_frame_witness:
  "transport_receive [Segment [0, 0], Segment [0]] = None"
  using receive_waits_for_whole_frame [of "[[0, 0], [0]]" 3 ListUsers "[]" 0]
  by (simp add: encode_layout make_frame_def write_u16_be_def kProtocolId_def fits_frame_def)

end
