(* ===== verification/Server.thy ===== *)
theory Server
  imports Handlers Admin Transport
begin

text \<open>
  The server's view model (\<^verbatim>\<open>server/viewmodel/ServerViewModel.cpp\<close>): id allocation, accepting,
  removing and banning clients, the handling of one readable socket, the admin queue and the
  \<^verbatim>\<open>poll\<close> loop.

  The kernel is an input of the model. What a socket will yield to its reader is the field
  \<open>sockets\<close>; what \<^verbatim>\<open>poll\<close> and \<^verbatim>\<open>accept\<close> return is an argument of the loop. An operation returns
  \<open>None\<close> when the call does not return: a read on a socket that stays silent in the middle of a
  frame, or the search for an id when all of them are banned. \<open>Inl\<close> is an exception that leaves
  the operation.

  The second part is the relation \<open>server_step\<close>: the operations of the server thread in any order,
  interleaved with admin lines, stop requests and network traffic. Its invariant \<open>server_inv\<close>
  holds in every reachable state, and a run of the loop consists of such steps.
\<close>

section \<open>State\<close>

record server =
  srv_context :: server_context
  next_id :: u32
  free_ids :: "u32 set"
  running :: bool
  admin_queue :: "string list"
  listen_fd :: int
  sockets :: "int \<Rightarrow> sock_event list"

abbreviation srv_registry :: "server \<Rightarrow> registry" where
  "srv_registry s \<equiv> ctx_registry (srv_context s)"

abbreviation srv_banned :: "server \<Rightarrow> u32 set" where
  "srv_banned s \<equiv> banned_ids (srv_context s)"

abbreviation srv_trace :: "server \<Rightarrow> effect list" where
  "srv_trace s \<equiv> trace (srv_context s)"

abbreviation (input) kFirstClientId :: u32 where "kFirstClientId \<equiv> 1"

definition init_server :: "int \<Rightarrow> server" where
  "init_server lfd =
    \<lparr>srv_context = \<lparr>ctx_registry = empty_registry, banned_ids = {}, trace = []\<rparr>,
     next_id = kFirstClientId, free_ids = {}, running = True, admin_queue = [], listen_fd = lfd,
     sockets = (\<lambda>_. [])\<rparr>"

definition srv_emit :: "effect \<Rightarrow> server \<Rightarrow> server" where
  "srv_emit e s = s\<lparr>srv_context := emit e (srv_context s)\<rparr>"

text \<open>An operation of the context (a handler, a presence broadcast) inside the view model.\<close>

definition in_context :: "(server_context \<Rightarrow> unit res \<times> server_context) \<Rightarrow> server \<Rightarrow> unit res \<times> server" where
  "in_context f s = (case f (srv_context s) of (r, ctx) \<Rightarrow> (r, s\<lparr>srv_context := ctx\<rparr>))"

definition is_banned :: "server \<Rightarrow> u32 \<Rightarrow> bool" where
  "is_banned s cid \<longleftrightarrow> cid \<in> srv_banned s"

section \<open>Requests from other threads\<close>

definition request_stop :: "server \<Rightarrow> server" where
  "request_stop s =
    foldl (\<lambda>s fd. srv_emit (Shutdown fd) s) (s\<lparr>running := False, listen_fd := -1\<rparr>) (all_fds (srv_registry s))"

definition submit_admin_line :: "string \<Rightarrow> server \<Rightarrow> server" where
  "submit_admin_line line s = s\<lparr>admin_queue := admin_queue s @ [line]\<rparr>"

section \<open>Client ids\<close>

text \<open>The first loop of \<^verbatim>\<open>allocate_client_id\<close>: released ids in increasing order, skipping banned ones.\<close>

function take_free :: "u32 set \<Rightarrow> u32 set \<Rightarrow> u32 option \<times> u32 set" where
  "take_free banned free =
    (if free = {} then (None, {})
     else let i = Min free in
       if i \<notin> banned then (Some i, free - {i}) else take_free banned (free - {i}))"
  by pat_completeness auto
termination
  by (relation "measure (\<lambda>(b, f). card f)") (auto simp: card_gt_0_iff intro!: diff_less)

declare take_free.simps [simp del]

text \<open>The second loop, which does not end when every id is banned.\<close>

partial_function (option) skip_banned :: "u32 set \<Rightarrow> u32 \<Rightarrow> u32 option" where
  "skip_banned banned i = (if i \<in> banned then skip_banned banned (i + 1) else Some i)"

definition allocate_client_id :: "server \<Rightarrow> (u32 \<times> server) option" where
  "allocate_client_id s =
    (case take_free (srv_banned s) (free_ids s) of
       (Some i, free) \<Rightarrow> Some (i, s\<lparr>free_ids := free\<rparr>)
     | (None, free) \<Rightarrow>
         (case skip_banned (srv_banned s) (next_id s) of
            None \<Rightarrow> None
          | Some i \<Rightarrow> Some (i, s\<lparr>free_ids := free, next_id := i + 1\<rparr>)))"

definition release_client_id :: "u32 \<Rightarrow> server \<Rightarrow> server" where
  "release_client_id cid s = (if is_banned s cid then s else s\<lparr>free_ids := insert cid (free_ids s)\<rparr>)"

section \<open>Clients come and go\<close>

text \<open>\<open>fd\<close> is what \<^verbatim>\<open>accept\<close> returned and \<open>err\<close> the text of \<^verbatim>\<open>errno\<close>; the list holds the entries added
  to the poll set.\<close>

definition accept_client :: "int \<Rightarrow> string \<Rightarrow> server \<Rightarrow> ((unit res \<times> int list) \<times> server) option" where
  "accept_client client_fd err s =
    (if client_fd < 0 then Some ((Inr (), []), srv_emit (ShowAcceptFailed err) s)
     else
       let create_room = (all_fds (srv_registry s) = []) in
       case allocate_client_id s of
         None \<Rightarrow> None
       | Some (cid, s) \<Rightarrow>
           let (rec, reg) = registry_add (srv_registry s) client_fd cid;
               s = s\<lparr>srv_context := (srv_context s)\<lparr>ctx_registry := reg\<rparr>\<rparr>;
               s = srv_emit (ShowClientConnected (cr_id rec)) s;
               s = srv_emit (Send client_fd AssignId (encode_assign_id (cr_id rec) create_room)) s;
               (r, s) = in_context (user_joined (cr_id rec) '''' client_fd) s
           in Some ((r, [client_fd]), s))"

definition remove_client :: "int \<Rightarrow> server \<Rightarrow> unit res \<times> server" where
  "remove_client fd s =
    (case registry_remove (srv_registry s) fd of
       (None, _) \<Rightarrow> (Inr (), s)
     | (Some rec, reg) \<Rightarrow>
         let s = s\<lparr>srv_context := (srv_context s)\<lparr>ctx_registry := reg\<rparr>\<rparr>;
             s = srv_emit (ShowClientDisconnected (cr_id rec) (cr_nickname rec)) s;
             s = release_client_id (cr_id rec) s;
             s = srv_emit (Close fd) s
         in in_context (user_left (cr_id rec) (cr_nickname rec)) s)"

definition disconnect_client :: "server \<Rightarrow> int \<Rightarrow> server" where
  "disconnect_client s fd =
    (case registry_remove (srv_registry s) fd of
       (None, _) \<Rightarrow> s
     | (Some rec, reg) \<Rightarrow>
         let s = s\<lparr>srv_context := (srv_context s)\<lparr>ctx_registry := reg\<rparr>\<rparr>;
             s = srv_emit (ShowClientDisconnected (cr_id rec) (cr_nickname rec)) s;
             s = release_client_id (cr_id rec) s;
             s = srv_emit (Shutdown fd) s
         in srv_emit (Close fd) s)"

definition disconnect_all_clients :: "server \<Rightarrow> server" where
  "disconnect_all_clients s = foldl disconnect_client s (all_fds (srv_registry s))"

section \<open>One readable socket\<close>

text \<open>The body of the \<^verbatim>\<open>try\<close> block.\<close>

definition try_client_data :: "int \<Rightarrow> server \<Rightarrow> (unit res \<times> server) option" where
  "try_client_data fd s =
    (if (case find_by_fd (srv_registry s) fd of None \<Rightarrow> False | Some sender \<Rightarrow> is_banned s (cr_id sender))
     then Some (remove_client fd s)
     else case transport_receive (sockets s fd) of
         None \<Rightarrow> None
       | Some (received, rest) \<Rightarrow>
           let s = s\<lparr>sockets := (sockets s)(fd := rest)\<rparr> in
           (case received of
              Inl e \<Rightarrow> Some (Inl e, s)
            | Inr None \<Rightarrow> Some (if running s then remove_client fd s else (Inr (), s))
            | Inr (Some message) \<Rightarrow> Some (in_context (dispatch create_message_dispatcher fd message) s)))"

text \<open>The \<^verbatim>\<open>catch\<close> takes every C++ exception; undefined behaviour is not one.\<close>

definition handle_client_data :: "int \<Rightarrow> server \<Rightarrow> (unit res \<times> server) option" where
  "handle_client_data fd s =
    (case try_client_data fd s of
       None \<Rightarrow> None
     | Some (Inr _, s) \<Rightarrow> Some (Inr (), s)
     | Some (Inl ex, s) \<Rightarrow>
         if ex = UndefinedBehaviour then Some (Inl ex, s)
         else
           let s = srv_emit (ShowDecodeError (what ex)) s
           in Some (in_context (send_encoded fd Error (encode_error (what ex))) s))"

section \<open>Bans\<close>

fun ban_loop :: "u32 list \<Rightarrow> u32 set \<Rightarrow> u32 set \<Rightarrow> u32 list \<Rightarrow> u32 set \<times> u32 set \<times> u32 list" where
  "ban_loop [] banned free newly = (banned, free, newly)"
| "ban_loop (i # ids) banned free newly =
    (if i = 0 then ban_loop ids banned free newly
     else ban_loop ids (insert i banned) (free - {i}) (if i \<in> banned then newly else newly @ [i]))"

definition broadcast_banned_ids :: "u32 list \<Rightarrow> server \<Rightarrow> unit res \<times> server" where
  "broadcast_banned_ids ids s =
    (case encode_banned_ids ids of
       Inl e \<Rightarrow> (Inl e, s)
     | Inr p \<Rightarrow> (Inr (),
         foldl (\<lambda>s fd. case find_by_fd (srv_registry s) fd of
               None \<Rightarrow> s
             | Some client \<Rightarrow> if is_banned s (cr_id client) then s else srv_emit (Send fd BannedIds p) s)
           s (all_fds (srv_registry s))))"

fun id_list_text :: "u32 list \<Rightarrow> string" where
  "id_list_text [] = ''''"
| "id_list_text [i] = to_string (unat i)"
| "id_list_text (i # j # ids) = to_string (unat i) @ '','' @ id_list_text (j # ids)"

definition ban_ids :: "u32 list \<Rightarrow> server \<Rightarrow> unit res \<times> server" where
  "ban_ids ids s =
    (case ban_loop ids (srv_banned s) (free_ids s) [] of
       (banned, free, newly_banned) \<Rightarrow>
         let s = s\<lparr>srv_context := (srv_context s)\<lparr>banned_ids := banned\<rparr>, free_ids := free\<rparr> in
         if newly_banned = [] then (Inr (), srv_emit (ShowAdminMessage ''no new ids banned'') s)
         else case broadcast_banned_ids newly_banned s of
             (Inl e, s) \<Rightarrow> (Inl e, s)
           | (Inr _, s) \<Rightarrow>
               let s = foldl (\<lambda>s i. case fd_by_id (srv_registry s) i of
                       None \<Rightarrow> s | Some fd \<Rightarrow> srv_emit (Shutdown fd) s) s newly_banned
               in (Inr (), srv_emit (ShowAdminMessage (''banned ids='' @ id_list_text newly_banned)) s))"

fun process_admin_lines :: "string list \<Rightarrow> server \<Rightarrow> unit res \<times> server" where
  "process_admin_lines [] s = (Inr (), s)"
| "process_admin_lines (line # lines) s =
    (case parse_admin_command line of
       None \<Rightarrow> process_admin_lines lines (srv_emit (ShowAdminMessage admin_help_text) s)
     | Some command \<Rightarrow>
         (case ban_ids (ban_command_ids command) s of
            (Inl e, s) \<Rightarrow> (Inl e, s)
          | (Inr _, s) \<Rightarrow> process_admin_lines lines s))"

definition process_admin_queue :: "server \<Rightarrow> unit res \<times> server" where
  "process_admin_queue s = process_admin_lines (admin_queue s) (s\<lparr>admin_queue := []\<rparr>)"

section \<open>The poll loop\<close>

text \<open>An entry of the poll set, with the two groups of \<^verbatim>\<open>revents\<close> bits the loop looks at:
  \<^verbatim>\<open>POLLERR | POLLHUP | POLLNVAL\<close> and \<^verbatim>\<open>POLLIN\<close>.\<close>

record pollfd =
  pfd :: int
  rev_err :: bool
  rev_in :: bool

definition new_pollfd :: "int \<Rightarrow> pollfd" where
  "new_pollfd fd = \<lparr>pfd = fd, rev_err = False, rev_in = False\<rparr>"

datatype poll_result =
    PollInterrupted
  | PollError
  | PollTimeout
  | PollReady "(bool \<times> bool) list"

text \<open>What happens during one round: requests from other threads while \<^verbatim>\<open>poll\<close> waits, the result of
  \<^verbatim>\<open>poll\<close>, and what \<^verbatim>\<open>accept\<close> returns if it is called.\<close>

datatype request = StopRequest | AdminLine string

record round_input =
  requests :: "request list"
  polled :: poll_result
  accepted :: int
  accept_errno :: string

fun apply_request :: "request \<Rightarrow> server \<Rightarrow> server" where
  "apply_request StopRequest s = request_stop s"
| "apply_request (AdminLine line) s = submit_admin_line line s"

text \<open>The kernel writes the \<^verbatim>\<open>revents\<close>.\<close>

definition set_revents :: "(bool \<times> bool) list \<Rightarrow> pollfd list \<Rightarrow> pollfd list" where
  "set_revents revs ps = map2 (\<lambda>(e, i) p. p\<lparr>rev_err := e, rev_in := i\<rparr>) (revs @ replicate (length ps) (False, False)) ps"

text \<open>The loop over the client entries that reported an error or a hang-up.\<close>

fun hangup_loop :: "server \<Rightarrow> pollfd list \<Rightarrow> (unit res \<times> server) \<times> pollfd list" where
  "hangup_loop s [] = ((Inr (), s), [])"
| "hangup_loop s (p # ps) =
    (if rev_err p then
       (case (if running s then remove_client (pfd p) s else (Inr (), s)) of
          (Inl e, s) \<Rightarrow> ((Inl e, s), p # ps)
        | (Inr _, s) \<Rightarrow> (case hangup_loop s ps of (r, ps) \<Rightarrow> (r, p\<lparr>pfd := -1\<rparr> # ps)))
     else (case hangup_loop s ps of (r, ps) \<Rightarrow> (r, p # ps)))"

text \<open>The loop over the readable entries. Entries added by \<^verbatim>\<open>accept_client\<close> have no \<^verbatim>\<open>revents\<close>, so the
  loop passes over them; they are collected in \<open>added\<close> and end up behind the others.\<close>

fun data_loop ::
  "int \<Rightarrow> string \<Rightarrow> server \<Rightarrow> pollfd list \<Rightarrow> pollfd list \<Rightarrow> ((unit res \<times> server) \<times> pollfd list) option" where
  "data_loop acc err s [] added = Some ((Inr (), s), added)"
| "data_loop acc err s (p # ps) added =
    (if pfd p < 0 \<or> \<not> rev_in p then
       map_option (\<lambda>(r, ps). (r, p # ps)) (data_loop acc err s ps added)
     else if pfd p = listen_fd s then
       (case accept_client acc err s of
          None \<Rightarrow> None
        | Some ((Inl e, new), s) \<Rightarrow> Some ((Inl e, s), p # ps @ added @ map new_pollfd new)
        | Some ((Inr _, new), s) \<Rightarrow>
            map_option (\<lambda>(r, ps). (r, p # ps)) (data_loop acc err s ps (added @ map new_pollfd new)))
     else
       (case handle_client_data (pfd p) s of
          None \<Rightarrow> None
        | Some (Inl e, s) \<Rightarrow> Some ((Inl e, s), p # ps @ added)
        | Some (Inr _, s) \<Rightarrow>
            let p' = (if find_by_fd (srv_registry s) (pfd p) = None then p\<lparr>pfd := -1\<rparr> else p)
            in map_option (\<lambda>(r, ps). (r, p' # ps)) (data_loop acc err s ps added)))"

text \<open>How the loop of \<^verbatim>\<open>run\<close> goes on after one round.\<close>

datatype round_end =
    NextRound server "pollfd list"
  | LeaveLoop server
  | Throw exn server
  | Stuck

definition run_round :: "round_input \<Rightarrow> server \<Rightarrow> pollfd list \<Rightarrow> round_end" where
  "run_round inp s ps =
    (case process_admin_queue s of
       (Inl e, s) \<Rightarrow> Throw e s
     | (Inr _, s) \<Rightarrow>
         let s = foldl (\<lambda>s q. apply_request q s) s (requests inp) in
         (case polled inp of
            PollInterrupted \<Rightarrow> NextRound s ps
          | PollError \<Rightarrow> if \<not> running s then LeaveLoop s else Throw (RuntimeError ''poll failed'') s
          | PollTimeout \<Rightarrow> NextRound s ps
          | PollReady revs \<Rightarrow>
              let ps = set_revents revs ps in
              (case hangup_loop s (drop 1 ps) of
                 ((Inl e, s), _) \<Rightarrow> Throw e s
               | ((Inr _, s), rest) \<Rightarrow>
                   if \<not> running s then LeaveLoop s
                   else case data_loop (accepted inp) (accept_errno inp) s (take 1 ps @ rest) [] of
                       None \<Rightarrow> Stuck
                     | Some ((Inl e, s), _) \<Rightarrow> Throw e s
                     | Some ((Inr _, s), ps) \<Rightarrow> NextRound s (filter (\<lambda>p. \<not> pfd p < 0) ps))))"

text \<open>The loop itself, over the inputs of its rounds: it is waiting for the next round when the inputs
  run out.\<close>

datatype run_result =
    Waiting server "pollfd list"
  | Returned server
  | Threw exn server
  | Blocked

fun run_loop :: "round_input list \<Rightarrow> server \<Rightarrow> pollfd list \<Rightarrow> run_result" where
  "run_loop inps s ps =
    (if \<not> running s then Returned (disconnect_all_clients s)
     else case inps of
         [] \<Rightarrow> Waiting s ps
       | inp # inps \<Rightarrow>
           (case run_round inp s ps of
              NextRound s ps \<Rightarrow> run_loop inps s ps
            | LeaveLoop s \<Rightarrow> Returned (disconnect_all_clients s)
            | Throw e s \<Rightarrow> Threw e s
            | Stuck \<Rightarrow> Blocked))"

declare run_loop.simps [simp del]

definition server_run :: "string \<Rightarrow> u16 \<Rightarrow> round_input list \<Rightarrow> server \<Rightarrow> run_result" where
  "server_run bind_ip port inps s =
    run_loop inps (srv_emit (ShowListening bind_ip port) s) [new_pollfd (listen_fd s)]"

section \<open>Frame lemmas\<close>

lemma srv_emit_simps [simp]:
  "ctx_registry (srv_context (srv_emit e s)) = srv_registry s"
  "banned_ids (srv_context (srv_emit e s)) = srv_banned s"
  "trace (srv_context (srv_emit e s)) = srv_trace s @ [e]"
  "next_id (srv_emit e s) = next_id s" "free_ids (srv_emit e s) = free_ids s"
  "running (srv_emit e s) = running s" "admin_queue (srv_emit e s) = admin_queue s"
  "listen_fd (srv_emit e s) = listen_fd s" "sockets (srv_emit e s) = sockets s"
  "is_banned (srv_emit e s) = is_banned s"
  by (simp_all add: srv_emit_def is_banned_def fun_eq_iff)

lemma srv_emit_upd:
  "srv_emit e (s\<lparr>srv_context := ctx\<lparr>trace := es\<rparr>\<rparr>) = s\<lparr>srv_context := ctx\<lparr>trace := es @ [e]\<rparr>\<rparr>"
  by (simp add: srv_emit_def emit_def)

lemma in_context_simps [simp]:
  "fst (in_context f s) = fst (f (srv_context s))"
  "srv_context (snd (in_context f s)) = snd (f (srv_context s))"
  "next_id (snd (in_context f s)) = next_id s" "free_ids (snd (in_context f s)) = free_ids s"
  "running (snd (in_context f s)) = running s" "admin_queue (snd (in_context f s)) = admin_queue s"
  "listen_fd (snd (in_context f s)) = listen_fd s" "sockets (snd (in_context f s)) = sockets s"
  by (simp_all add: in_context_def split: prod.split)

lemma user_left_frame [simp]:
  "ctx_registry (snd (user_left i n ctx)) = ctx_registry ctx"
  "banned_ids (snd (user_left i n ctx)) = banned_ids ctx"
  by (simp_all add: user_left_def split: sum.split)

lemma release_client_id_simps [simp]:
  "srv_context (release_client_id i s) = srv_context s"
  "next_id (release_client_id i s) = next_id s"
  "free_ids (release_client_id i s) = (if is_banned s i then free_ids s else insert i (free_ids s))"
  "running (release_client_id i s) = running s" "admin_queue (release_client_id i s) = admin_queue s"
  "listen_fd (release_client_id i s) = listen_fd s" "sockets (release_client_id i s) = sockets s"
  by (simp_all add: release_client_id_def)

lemma is_banned_upd [simp]:
  "is_banned (s\<lparr>srv_context := (srv_context s)\<lparr>ctx_registry := r\<rparr>\<rparr>) = is_banned s"
  by (simp add: is_banned_def fun_eq_iff)

text \<open>A loop that only emits effects.\<close>

lemma foldl_srv_emit:
  assumes "\<And>s' x. srv_registry s' = srv_registry s \<Longrightarrow> srv_banned s' = srv_banned s \<Longrightarrow>
    g s' x = (if P x then srv_emit (f x) s' else s')"
  shows "foldl g s xs = s\<lparr>srv_context := (srv_context s)\<lparr>trace := srv_trace s @ map f (filter P xs)\<rparr>\<rparr>"
  using assms
proof (induction xs arbitrary: s)
  case (Cons x xs)
  have "foldl g (g s x) xs =
      (g s x)\<lparr>srv_context := (srv_context (g s x))\<lparr>trace := srv_trace (g s x) @ map f (filter P xs)\<rparr>\<rparr>"
    by (rule Cons.IH) (simp add: Cons.prems)
  then show ?case using Cons.prems[of s x] by (simp add: srv_emit_def emit_def)
qed simp

lemma request_stop_eq:
  "request_stop s = s\<lparr>running := False, listen_fd := -1,
     srv_context := (srv_context s)\<lparr>trace := srv_trace s @ map Shutdown (all_fds (srv_registry s))\<rparr>\<rparr>"
  unfolding request_stop_def
  by (subst foldl_srv_emit[where P = "\<lambda>_. True" and f = Shutdown]) simp_all

text \<open>The clients that a notice about bans goes to.\<close>

definition not_banned_fds :: "server \<Rightarrow> int list" where
  "not_banned_fds s =
    filter (\<lambda>f. case find_by_fd (srv_registry s) f of None \<Rightarrow> False | Some c \<Rightarrow> \<not> is_banned s (cr_id c))
      (all_fds (srv_registry s))"

lemma broadcast_banned_ids_eq:
  "broadcast_banned_ids ids s =
    (case encode_banned_ids ids of
       Inl e \<Rightarrow> (Inl e, s)
     | Inr p \<Rightarrow> (Inr (), s\<lparr>srv_context := (srv_context s)\<lparr>trace := srv_trace s @
         map (\<lambda>f. Send f BannedIds p) (not_banned_fds s)\<rparr>\<rparr>))"
proof (cases "encode_banned_ids ids")
  case (Inr p)
  then show ?thesis
    unfolding broadcast_banned_ids_def not_banned_fds_def
    by (simp, subst foldl_srv_emit[where f = "\<lambda>f. Send f BannedIds p" and
          P = "\<lambda>f. case find_by_fd (srv_registry s) f of None \<Rightarrow> False | Some c \<Rightarrow> \<not> is_banned s (cr_id c)"])
      (auto simp: is_banned_def split: option.split)
qed (simp add: broadcast_banned_ids_def)

lemma not_banned_fds_iff:
  "f \<in> set (not_banned_fds s) \<longleftrightarrow> (\<exists>c. find_by_fd (srv_registry s) f = Some c \<and> cr_id c \<notin> srv_banned s)"
  by (auto simp: not_banned_fds_def set_all_fds is_banned_def split: option.splits)

text \<open>The state after a removal, without the effects.\<close>

lemma remove_client_simps:
  "srv_registry (snd (remove_client fd s)) = snd (registry_remove (srv_registry s) fd)"
  "srv_banned (snd (remove_client fd s)) = srv_banned s"
  "next_id (snd (remove_client fd s)) = next_id s"
  "free_ids (snd (remove_client fd s)) =
     (case find_by_fd (srv_registry s) fd of
        None \<Rightarrow> free_ids s
      | Some c \<Rightarrow> if is_banned s (cr_id c) then free_ids s else insert (cr_id c) (free_ids s))"
  "running (snd (remove_client fd s)) = running s"
  "admin_queue (snd (remove_client fd s)) = admin_queue s"
  "listen_fd (snd (remove_client fd s)) = listen_fd s"
  "sockets (snd (remove_client fd s)) = sockets s"
  by (simp_all add: remove_client_def registry_remove_def Let_def split: option.split)

lemma disconnect_client_simps:
  "srv_registry (disconnect_client s fd) = snd (registry_remove (srv_registry s) fd)"
  "srv_banned (disconnect_client s fd) = srv_banned s"
  "next_id (disconnect_client s fd) = next_id s"
  "free_ids (disconnect_client s fd) =
     (case find_by_fd (srv_registry s) fd of
        None \<Rightarrow> free_ids s
      | Some c \<Rightarrow> if is_banned s (cr_id c) then free_ids s else insert (cr_id c) (free_ids s))"
  "running (disconnect_client s fd) = running s"
  "listen_fd (disconnect_client s fd) = listen_fd s"
  by (simp_all add: disconnect_client_def registry_remove_def Let_def split: option.split)

section \<open>Id allocation\<close>

lemma take_free_cases:
  "(case take_free B F of
      (Some i, F') \<Rightarrow> i \<in> F \<and> i \<notin> B \<and> (\<forall>j \<in> F. j \<notin> B \<longrightarrow> i \<le> j) \<and> F' \<subseteq> F - {i} \<and> F - B - {i} \<subseteq> F'
    | (None, F') \<Rightarrow> F' = {} \<and> F \<subseteq> B)"
proof (induction B F rule: take_free.induct)
  case (1 B F)
  show ?case
  proof (cases "F = {}")
    case True
    then show ?thesis by (simp add: take_free.simps[of B "{}"])
  next
    case False
    then have m: "Min F \<in> F" "\<forall>j \<in> F. Min F \<le> j" by simp_all
    show ?thesis
    proof (cases "Min F \<in> B")
      case True
      have "take_free B F = take_free B (F - {Min F})" using False True by (simp add: take_free.simps[of B F])
      moreover have "case take_free B (F - {Min F}) of
          (Some i, F') \<Rightarrow> i \<in> F - {Min F} \<and> i \<notin> B \<and> (\<forall>j \<in> F - {Min F}. j \<notin> B \<longrightarrow> i \<le> j) \<and>
            F' \<subseteq> F - {Min F} - {i} \<and> F - {Min F} - B - {i} \<subseteq> F'
        | (None, F') \<Rightarrow> F' = {} \<and> F - {Min F} \<subseteq> B"
        using 1 False True by simp
      ultimately show ?thesis using True m by (auto split: prod.splits option.splits)
    next
      case False
      then show ?thesis using \<open>F \<noteq> {}\<close> m by (auto simp: take_free.simps[of B F] Let_def)
    qed
  qed
qed

lemma skip_banned_next: "i \<in> B \<Longrightarrow> skip_banned B i = skip_banned B (i + 1)"
  by (subst skip_banned.simps) simp

lemma skip_banned_here: "i \<notin> B \<Longrightarrow> skip_banned B i = Some i"
  by (subst skip_banned.simps) simp

text \<open>The loop stops at the first id, counting up and around, that is not banned.\<close>

lemma skip_banned_steps: "\<forall>j < k. n + word_of_nat j \<in> B \<Longrightarrow> skip_banned B n = skip_banned B (n + word_of_nat k)"
proof (induction k)
  case (Suc k)
  have "skip_banned B n = skip_banned B (n + word_of_nat k)" using Suc by simp
  also have "\<dots> = skip_banned B (n + word_of_nat k + 1)" using Suc.prems by (intro skip_banned_next) simp
  finally show ?case by (simp add: algebra_simps)
qed simp

lemma skip_banned_total:
  assumes "i \<notin> B"
  obtains k where "skip_banned B n = Some (n + word_of_nat k)" "n + word_of_nat k \<notin> B"
    "\<forall>j < k. n + word_of_nat j \<in> B"
proof -
  let ?P = "\<lambda>k. n + word_of_nat k \<notin> B"
  have "?P (unat (i - n))" using assms by simp
  define k where "k = (LEAST k. ?P k)"
  have k: "?P k" unfolding k_def by (rule LeastI) fact
  have less: "\<forall>j < k. n + word_of_nat j \<in> B" using not_less_Least unfolding k_def by blast
  show thesis
    by (rule that[OF _ k less]) (simp add: skip_banned_steps[OF less] skip_banned_here[OF k])
qed

lemma skip_banned_full: "skip_banned UNIV n = None"
proof -
  have "skip_banned B n = Some i \<Longrightarrow> i \<notin> B" for B n i
    by (erule skip_banned.raw_induct[where P = "\<lambda>B n i. i \<notin> B", rotated]) (auto split: if_splits)
  then show ?thesis by (cases "skip_banned UNIV n") auto
qed

lemma word_of_nat_inj_u32: "m < 2 ^ 32 \<Longrightarrow> n < 2 ^ 32 \<Longrightarrow> (word_of_nat m :: u32) = word_of_nat n \<Longrightarrow> m = n"
  by (drule arg_cong[of _ _ unat]) (simp add: unat_of_nat)

lemma skip_banned_bounded:
  assumes "unat n + card B < 2 ^ 32 - 1"
  obtains k where "k \<le> card B" "skip_banned B n = Some (n + word_of_nat k)" "n + word_of_nat k \<notin> B"
    "unat (n + word_of_nat k) = unat n + k"
proof -
  have "inj_on (\<lambda>j. n + word_of_nat j) {..card B}"
  proof (rule inj_onI)
    fix x y
    assume xy: "x \<in> {..card B}" "y \<in> {..card B}" "n + word_of_nat x = n + word_of_nat y"
    then have "x < 2 ^ 32" "y < 2 ^ 32" using assms by simp_all
    moreover have "(word_of_nat x :: u32) = word_of_nat y" using xy(3) by (rule add_left_imp_eq)
    ultimately show "x = y" by (rule word_of_nat_inj_u32)
  qed
  then have "card ((\<lambda>j. n + word_of_nat j) ` {..card B}) = Suc (card B)" by (simp add: card_image)
  then have "\<not> (\<lambda>j. n + word_of_nat j) ` {..card B} \<subseteq> B"
    using card_mono[of B "(\<lambda>j. n + word_of_nat j) ` {..card B}"] by (metis finite Suc_n_not_le_n)
  then obtain j where j: "j \<le> card B" "n + word_of_nat j \<notin> B" by auto
  obtain k where k: "skip_banned B n = Some (n + word_of_nat k)" "n + word_of_nat k \<notin> B"
    "\<forall>j < k. n + word_of_nat j \<in> B" using skip_banned_total[OF j(2)] .
  then have "k \<le> card B" using j not_less by (metis order.trans)
  moreover from this have "unat (n + word_of_nat k) = unat n + k"
    using assms by (simp add: unat_word_ariths unat_of_nat)
  ultimately show thesis using k that by blast
qed

section \<open>The invariant of the server\<close>

definition id_in_use :: "server \<Rightarrow> u32 \<Rightarrow> bool" where
  "id_in_use s i \<longleftrightarrow> (\<exists>fd c. find_by_fd (srv_registry s) fd = Some c \<and> cr_id c = i)"

definition server_inv :: "server \<Rightarrow> bool" where
  "server_inv s \<longleftrightarrow>
    registry_inv (srv_registry s) \<and>
    0 < next_id s \<and>
    0 \<notin> srv_banned s \<and>
    (\<forall>i \<in> free_ids s. 0 < i \<and> i < next_id s \<and> i \<notin> srv_banned s) \<and>
    (\<forall>i. id_in_use s i \<longrightarrow> 0 < i \<and> i < next_id s \<and> i \<notin> free_ids s) \<and>
    (\<forall>fd \<in> set (all_fds (srv_registry s)). 0 \<le> fd)"

lemma server_invD:
  assumes "server_inv s"
  shows "registry_inv (srv_registry s)" "0 < next_id s" "0 \<notin> srv_banned s"
    "i \<in> free_ids s \<Longrightarrow> 0 < i" "i \<in> free_ids s \<Longrightarrow> i < next_id s" "i \<in> free_ids s \<Longrightarrow> i \<notin> srv_banned s"
    "id_in_use s i \<Longrightarrow> 0 < i" "id_in_use s i \<Longrightarrow> i < next_id s" "id_in_use s i \<Longrightarrow> i \<notin> free_ids s"
    "fd \<in> set (all_fds (srv_registry s)) \<Longrightarrow> 0 \<le> fd"
  using assms by (auto simp: server_inv_def)

text \<open>The invariant does not look at effects, queues and sockets.\<close>

lemma server_inv_cong:
  "srv_registry s' = srv_registry s \<Longrightarrow> srv_banned s' = srv_banned s \<Longrightarrow> next_id s' = next_id s \<Longrightarrow>
   free_ids s' = free_ids s \<Longrightarrow> server_inv s' \<longleftrightarrow> server_inv s"
  by (simp add: server_inv_def id_in_use_def)

lemma server_inv_emit [simp]: "server_inv (srv_emit e s) \<longleftrightarrow> server_inv s"
  by (rule server_inv_cong) simp_all

text \<open>There are ids left to hand out: the counter has not come near its end.\<close>

definition ids_left :: "server \<Rightarrow> bool" where
  "ids_left s \<longleftrightarrow> unat (next_id s) + card (srv_banned s) < 2 ^ 32 - 1"

lemma allocate_fresh:
  assumes "server_inv s" and "ids_left s"
  obtains i F n where "allocate_client_id s = Some (i, s\<lparr>free_ids := F, next_id := n\<rparr>)"
    "i \<notin> srv_banned s" "0 < i" "i < n" "next_id s \<le> n" "F \<subseteq> free_ids s - {i}" "\<not> id_in_use s i"
proof (cases "take_free (srv_banned s) (free_ids s)")
  case (Pair r F)
  show thesis
  proof (cases r)
    case (Some i)
    then have i: "i \<in> free_ids s" "i \<notin> srv_banned s" "F \<subseteq> free_ids s - {i}"
      using take_free_cases[where B = "srv_banned s" and F = "free_ids s"] Pair by simp_all
    then show thesis
      using Some Pair server_invD(4-6,9)[OF assms(1), of i]
      by (intro that[where i = i and F = F and n = "next_id s"]) (auto simp: allocate_client_id_def)
  next
    case None
    then have F: "F = {}" using take_free_cases[where B = "srv_banned s" and F = "free_ids s"] Pair by simp
    obtain k where k: "skip_banned (srv_banned s) (next_id s) = Some (next_id s + word_of_nat k)"
      "next_id s + word_of_nat k \<notin> srv_banned s" "k \<le> card (srv_banned s)"
      "unat (next_id s + word_of_nat k) = unat (next_id s) + k"
      using skip_banned_bounded[of "next_id s" "srv_banned s"] assms(2) unfolding ids_left_def by blast
    define i where "i = next_id s + word_of_nat k"
    have "unat (i + 1) = unat i + 1"
      using k(3,4) assms(2) by (simp add: i_def ids_left_def unat_word_ariths)
    then have i: "next_id s \<le> i" "i < i + 1"
      using k(4) by (simp_all add: i_def word_le_nat_alt word_less_nat_alt)
    then have "\<not> id_in_use s i" using server_invD(8)[OF assms(1), of i] by fastforce
    moreover have "0 < i" using i(1) server_invD(2)[OF assms(1)] by (rule order.strict_trans2[rotated])
    ultimately show thesis
      using None Pair F k(1,2) i
      by (intro that[where i = i and F = F and n = "i + 1"]) (auto simp: allocate_client_id_def i_def[symmetric])
  qed
qed

section \<open>Every operation keeps the invariant\<close>

lemma server_inv_removed:
  assumes "server_inv s"
    and s': "srv_registry s' = snd (registry_remove (srv_registry s) fd)" "srv_banned s' = srv_banned s"
      "next_id s' = next_id s"
      "free_ids s' = (case find_by_fd (srv_registry s) fd of
          None \<Rightarrow> free_ids s
        | Some c \<Rightarrow> if is_banned s (cr_id c) then free_ids s else insert (cr_id c) (free_ids s))"
  shows "server_inv s'"
proof (cases "find_by_fd (srv_registry s) fd")
  case None
  then show ?thesis
    using assms server_inv_cong[of s' s] by (simp add: registry_remove_def)
next
  case (Some c)
  have use: "id_in_use s (cr_id c)" using Some by (auto simp: id_in_use_def)
  have use': "id_in_use s i \<and> i \<noteq> cr_id c" if u: "id_in_use s' i" for i
  proof -
    obtain f d where f: "f \<noteq> fd" "find_by_fd (srv_registry s) f = Some d" "cr_id d = i"
      using u by (auto simp: id_in_use_def s'(1) split: if_splits)
    then have "cr_id d \<noteq> cr_id c" using registry_id_inj[OF server_invD(1)[OF assms(1)] f(2) Some] by blast
    with f show ?thesis by (auto simp: id_in_use_def)
  qed
  have "i \<in> free_ids s' \<Longrightarrow> 0 < i \<and> i < next_id s \<and> i \<notin> srv_banned s" for i
    using server_invD(4-6)[OF assms(1), of i] server_invD(7,8)[OF assms(1) use] Some s'(4)
    by (auto simp: is_banned_def split: if_splits)
  moreover have "id_in_use s' i \<Longrightarrow> 0 < i \<and> i < next_id s \<and> i \<notin> free_ids s'" for i
    using use'[of i] server_invD(7-9)[OF assms(1), of i] Some s'(4) by (auto split: if_splits)
  ultimately show ?thesis
    using server_invD[OF assms(1)] s'(1-3)
    by (auto simp: server_inv_def registry_inv_remove all_fds_remove)
qed

lemma server_inv_remove: "server_inv s \<Longrightarrow> server_inv (snd (remove_client fd s))"
  by (erule server_inv_removed[where fd = fd]) (rule remove_client_simps)+

lemma server_inv_disconnect: "server_inv s \<Longrightarrow> server_inv (disconnect_client s fd)"
  by (erule server_inv_removed[where fd = fd]) (rule disconnect_client_simps)+

lemma server_inv_disconnect_all: "server_inv s \<Longrightarrow> server_inv (disconnect_all_clients s)"
proof -
  have "server_inv s \<Longrightarrow> server_inv (foldl disconnect_client s fds)" for fds s
    by (induction fds arbitrary: s) (simp_all add: server_inv_disconnect)
  then show "server_inv s \<Longrightarrow> server_inv (disconnect_all_clients s)" by (simp add: disconnect_all_clients_def)
qed

text \<open>What \<^verbatim>\<open>accept_client\<close> makes of a fresh descriptor.\<close>

lemma accept_client_eq:
  assumes "0 \<le> fd" and "allocate_client_id s = Some (i, s1)"
  shows "accept_client fd err s =
    Some ((Inr (), [fd]), s1\<lparr>srv_context := presence_broadcast UserJoined (user_info_bytes \<lparr>ui_id = i, ui_nickname = ''''\<rparr>) fd
      (emit (Send fd AssignId (encode_assign_id i (all_fds (srv_registry s) = [])))
        (emit (ShowClientConnected i)
          ((srv_context s1)\<lparr>ctx_registry := snd (registry_add (srv_registry s1) fd i)\<rparr>)))\<rparr>)"
proof -
  have "encode_user_joined i '''' = Inr (user_info_bytes \<lparr>ui_id = i, ui_nickname = ''''\<rparr>)"
    by (simp add: encode_user_joined_def good_user_def)
  moreover obtain reg where
    "registry_add (srv_registry s1) fd i = (\<lparr>cr_fd = fd, cr_id = i, cr_nickname = '''', cr_registered = False\<rparr>, reg)"
    using registry_add_rec[of "srv_registry s1" fd i] by (cases "registry_add (srv_registry s1) fd i") simp
  ultimately show ?thesis
    using assms by (simp add: accept_client_def Let_def in_context_def user_joined_def srv_emit_def)
qed

lemma server_inv_accept:
  assumes "server_inv s" and "ids_left s" and "find_by_fd (srv_registry s) fd = None"
    and "accept_client fd err s = Some (r, s')"
  shows "server_inv s'"
proof (cases "fd < 0")
  case True
  then show ?thesis using assms by (auto simp: accept_client_def)
next
  case False
  obtain i F n where a: "allocate_client_id s = Some (i, s\<lparr>free_ids := F, next_id := n\<rparr>)"
    "i \<notin> srv_banned s" "0 < i" "i < n" "next_id s \<le> n" "F \<subseteq> free_ids s - {i}" "\<not> id_in_use s i"
    using allocate_fresh[OF assms(1,2)] .
  let ?r = "snd (registry_add (srv_registry s) fd i)"
  have s': "srv_registry s' = ?r" "srv_banned s' = srv_banned s" "next_id s' = n" "free_ids s' = F"
    using accept_client_eq[OF _ a(1), of fd err] False assms(4) by auto
  have use: "id_in_use s' j \<longleftrightarrow> id_in_use s j \<or> j = i" for j
    using assms(3) by (auto simp: id_in_use_def s'(1)) (metis option.distinct(1))
  have "fd_by_id (srv_registry s) i = None"
    using a(7) reg.by_id_None_iff[OF server_invD(1)[OF assms(1)]] by (auto simp: id_in_use_def)
  then have inv: "registry_inv ?r" using assms(3) server_invD(1)[OF assms(1)] by (intro registry_inv_add)
  have lt: "j < n" if "j < next_id s" for j using that a(5) by (rule order.strict_trans2)
  show ?thesis
    unfolding server_inv_def s' use
  proof (intro conjI)
    show "0 < n" using lt server_invD(2)[OF assms(1)] .
    show "\<forall>j\<in>F. 0 < j \<and> j < n \<and> j \<notin> srv_banned s"
      using a(6) lt server_invD(4-6)[OF assms(1)] by blast
    show "\<forall>j. id_in_use s j \<or> j = i \<longrightarrow> 0 < j \<and> j < n \<and> j \<notin> F"
      using a(3,4,6) lt server_invD(7-9)[OF assms(1)] by blast
    show "\<forall>f\<in>set (all_fds ?r). 0 \<le> f"
      using False server_invD(10)[OF assms(1)] by (simp add: all_fds_add)
  qed (use inv server_invD(3)[OF assms(1)] in simp_all)
qed

lemma ban_loop_eq:
  "ban_loop ids B F acc = (B', F', newly) \<Longrightarrow>
   B' = B \<union> (set ids - {0}) \<and> F' = F - (set ids - {0}) \<and> set newly = set acc \<union> (set ids - {0} - B) \<and>
   (distinct acc \<and> set acc \<subseteq> B \<longrightarrow> distinct newly)"
proof (induction ids B F acc rule: ban_loop.induct)
  case (2 i ids B F acc)
  show ?case
  proof (cases "i = 0")
    case True
    then have "ban_loop ids B F acc = (B', F', newly)" using "2.prems" by simp
    from "2.IH"(1)[OF True this] True show ?thesis by simp
  next
    case False
    then have "ban_loop ids (insert i B) (F - {i}) (if i \<in> B then acc else acc @ [i]) = (B', F', newly)"
      using "2.prems" by simp
    from "2.IH"(2)[OF False this] False show ?thesis by (cases "i \<in> B") auto
  qed
qed simp

lemma broadcast_banned_ids_frame [simp]:
  "srv_registry (snd (broadcast_banned_ids ids s)) = srv_registry s"
  "srv_banned (snd (broadcast_banned_ids ids s)) = srv_banned s"
  "next_id (snd (broadcast_banned_ids ids s)) = next_id s"
  "free_ids (snd (broadcast_banned_ids ids s)) = free_ids s"
  "running (snd (broadcast_banned_ids ids s)) = running s"
  "listen_fd (snd (broadcast_banned_ids ids s)) = listen_fd s"
  by (simp_all add: broadcast_banned_ids_eq split: sum.split)

text \<open>The bans themselves, before anybody is told.\<close>

definition with_bans :: "u32 list \<Rightarrow> server \<Rightarrow> server" where
  "with_bans ids s = s\<lparr>srv_context := (srv_context s)\<lparr>banned_ids := srv_banned s \<union> (set ids - {0})\<rparr>,
     free_ids := free_ids s - (set ids - {0})\<rparr>"

lemma with_bans_simps [simp]:
  "srv_registry (with_bans ids s) = srv_registry s"
  "srv_banned (with_bans ids s) = srv_banned s \<union> (set ids - {0})"
  "srv_trace (with_bans ids s) = srv_trace s"
  "next_id (with_bans ids s) = next_id s" "free_ids (with_bans ids s) = free_ids s - (set ids - {0})"
  "running (with_bans ids s) = running s" "listen_fd (with_bans ids s) = listen_fd s"
  by (simp_all add: with_bans_def)

definition connected_fds :: "server \<Rightarrow> u32 list \<Rightarrow> int list" where
  "connected_fds s ids = map (\<lambda>i. the (fd_by_id (srv_registry s) i))
     (filter (\<lambda>i. fd_by_id (srv_registry s) i \<noteq> None) ids)"

lemma ban_ids_cases:
  obtains newly where "distinct newly" "set newly = set ids - {0} - srv_banned s"
    "ban_ids ids s =
      (if newly = [] then (Inr (), srv_emit (ShowAdminMessage ''no new ids banned'') (with_bans ids s))
       else case encode_banned_ids newly of
           Inl e \<Rightarrow> (Inl e, with_bans ids s)
         | Inr p \<Rightarrow> (Inr (), (with_bans ids s)\<lparr>srv_context := (srv_context (with_bans ids s))\<lparr>trace :=
               srv_trace s @ map (\<lambda>f. Send f BannedIds p) (not_banned_fds (with_bans ids s)) @
               map Shutdown (connected_fds s newly) @
               [ShowAdminMessage (''banned ids='' @ id_list_text newly)]\<rparr>\<rparr>))"
proof -
  obtain B F newly where bl: "ban_loop ids (srv_banned s) (free_ids s) [] = (B, F, newly)"
    by (cases "ban_loop ids (srv_banned s) (free_ids s) []")
  note b = ban_loop_eq[OF bl]
  let ?s = "with_bans ids s"
  have s1: "s\<lparr>srv_context := (srv_context s)\<lparr>banned_ids := B\<rparr>, free_ids := F\<rparr> = ?s"
    using b by (simp add: with_bans_def)
  have sh: "foldl (\<lambda>s i. case fd_by_id (srv_registry s) i of None \<Rightarrow> s | Some fd \<Rightarrow> srv_emit (Shutdown fd) s) s' newly =
      s'\<lparr>srv_context := (srv_context s')\<lparr>trace := srv_trace s' @ map Shutdown (connected_fds s newly)\<rparr>\<rparr>"
    if "srv_registry s' = srv_registry s" for s'
    using that by (subst foldl_srv_emit[where P = "\<lambda>i. fd_by_id (srv_registry s) i \<noteq> None" and
          f = "\<lambda>i. Shutdown (the (fd_by_id (srv_registry s) i))"])
      (auto simp: connected_fds_def comp_def split: option.split)
  show thesis
  proof (rule that[of newly])
    show "ban_ids ids s =
      (if newly = [] then (Inr (), srv_emit (ShowAdminMessage ''no new ids banned'') ?s)
       else case encode_banned_ids newly of
           Inl e \<Rightarrow> (Inl e, ?s)
         | Inr p \<Rightarrow> (Inr (), ?s\<lparr>srv_context := (srv_context ?s)\<lparr>trace :=
               srv_trace s @ map (\<lambda>f. Send f BannedIds p) (not_banned_fds ?s) @
               map Shutdown (connected_fds s newly) @
               [ShowAdminMessage (''banned ids='' @ id_list_text newly)]\<rparr>\<rparr>))"
      unfolding ban_ids_def bl Let_def prod.case s1 broadcast_banned_ids_eq
      by (cases "encode_banned_ids newly") (simp_all add: sh srv_emit_upd)
  qed (use b in simp_all)
qed

lemma ban_ids_frame:
  "srv_registry (snd (ban_ids ids s)) = srv_registry s"
  "srv_banned (snd (ban_ids ids s)) = srv_banned s \<union> (set ids - {0})"
  "next_id (snd (ban_ids ids s)) = next_id s"
  "free_ids (snd (ban_ids ids s)) = free_ids s - (set ids - {0})"
  "running (snd (ban_ids ids s)) = running s"
  "listen_fd (snd (ban_ids ids s)) = listen_fd s"
  by (rule ban_ids_cases[of ids s], simp split: sum.split)+

lemma server_inv_ban: "server_inv s \<Longrightarrow> server_inv (snd (ban_ids ids s))"
  by (simp add: server_inv_def id_in_use_def ban_ids_frame)

lemma process_admin_lines_keep:
  assumes emit: "\<And>e s. Q s \<Longrightarrow> Q (srv_emit e s)" and ban: "\<And>ids s. Q s \<Longrightarrow> Q (snd (ban_ids ids s))"
  shows "Q s \<Longrightarrow> Q (snd (process_admin_lines lines s))"
proof (induction lines arbitrary: s)
  case (Cons line lines)
  show ?case
  proof (cases "parse_admin_command line")
    case None
    then show ?thesis using Cons emit by simp
  next
    case (Some command)
    obtain r s1 where b: "ban_ids (ban_command_ids command) s = (r, s1)" by (cases "ban_ids (ban_command_ids command) s")
    then have "Q s1" using ban[OF Cons.prems, of "ban_command_ids command"] by simp
    then show ?thesis using Some b Cons.IH by (cases r) simp_all
  qed
qed simp

lemma process_admin_lines_inv: "server_inv s \<Longrightarrow> server_inv (snd (process_admin_lines lines s))"
  by (rule process_admin_lines_keep) (simp_all add: server_inv_ban)

lemma server_inv_admin: "server_inv s \<Longrightarrow> server_inv (snd (process_admin_queue s))"
  unfolding process_admin_queue_def
  by (rule process_admin_lines_inv) (simp add: server_inv_def id_in_use_def)

lemma id_in_use_alt: "id_in_use s i \<longleftrightarrow> (\<exists>fd. map_option cr_id (find_by_fd (srv_registry s) fd) = Some i)"
  by (simp add: id_in_use_def)

lemma server_inv_context:
  assumes "server_inv s" and "registry_inv (ctx_registry ctx)" and "banned_ids ctx = srv_banned s"
    and "\<And>f. map_option cr_id (find_by_fd (ctx_registry ctx) f) = map_option cr_id (find_by_fd (srv_registry s) f)"
    and "all_fds (ctx_registry ctx) = all_fds (srv_registry s)"
  shows "server_inv (s\<lparr>srv_context := ctx\<rparr>)"
proof -
  have "id_in_use (s\<lparr>srv_context := ctx\<rparr>) i \<longleftrightarrow> id_in_use s i" for i
    by (simp add: id_in_use_alt assms(4))
  then show ?thesis using assms(1-3,5) by (simp add: server_inv_def)
qed

lemma server_inv_sockets [simp]: "server_inv (s\<lparr>sockets := f\<rparr>) \<longleftrightarrow> server_inv s"
  by (rule server_inv_cong) simp_all

lemma in_context_upd: "snd (in_context f s) = s\<lparr>srv_context := snd (f (srv_context s))\<rparr>"
  by (simp add: in_context_def split: prod.split)

lemma server_inv_dispatch: "server_inv s \<Longrightarrow> server_inv (snd (in_context (dispatch hs fd m) s))"
  unfolding in_context_upd
  by (rule server_inv_context)
    (simp_all add: dispatcher.keeps_inv dispatcher.keeps_banned dispatcher.keeps_clients dispatcher.keeps_order server_invD(1))

lemma server_inv_try: "try_client_data fd s = Some p \<Longrightarrow> server_inv s \<Longrightarrow> server_inv (snd p)"
  by (auto simp: try_client_data_def Let_def server_inv_remove server_inv_dispatch
      split: if_splits option.splits sum.splits prod.splits)

lemma server_inv_reply: "server_inv s \<Longrightarrow> server_inv (snd (in_context (send_encoded fd t enc) s))"
  unfolding in_context_upd by (rule server_inv_context) (simp_all add: server_invD(1))

text \<open>The \<^verbatim>\<open>catch\<close> adds at most a log line and a reply to what the \<^verbatim>\<open>try\<close> block did.\<close>

lemma handle_client_data_cases:
  assumes "handle_client_data fd s = Some p"
  obtains (ok) s1 where "try_client_data fd s = Some (Inr (), s1)" "p = (Inr (), s1)"
  | (ub) s1 where "try_client_data fd s = Some (Inl UndefinedBehaviour, s1)" "p = (Inl UndefinedBehaviour, s1)"
  | (caught) e s1 where "try_client_data fd s = Some (Inl e, s1)" "e \<noteq> UndefinedBehaviour"
      "p = in_context (send_encoded fd Error (encode_error (what e))) (srv_emit (ShowDecodeError (what e)) s1)"
proof -
  obtain r s1 where t: "try_client_data fd s = Some (r, s1)"
    using assms by (cases "try_client_data fd s") (auto simp: handle_client_data_def)
  show thesis
  proof (cases r)
    case (Inl e)
    show thesis
    proof (cases "e = UndefinedBehaviour")
      case True
      then have "p = (Inl UndefinedBehaviour, s1)" using assms t Inl by (simp add: handle_client_data_def)
      with t Inl True show thesis by (intro ub[of s1]) simp_all
    next
      case False
      then have "p = in_context (send_encoded fd Error (encode_error (what e))) (srv_emit (ShowDecodeError (what e)) s1)"
        using assms t Inl by (simp add: handle_client_data_def Let_def)
      with t Inl False show thesis by (intro caught[of e s1]) simp_all
    qed
  next
    case (Inr u)
    then have "p = (Inr (), s1)" using assms t by (simp add: handle_client_data_def)
    with t Inr show thesis by (intro ok[of s1]) simp_all
  qed
qed

lemma server_inv_data:
  assumes "handle_client_data fd s = Some p" and "server_inv s"
  shows "server_inv (snd p)"
  using assms(1)
proof (cases rule: handle_client_data_cases)
  case (caught e s1)
  then show ?thesis using server_inv_try[OF caught(1) assms(2)] by (simp add: server_inv_reply)
qed (use server_inv_try assms(2) in fastforce)+

section \<open>The server as a transition system\<close>

inductive server_step :: "server \<Rightarrow> server \<Rightarrow> bool" where
  other_thread: "server_step s (apply_request q s)"
| network: "server_step s (s\<lparr>sockets := f\<rparr>)"
| view: "server_step s (srv_emit e s)"
| admin: "process_admin_queue s = (r, s') \<Longrightarrow> server_step s s'"
| hangup: "remove_client fd s = (r, s') \<Longrightarrow> server_step s s'"
| accept: "ids_left s \<Longrightarrow> find_by_fd (srv_registry s) fd = None \<Longrightarrow> accept_client fd err s = Some (r, s') \<Longrightarrow>
    server_step s s'"
| data: "handle_client_data fd s = Some (r, s') \<Longrightarrow> server_step s s'"
| shut_down: "server_step s (disconnect_all_clients s)"

abbreviation server_steps :: "server \<Rightarrow> server \<Rightarrow> bool" where
  "server_steps \<equiv> server_step\<^sup>*\<^sup>*"

lemma server_inv_init [simp]: "server_inv (init_server lfd)"
  by (simp add: server_inv_def id_in_use_def init_server_def all_fds_def empty_registry_def find_by_fd_def
      registry_inv_empty[unfolded empty_registry_def])

lemma server_step_inv: "server_step s s' \<Longrightarrow> server_inv s \<Longrightarrow> server_inv s'"
proof (induction rule: server_step.induct)
  case (other_thread s q)
  then show ?case
    using server_inv_cong[of "apply_request q s" s] by (cases q) (simp_all add: request_stop_eq submit_admin_line_def)
next
  case (admin s r s') then show ?case using server_inv_admin[of s] by simp
next
  case (hangup fd s r s') then show ?case using server_inv_remove[of s fd] by simp
next
  case (accept s fd err r s') then show ?case using server_inv_accept by blast
next
  case (data fd s r s') then show ?case using server_inv_data by fastforce
qed (simp_all add: server_inv_disconnect_all)

lemma server_steps_inv: "server_steps s s' \<Longrightarrow> server_inv s \<Longrightarrow> server_inv s'"
  by (induction rule: rtranclp_induct) (auto intro: server_step_inv)

text \<open>A ban is never taken back.\<close>

lemma process_admin_lines_bans: "srv_banned s \<subseteq> srv_banned (snd (process_admin_lines lines s))"
  by (rule process_admin_lines_keep[where Q = "\<lambda>s'. srv_banned s \<subseteq> srv_banned s'"])
    (auto simp: ban_ids_frame)

lemma allocate_context: "allocate_client_id s = Some (i, s') \<Longrightarrow> srv_context s' = srv_context s"
  by (auto simp: allocate_client_id_def split: prod.splits option.splits)

lemma accept_bans: "accept_client fd err s = Some (r, s') \<Longrightarrow> srv_banned s' = srv_banned s"
proof (cases "fd < 0")
  case False
  assume a: "accept_client fd err s = Some (r, s')"
  with False obtain i s1 where "allocate_client_id s = Some (i, s1)"
    by (auto simp: accept_client_def split: option.splits)
  with a False accept_client_eq[of fd s i s1 err] allocate_context[of s i s1] show ?thesis by auto
qed (auto simp: accept_client_def)

lemma try_bans: "try_client_data fd s = Some p \<Longrightarrow> srv_banned (snd p) = srv_banned s"
  by (auto simp: try_client_data_def Let_def remove_client_simps in_context_upd dispatcher.keeps_banned
      split: if_splits option.splits sum.splits prod.splits)

lemma data_bans:
  assumes "handle_client_data fd s = Some p"
  shows "srv_banned (snd p) = srv_banned s"
  using assms
proof (cases rule: handle_client_data_cases)
  case (caught e s1)
  then show ?thesis using try_bans[OF caught(1)] by (simp add: in_context_upd)
qed (use try_bans in fastforce)+

lemma server_step_bans: "server_step s s' \<Longrightarrow> srv_banned s \<subseteq> srv_banned s'"
proof (induction rule: server_step.induct)
  case (other_thread s q)
  then show ?case by (cases q) (simp_all add: request_stop_eq submit_admin_line_def)
next
  case (admin s r s')
  then show ?case using process_admin_lines_bans[of "s\<lparr>admin_queue := []\<rparr>" "admin_queue s"]
    by (simp add: process_admin_queue_def)
next
  case (hangup fd s r s') then show ?case using remove_client_simps(2)[of fd s] by simp
next
  case (accept s fd err r s') then show ?case using accept_bans by blast
next
  case (data fd s r s') then show ?case using data_bans by fastforce
next
  case (shut_down s)
  have "srv_banned (foldl disconnect_client s fds) = srv_banned s" for fds s
    by (induction fds arbitrary: s) (simp_all add: disconnect_client_simps)
  then show ?case by (simp add: disconnect_all_clients_def)
qed simp_all

end
