(* ===== verification/ServerSafety.thy ===== *)
theory ServerSafety
  imports Server
begin

text \<open>
  Properties of the server's operations: what a client can and cannot do to the server, who is told
  what when clients come, go or are banned, and how ids are handed out.
\<close>

section \<open>Exceptions caused by clients\<close>

text \<open>The exceptions that a request can raise have a short text, so that the reply built from the
  text can always be encoded.\<close>

definition short_exn :: "exn \<Rightarrow> bool" where
  "short_exn e \<longleftrightarrow> e \<noteq> UndefinedBehaviour \<and> length (what e) \<le> 100"

lemma decode_string_short_exn: "decode_string bs = Inl e \<Longrightarrow> short_exn e"
  by (auto simp: decode_string_def bindr_eq_Inl short_exn_def split: if_splits)

lemma encode_string_short_exn: "encode_string s = Inl e \<Longrightarrow> short_exn e"
  by (auto dest: encode_string_errors simp: short_exn_def)

lemma decode_user_info_short_exn: "decode_user_info bs off = Inl e \<Longrightarrow> short_exn e"
  by (auto simp: decode_user_info_def bindr_eq_Inl Let_def short_exn_def split: if_splits dest!: decode_string_short_exn)

lemma decode_chat_short_exn: "decode_chat_payload bs = Inl e \<Longrightarrow> short_exn e"
  unfolding decode_chat_payload_def Let_def
  by (auto simp: bindr_eq_Inl short_exn_def split: if_splits
      dest!: decode_string_short_exn[unfolded short_exn_def] encode_string_short_exn[unfolded short_exn_def])

lemma decode_deliver_short_exn: "decode_deliver_payload bs = Inl e \<Longrightarrow> short_exn e"
  by (auto simp: decode_deliver_payload_def bindr_eq_Inl short_exn_def split: if_splits
      dest!: decode_string_short_exn[unfolded short_exn_def])

lemma decode_payload_short_exn: "decode_payload t bs = Inl e \<Longrightarrow> short_exn e"
proof (cases "t = UsersList")
  case True
  assume *: "decode_payload t bs = Inl e"
  have "short_exn e" if "decode_items decode_user_info n bs off = Inl e" for n off
    using _ that by (rule decode_items_Inl) (rule decode_user_info_short_exn)
  with * True show ?thesis
    by (auto simp: decode_payload_def bindr_eq_Inl short_exn_def split: if_splits)
next
  case False
  assume *: "decode_payload t bs = Inl e"
  have "e = RuntimeError ''AssignId payload too short'' \<or> e = RuntimeError ''BannedIds payload too short'' \<or>
      e = RuntimeError ''BannedIds payload truncated'' \<or> short_exn e"
    using * False by (cases t)
      (auto simp: decode_payload_def bindr_eq_Inl decode_banned_ids_errors split: if_splits
        dest: decode_string_short_exn decode_chat_short_exn decode_user_info_short_exn decode_deliver_short_exn)
  then show ?thesis by (auto simp: short_exn_def)
qed

lemma decode_app_message_short_exn: "decode_app_message f = Inl e \<Longrightarrow> short_exn e"
proof -
  assume "decode_app_message f = Inl e"
  then have "e \<in> {RuntimeError ''PDU too short'', RuntimeError ''Unexpected function code'', RuntimeError ''Unknown message type''} \<or>
      short_exn e"
    by (auto simp: decode_app_message_def bindr_eq_Inl split: if_splits option.splits dest: decode_payload_short_exn)
  then show ?thesis by (auto simp: short_exn_def)
qed

lemma transport_receive_short_exn:
  assumes "transport_receive evs = Some (Inl e, rest)"
  shows "short_exn e"
proof -
  obtain r es where rf: "read_frame evs = Some (r, es)"
    using assms by (cases "read_frame evs") (auto simp: transport_receive_def)
  with read_frame_SomeD[OF rf] assms show ?thesis
    by (auto simp: transport_receive_def bindr_eq_Inl dest: decode_app_message_short_exn)
qed

lemma encode_error_short: "length s \<le> 65535 \<Longrightarrow> encode_error s = Inr (string_field s)"
  by (simp add: encode_error_def)

lemma send_encoded_Inl: "fst (send_encoded fd t enc ctx) = Inl e \<longleftrightarrow> enc = Inl e"
  by (auto simp: send_encoded_def split: sum.split)

lemma encoders_short_exn:
  "encode_error s = Inl e \<Longrightarrow> short_exn e" "encode_deliver i s = Inl e \<Longrightarrow> short_exn e"
  "encode_user_joined i s = Inl e \<Longrightarrow> short_exn e" "encode_user_left i s = Inl e \<Longrightarrow> short_exn e"
  by (auto simp: encode_error_def encode_deliver_def encode_user_joined_def encode_user_left_def encode_user_info_def
      bindr_eq_Inl dest: encode_string_short_exn)

lemma encode_users_list_short_exn: "encode_users_list us = Inl e \<Longrightarrow> short_exn e"
proof -
  have "encode_user_infos out us = Inl e \<Longrightarrow> short_exn e" for out
    by (induction out us rule: encode_user_infos.induct)
      (auto simp: bindr_eq_Inl encode_user_info_def dest: encode_string_short_exn)
  then show "encode_users_list us = Inl e \<Longrightarrow> short_exn e"
    by (auto simp: encode_users_list_def short_exn_def split: if_splits)
qed

lemma recipient_short_exn:
  "recipient_label r chat = Inl e \<Longrightarrow> short_exn e" "resolve_recipient r chat = Inl e \<Longrightarrow> short_exn e"
  by (auto simp: recipient_label_def resolve_recipient_def bindr_eq_Inl split: if_splits dest: decode_string_short_exn)

lemma bad_variant_short [simp]: "short_exn BadVariantAccess"
  by (simp add: short_exn_def)

lemma opaque_handle_short_exn: "fst (opaque_handle t k fd m ctx) = Inl e \<Longrightarrow> short_exn e"
  unfolding opaque_handle_def Let_def
  by (auto simp: send_encoded_Inl split: AppPayload.splits option.splits sum.splits if_splits
      dest: recipient_short_exn encoders_short_exn)

lemma register_handle_short_exn: "fst (register_handle fd m ctx) = Inl e \<Longrightarrow> short_exn e"
  unfolding register_handle_def Let_def
  by (auto simp: send_encoded_Inl user_joined_def split: AppPayload.splits option.splits sum.splits if_splits
      dest: encoders_short_exn)

lemma handle_short_exn: "fst (handle h fd m ctx) = Inl e \<Longrightarrow> short_exn e"
  by (cases h) (auto simp: chat_is_opaque list_users_handle_def send_encoded_Inl
      dest: opaque_handle_short_exn register_handle_short_exn encode_users_list_short_exn)

lemma dispatch_short_exn: "fst (dispatch hs fd m ctx) = Inl e \<Longrightarrow> short_exn e"
  by (induction hs) (auto simp: send_encoded_Inl split: if_splits dest: handle_short_exn encoders_short_exn)

lemma remove_client_short_exn: "fst (remove_client fd s) = Inl e \<Longrightarrow> short_exn e"
  by (auto simp: remove_client_def Let_def user_left_def split: prod.splits option.splits sum.splits
      dest: encoders_short_exn)

lemma try_client_data_short_exn: "try_client_data fd s = Some p \<Longrightarrow> fst p = Inl e \<Longrightarrow> short_exn e"
  by (auto simp: try_client_data_def Let_def split: if_splits option.splits sum.splits prod.splits
      dest: remove_client_short_exn dispatch_short_exn transport_receive_short_exn)

lemma handle_client_data_ok:
  assumes "handle_client_data fd s = Some (r, s')"
  shows "r = Inr ()"
  using assms
proof (cases rule: handle_client_data_cases)
  case (ub s1)
  then show ?thesis using try_client_data_short_exn[OF ub(1)] by (simp add: short_exn_def)
next
  case (caught e s1)
  have "length (what e) \<le> 65535"
    using try_client_data_short_exn[OF caught(1), of e] by (simp add: short_exn_def)
  then show ?thesis
    using caught(3) by (simp add: in_context_def send_encoded_def encode_error_short)
qed simp

text \<open>C10: Nothing that a client sends, in whatever pieces it arrives, makes the server leave the
  processing of the client's socket with an exception, so it cannot end the poll loop; every
  exception is answered with an error message.\<close>

theorem client_data_never_throws:
  assumes "handle_client_data fd s = Some (r, s')"
  shows "r = Inr ()"
  using assms by (rule handle_client_data_ok)

definition garbage_server :: server where
  "garbage_server = (init_server 3)\<lparr>sockets := (\<lambda>_. [Segment [0, 0, 0, 0, 0, 2, 0, 255]])\<rparr>"

theorem client_data_never_throws_witness:
  "\<exists>s'. handle_client_data 7 garbage_server = Some (Inr (), s')"
proof -
  have "transport_receive [Segment [0, 0, 0, 0, 0, 2, 0, 255]] = Some (Inl (RuntimeError ''PDU too short''), [])"
    by (simp add: transport_receive_def read_frame_def modbus_u16 decode_def decode_app_message_def)
  then obtain r s' where "handle_client_data 7 garbage_server = Some (r, s')"
    by (cases "handle_client_data 7 garbage_server")
      (auto simp: handle_client_data_def try_client_data_def garbage_server_def init_server_def empty_registry_def
        find_by_fd_def Let_def)
  then show ?thesis using client_data_never_throws by blast
qed

section \<open>Bans of reasonable size\<close>

lemma newly_banned_length:
  assumes "distinct newly" and "set newly = set ids - {0} - B"
  shows "length newly \<le> length ids"
proof -
  have "length newly = card (set ids - {0} - B)" using assms distinct_card by metis
  also have "\<dots> \<le> card (set ids)" by (intro card_mono) auto
  finally show ?thesis using card_length[of ids] by simp
qed

lemma ban_ids_ok:
  assumes "length ids \<le> 65535"
  shows "\<exists>s'. ban_ids ids s = (Inr (), s')"
proof (rule ban_ids_cases[of ids s])
  fix newly
  assume "distinct newly" "set newly = set ids - {0} - srv_banned s"
  from newly_banned_length[OF this] have "encode_banned_ids newly \<noteq> Inl e" for e
    using assms by (simp add: encode_banned_ids_def)
  moreover assume "ban_ids ids s =
      (if newly = [] then (Inr (), srv_emit (ShowAdminMessage ''no new ids banned'') (with_bans ids s))
       else case encode_banned_ids newly of
           Inl e \<Rightarrow> (Inl e, with_bans ids s)
         | Inr p \<Rightarrow> (Inr (), (with_bans ids s)\<lparr>srv_context := (srv_context (with_bans ids s))\<lparr>trace :=
               srv_trace s @ map (\<lambda>f. Send f BannedIds p) (not_banned_fds (with_bans ids s)) @
               map Shutdown (connected_fds s newly) @
               [ShowAdminMessage (''banned ids='' @ id_list_text newly)]\<rparr>\<rparr>))"
  ultimately show ?thesis by (cases "encode_banned_ids newly") auto
qed

section \<open>Reachable states\<close>

lemma allocate_init: "allocate_client_id (init_server lfd) = Some (1, (init_server lfd)\<lparr>next_id := 2\<rparr>)"
proof -
  have "take_free {} {} = (None, {})" by (simp add: take_free.simps)
  moreover have "skip_banned {} 1 = Some 1" by (simp add: skip_banned_here)
  ultimately show ?thesis by (simp add: allocate_client_id_def init_server_def)
qed

text \<open>The state after the first client.\<close>

definition one_client_server :: server where
  "one_client_server = snd (the (accept_client 7 '''' (init_server 3)))"

lemma one_client_server:
  "accept_client 7 '''' (init_server 3) = Some ((Inr (), [7]), one_client_server)"
  "srv_registry one_client_server = snd (registry_add empty_registry 7 1)"
  "srv_banned one_client_server = {}" "free_ids one_client_server = {}" "next_id one_client_server = 2"
  "admin_queue one_client_server = []"
  using accept_client_eq[OF _ allocate_init, of 7 "''''" 3]
  by (simp_all add: one_client_server_def) (simp_all add: init_server_def)

lemma one_client_reachable: "server_steps (init_server 3) one_client_server"
proof (rule r_into_rtranclp, rule server_step.accept)
  show "accept_client 7 '''' (init_server 3) = Some ((Inr (), [7]), one_client_server)"
    by (rule one_client_server(1))
  show "ids_left (init_server 3)" by (simp add: ids_left_def init_server_def)
  show "find_by_fd (srv_registry (init_server 3)) 7 = None"
    by (simp add: init_server_def empty_registry_def find_by_fd_def)
qed



text \<open>C12: Once an id is banned it stays banned, and no client that connects later is given it.\<close>

theorem banned_id_never_reassigned:
  assumes "server_steps (init_server lfd) s" and "i \<in> srv_banned s" and "server_steps s s1"
    and "ids_left s1" and "0 \<le> fd" and "accept_client fd err s1 = Some (r, s2)"
  shows "i \<in> srv_banned s2 \<and> (\<exists>c. find_by_fd (srv_registry s2) fd = Some c \<and> cr_id c \<noteq> i)"
proof -
  have inv: "server_inv s1"
    using server_steps_inv[OF assms(1)] server_steps_inv[OF assms(3)] by simp
  have "srv_banned s \<subseteq> srv_banned s1"
    using assms(3) by (induction rule: rtranclp_induct) (auto dest: server_step_bans)
  then have i: "i \<in> srv_banned s1" using assms(2) by blast
  obtain j F n where a: "allocate_client_id s1 = Some (j, s1\<lparr>free_ids := F, next_id := n\<rparr>)" "j \<notin> srv_banned s1"
    using allocate_fresh[OF inv assms(4)] by metis
  then have "find_by_fd (srv_registry s2) fd = Some (fst (registry_add (srv_registry s1) fd j))"
    using accept_client_eq[OF assms(5) a(1), of err] assms(6) by auto
  with i a(2) accept_bans[OF assms(6)] show ?thesis by auto
qed

theorem banned_id_never_reassigned_witness:
  "\<exists>s c. accept_client 9 '''' (snd (ban_ids [1] one_client_server)) = Some ((Inr (), [9]), s) \<and>
     find_by_fd (srv_registry s) 9 = Some c \<and> cr_id c \<noteq> 1"
proof -
  let ?s = "snd (ban_ids [1] one_client_server)"
  have cmd: "parse_admin_command ''ban:1'' = Some \<lparr>ban_command_ids = [1]\<rparr>"
    by (simp add: parse_admin_command_def trim_def trim_front_def trim_back_def isspace_def
      split_first_def stoul_def is_digit_def digits_value_def digit_value_def Let_def)
  let ?q = "submit_admin_line ''ban:1'' one_client_server"
  have aq: "one_client_server\<lparr>admin_queue := []\<rparr> = one_client_server"
    by (rule server.equality) (simp_all add: one_client_server(6))
  obtain s' where ban: "ban_ids [1] one_client_server = (Inr (), s')"
    using ban_ids_ok[of "[1]" one_client_server] by auto
  have "process_admin_queue ?q = (Inr (), ?s)"
    by (simp add: process_admin_queue_def submit_admin_line_def cmd one_client_server(6) aq ban)
  then have "server_step ?q ?s" by (rule server_step.admin)
  moreover have "server_step one_client_server ?q"
    using server_step.other_thread[of one_client_server "AdminLine ''ban:1''"] by simp
  ultimately have steps: "server_steps (init_server 3) ?s" using one_client_reachable by (meson rtranclp.rtrancl_into_rtrancl)
  have left: "ids_left ?s" by (simp add: ids_left_def ban_ids_frame one_client_server)
  obtain j F n where "allocate_client_id ?s = Some (j, ?s\<lparr>free_ids := F, next_id := n\<rparr>)"
    using allocate_fresh[OF _ left] server_steps_inv[OF steps] by (metis server_inv_init)
  from accept_client_eq[OF _ this, of 9 "''''"] obtain s where s: "accept_client 9 '''' ?s = Some ((Inr (), [9]), s)" by simp
  have "1 \<in> srv_banned ?s" by (simp add: ban_ids_frame)
  from banned_id_never_reassigned[OF steps this rtranclp.rtrancl_refl left _ s] s show ?thesis by auto
qed

section \<open>Client ids\<close>

text \<open>C16: Id allocation returns exactly when some id is not banned. It prefers the smallest released id
  that is not banned; without one it takes the first id from the counter on that is not banned.\<close>

theorem allocate_client_id_correct:
  "(allocate_client_id s = None \<longleftrightarrow> srv_banned s = UNIV) \<and>
   (\<forall>i s'. allocate_client_id s = Some (i, s') \<longrightarrow>
      i \<notin> srv_banned s \<and> srv_context s' = srv_context s \<and>
      (if free_ids s - srv_banned s \<noteq> {}
       then i = Min (free_ids s - srv_banned s) \<and> next_id s' = next_id s
       else next_id s' = i + 1 \<and>
         (\<exists>k. i = next_id s + word_of_nat k \<and> (\<forall>j < k. next_id s + word_of_nat j \<in> srv_banned s))))"
proof (cases "take_free (srv_banned s) (free_ids s)")
  case (Pair r F)
  note t = take_free_cases[where B = "srv_banned s" and F = "free_ids s", unfolded Pair prod.case]
  show ?thesis
  proof (cases r)
    case (Some i)
    then have i: "i \<in> free_ids s - srv_banned s" "\<forall>j \<in> free_ids s - srv_banned s. i \<le> j" using t by auto
    then have "Min (free_ids s - srv_banned s) = i" by (intro Min_eqI) auto
    moreover have "allocate_client_id s = Some (i, s\<lparr>free_ids := F\<rparr>)"
      using Pair Some by (simp add: allocate_client_id_def)
    ultimately show ?thesis using i by auto
  next
    case None
    then have none: "free_ids s - srv_banned s = {}" "F = {}" using t by auto
    show ?thesis
    proof (cases "srv_banned s = UNIV")
      case True
      then show ?thesis using Pair None by (simp add: allocate_client_id_def skip_banned_full)
    next
      case False
      then obtain k where k: "skip_banned (srv_banned s) (next_id s) = Some (next_id s + word_of_nat k)"
        "next_id s + word_of_nat k \<notin> srv_banned s" "\<forall>j < k. next_id s + word_of_nat j \<in> srv_banned s"
        using skip_banned_total[of _ "srv_banned s" "next_id s"] by blast
      then have "allocate_client_id s =
          Some (next_id s + word_of_nat k, s\<lparr>free_ids := {}, next_id := next_id s + word_of_nat k + 1\<rparr>)"
        using Pair None none(2) by (simp add: allocate_client_id_def)
      then show ?thesis using False k(2,3) none(1) by auto
    qed
  qed
qed

theorem allocate_client_id_correct_witness:
  "\<exists>s'. allocate_client_id ((init_server 3)\<lparr>free_ids := {4, 2}, next_id := 6\<rparr>) = Some (2, s')"
proof -
  let ?s = "(init_server 3)\<lparr>free_ids := {4, 2}, next_id := 6\<rparr>"
  have b: "srv_banned ?s = {}" by (simp add: init_server_def)
  then obtain i s' where a: "allocate_client_id ?s = Some (i, s')"
    using allocate_client_id_correct[of ?s] by (cases "allocate_client_id ?s") auto
  have "i = Min {4, 2}" using allocate_client_id_correct[of ?s] a b by auto
  then show ?thesis using a by (auto simp: min_def)
qed

text \<open>The counter wraps: after the last of the \<open>2^32\<close> ids the server hands out the id 0 and then
  ids that earlier clients may still hold.\<close>

theorem id_counter_wraps:
  assumes "free_ids s = {}" and "srv_banned s = {}" and "next_id s = 0xFFFFFFFF"
  shows "\<exists>s1 s2 s3. allocate_client_id s = Some (0xFFFFFFFF, s1) \<and> allocate_client_id s1 = Some (0, s2) \<and>
    allocate_client_id s2 = Some (1, s3)"
proof -
  have step: "allocate_client_id t = Some (next_id t, t\<lparr>free_ids := {}, next_id := next_id t + 1\<rparr>)"
    if "free_ids t = {}" "srv_banned t = {}" for t
    using that by (simp add: allocate_client_id_def take_free.simps skip_banned_here)
  show ?thesis by (simp add: step assms)
qed

theorem id_counter_wraps_witness:
  "\<exists>s1 s2 s3. allocate_client_id (one_client_server\<lparr>next_id := 0xFFFFFFFF\<rparr>) = Some (0xFFFFFFFF, s1) \<and>
    allocate_client_id s1 = Some (0, s2) \<and> allocate_client_id s2 = Some (1, s3)"
  using id_counter_wraps[of "one_client_server\<lparr>next_id := 0xFFFFFFFF\<rparr>"] by (simp add: one_client_server)

section \<open>Who is told what\<close>

text \<open>A client that connects is told its id, and whether it is the first one and has to create the
  room key; every other client is told once that it joined.\<close>

theorem accept_client_outcome:
  assumes "server_inv s" and "ids_left s" and "0 \<le> fd" and "find_by_fd (srv_registry s) fd = None"
  shows "\<exists>i s' fds p. accept_client fd err s = Some ((Inr (), [fd]), s') \<and>
    \<not> id_in_use s i \<and> i \<notin> srv_banned s \<and>
    find_by_fd (srv_registry s') = (find_by_fd (srv_registry s))
      (fd \<mapsto> \<lparr>cr_fd = fd, cr_id = i, cr_nickname = '''', cr_registered = False\<rparr>) \<and>
    srv_trace s' = srv_trace s @ [ShowClientConnected i,
      Send fd AssignId (encode_assign_id i (dom (find_by_fd (srv_registry s)) = {}))] @
      map (\<lambda>f. Send f UserJoined p) fds \<and>
    encode_user_joined i '''' = Inr p \<and> distinct fds \<and> set fds = dom (find_by_fd (srv_registry s))"
proof -
  obtain i F n where a: "allocate_client_id s = Some (i, s\<lparr>free_ids := F, next_id := n\<rparr>)"
    "i \<notin> srv_banned s" "\<not> id_in_use s i"
    using allocate_fresh[OF assms(1,2)] by metis
  let ?fds = "filter (\<lambda>f. f \<noteq> fd) (all_fds (snd (registry_add (srv_registry s) fd i)))"
  have fresh: "fd \<notin> set (all_fds (srv_registry s))" using assms(4) by (auto simp: set_all_fds)
  then have fds: "?fds = all_fds (srv_registry s)" by (auto simp: all_fds_add filter_id_conv)
  have room: "all_fds (srv_registry s) = [] \<longleftrightarrow> dom (find_by_fd (srv_registry s)) = {}"
    using set_all_fds[of "srv_registry s"] by (metis set_empty)
  let ?p = "user_info_bytes \<lparr>ui_id = i, ui_nickname = ''''\<rparr>"
  have "distinct (all_fds (srv_registry s))" by (rule registry_invD(1)[OF server_invD(1)[OF assms(1)]])
  moreover have "encode_user_joined i '''' = Inr ?p"
    by (simp add: encode_user_joined_def good_user_def)
  moreover obtain s' where "accept_client fd err s = Some ((Inr (), [fd]), s')"
    "srv_registry s' = snd (registry_add (srv_registry s) fd i)"
    "srv_trace s' = srv_trace s @ [ShowClientConnected i,
      Send fd AssignId (encode_assign_id i (dom (find_by_fd (srv_registry s)) = {}))] @
      map (\<lambda>f. Send f UserJoined ?p) (all_fds (srv_registry s))"
    using accept_client_eq[OF assms(3) a(1), of err] by (simp add: presence_broadcast_eq fds room)
  ultimately show ?thesis
    using a(2,3) set_all_fds[of "srv_registry s"]
    by (intro exI[of _ i] exI[of _ s'] exI[of _ "all_fds (srv_registry s)"] exI[of _ ?p]) simp
qed

theorem accept_client_outcome_witness:
  "\<exists>s'. accept_client 9 '''' one_client_server = Some ((Inr (), [9]), s')"
proof -
  have "server_inv one_client_server" using server_steps_inv[OF one_client_reachable] by simp
  moreover have "ids_left one_client_server" by (simp add: ids_left_def one_client_server)
  moreover have "find_by_fd (srv_registry one_client_server) 9 = None"
    by (simp add: one_client_server, simp add: empty_registry_def find_by_fd_def)
  ultimately show ?thesis using accept_client_outcome[of one_client_server 9 "''''"] by auto
qed

lemma user_left_eq:
  assumes "length n \<le> 65535"
  shows "user_left i n ctx = (Inr (), ctx\<lparr>trace := trace ctx @
    map (\<lambda>f. Send f UserLeft (user_info_bytes \<lparr>ui_id = i, ui_nickname = n\<rparr>)) (filter (\<lambda>f. f \<noteq> -1) (all_fds (ctx_registry ctx)))\<rparr>)"
proof -
  have "encode_user_left i n = Inr (user_info_bytes \<lparr>ui_id = i, ui_nickname = n\<rparr>)"
    using assms by (simp add: encode_user_left_def good_user_def)
  then show ?thesis by (simp add: user_left_def presence_broadcast_eq)
qed

lemma remove_client_eq:
  assumes "find_by_fd (srv_registry s) fd = Some c" and "length (cr_nickname c) \<le> 65535"
  defines "reg \<equiv> snd (registry_remove (srv_registry s) fd)"
  shows "fst (remove_client fd s) = Inr ()"
    and "srv_trace (snd (remove_client fd s)) = srv_trace s @
      [ShowClientDisconnected (cr_id c) (cr_nickname c), Close fd] @
      map (\<lambda>f. Send f UserLeft (user_info_bytes \<lparr>ui_id = cr_id c, ui_nickname = cr_nickname c\<rparr>))
        (filter (\<lambda>f. f \<noteq> -1) (all_fds reg))"
proof -
  have "registry_remove (srv_registry s) fd = (Some c, reg)"
    using assms(1) by (simp add: reg_def registry_remove_def)
  then show "fst (remove_client fd s) = Inr ()"
    "srv_trace (snd (remove_client fd s)) = srv_trace s @
      [ShowClientDisconnected (cr_id c) (cr_nickname c), Close fd] @
      map (\<lambda>f. Send f UserLeft (user_info_bytes \<lparr>ui_id = cr_id c, ui_nickname = cr_nickname c\<rparr>))
        (filter (\<lambda>f. f \<noteq> -1) (all_fds reg))"
    by (simp_all add: remove_client_def Let_def user_left_eq[OF assms(2)])
qed

text \<open>When a client goes, its socket is closed once, its id becomes available again unless it is
  banned, and each of the remaining clients is told once.\<close>

theorem remove_client_outcome:
  assumes "server_inv s" and "find_by_fd (srv_registry s) fd = Some c" and "length (cr_nickname c) \<le> 65535"
  shows "\<exists>s' fds p. remove_client fd s = (Inr (), s') \<and>
    find_by_fd (srv_registry s') = (find_by_fd (srv_registry s))(fd := None) \<and>
    free_ids s' = (if cr_id c \<in> srv_banned s then free_ids s else insert (cr_id c) (free_ids s)) \<and>
    srv_trace s' = srv_trace s @ [ShowClientDisconnected (cr_id c) (cr_nickname c), Close fd] @
      map (\<lambda>f. Send f UserLeft p) fds \<and>
    encode_user_left (cr_id c) (cr_nickname c) = Inr p \<and>
    distinct fds \<and> set fds = dom (find_by_fd (srv_registry s)) - {fd}"
proof -
  let ?p = "user_info_bytes \<lparr>ui_id = cr_id c, ui_nickname = cr_nickname c\<rparr>"
  let ?fds = "filter (\<lambda>f. f \<noteq> -1) (all_fds (snd (registry_remove (srv_registry s) fd)))"
  have "0 \<le> f" if "f \<in> set (all_fds (srv_registry s))" for f using that server_invD(10)[OF assms(1)] by blast
  then have "set ?fds = dom (find_by_fd (srv_registry s)) - {fd}"
    by (auto simp: all_fds_remove set_all_fds) force
  moreover have "distinct ?fds"
    using registry_invD(1)[OF server_invD(1)[OF assms(1)]] by (simp add: all_fds_remove distinct_removeAll)
  moreover have "encode_user_left (cr_id c) (cr_nickname c) = Inr ?p"
    using assms(3) by (simp add: encode_user_left_def good_user_def)
  moreover have "remove_client fd s = (Inr (), snd (remove_client fd s))"
    using remove_client_eq(1)[OF assms(2,3)] by (metis prod.collapse)
  ultimately show ?thesis
    using remove_client_eq(2)[OF assms(2,3)] assms(2)
    by (intro exI[of _ "snd (remove_client fd s)"] exI[of _ ?fds] exI[of _ ?p])
      (simp add: remove_client_simps is_banned_def)
qed

lemma one_client_find: "find_by_fd (srv_registry one_client_server) 7 =
    Some \<lparr>cr_fd = 7, cr_id = 1, cr_nickname = '''', cr_registered = False\<rparr>"
  by (simp add: one_client_server)

lemma one_client_inv: "server_inv one_client_server"
  using server_steps_inv[OF one_client_reachable] by simp

theorem remove_client_outcome_witness:
  "\<exists>s'. remove_client 7 one_client_server = (Inr (), s') \<and> 1 \<in> free_ids s'"
  using remove_client_outcome[OF one_client_inv one_client_find] by (auto simp: one_client_server)

text \<open>A banned client is dropped as soon as its socket becomes readable: nothing more is read from
  it, its id does not become available again, and it is no longer connected.\<close>

theorem banned_client_dropped:
  assumes "find_by_fd (srv_registry s) fd = Some c" and "cr_id c \<in> srv_banned s" and "length (cr_nickname c) \<le> 65535"
  shows "\<exists>s'. handle_client_data fd s = Some (Inr (), s') \<and> sockets s' = sockets s \<and> free_ids s' = free_ids s \<and>
    find_by_fd (srv_registry s') fd = None"
proof -
  have "try_client_data fd s = Some (remove_client fd s)"
    using assms(1,2) by (simp add: try_client_data_def is_banned_def)
  moreover obtain s' where s': "remove_client fd s = (Inr (), s')"
    using remove_client_eq(1)[OF assms(1,3)] by (metis prod.collapse)
  ultimately have "handle_client_data fd s = Some (Inr (), s')"
    by (simp add: handle_client_data_def)
  then show ?thesis
    using assms(1,2) remove_client_simps[of fd s] by (simp add: s' is_banned_def)
qed

theorem banned_client_dropped_witness:
  "\<exists>s'. handle_client_data 7 (snd (ban_ids [1] one_client_server)) = Some (Inr (), s') \<and>
     find_by_fd (srv_registry s') 7 = None"
  using banned_client_dropped[of "snd (ban_ids [1] one_client_server)" 7] one_client_find
  by (auto simp: ban_ids_frame)

text \<open>C29: A message that cannot be decoded is answered with one error to its sender; the sender stays
  connected and nobody else notices.\<close>

theorem malformed_message_contained:
  assumes "find_by_fd (srv_registry s) fd = Some c" and "cr_id c \<notin> srv_banned s"
    and "transport_receive (sockets s fd) = Some (Inl e, rest)"
  shows "handle_client_data fd s = Some (Inr (), s\<lparr>sockets := (sockets s)(fd := rest),
    srv_context := (srv_context s)\<lparr>trace := srv_trace s @
      [ShowDecodeError (what e), Send fd Error (string_field (what e))]\<rparr>\<rparr>)"
proof -
  have "short_exn e" using transport_receive_short_exn[OF assms(3)] .
  then have e: "e \<noteq> UndefinedBehaviour" "length (what e) \<le> 65535" by (simp_all add: short_exn_def)
  have "try_client_data fd s = Some (Inl e, s\<lparr>sockets := (sockets s)(fd := rest)\<rparr>)"
    using assms by (simp add: try_client_data_def is_banned_def)
  then show ?thesis
    using e by (simp add: handle_client_data_def in_context_def send_encoded_def encode_error_short srv_emit_def emit_def)
qed

theorem malformed_message_contained_witness:
  "\<exists>s'. handle_client_data 7 (one_client_server\<lparr>sockets := (\<lambda>_. [Segment [0, 0, 0, 0, 0, 2, 0, 255]])\<rparr>) = Some (Inr (), s') \<and>
     srv_registry s' = srv_registry one_client_server"
proof -
  let ?s = "one_client_server\<lparr>sockets := (\<lambda>_. [Segment [0, 0, 0, 0, 0, 2, 0, 255]])\<rparr>"
  have "transport_receive (sockets ?s 7) = Some (Inl (RuntimeError ''PDU too short''), [])"
    by (simp add: transport_receive_def read_frame_def modbus_u16 decode_def decode_app_message_def)
  then show ?thesis
    using malformed_message_contained[of ?s 7] one_client_find by (auto simp: one_client_server)
qed

text \<open>A client that sends the beginning of a frame and then nothing stops the whole server: the
  read of its socket does not return, and there is one thread for all clients.\<close>

theorem partial_frame_blocks_server:
  assumes "find_by_fd (srv_registry s) fd = Some c" and "cr_id c \<notin> srv_banned s"
    and "sockets s fd = map Segment cs" and "[] \<notin> set cs" and "fits_frame p"
    and "concat cs = take n (encode (make_frame t p tid))" and "n < length (encode (make_frame t p tid))"
  shows "handle_client_data fd s = None"
proof -
  have "read_frame (map Segment cs) = None"
    using read_frame_blocks[OF assms(4,6,7)] assms(5) by (simp add: fits_frame_def)
  then show ?thesis
    using assms(1-3) by (simp add: handle_client_data_def try_client_data_def is_banned_def transport_receive_def)
qed

theorem partial_frame_blocks_server_witness:
  "handle_client_data 7 (one_client_server\<lparr>sockets := (\<lambda>_. [Segment [0, 0], Segment [0]])\<rparr>) = None"
  using partial_frame_blocks_server[of "one_client_server\<lparr>sockets := (\<lambda>_. [Segment [0, 0], Segment [0]])\<rparr>" 7 _
      "[[0, 0], [0]]" "[]" 3 ListUsers 0] one_client_find
  by (simp add: encode_layout make_frame_def write_u16_be_def kProtocolId_def fits_frame_def one_client_server)

text \<open>Banning, when at least one of the ids is new: every client that is not banned is told the new
  bans once, the connections of exactly the clients that hold one of the new ids are shut down, and
  the ids are banned from then on. The id 0 and ids that were banned before are ignored.\<close>

theorem ban_ids_outcome:
  assumes "server_inv s" and "length ids \<le> 65535" and "set ids - {0} - srv_banned s \<noteq> {}"
  shows "\<exists>s' newly p fds cut msg. ban_ids ids s = (Inr (), s') \<and>
    srv_banned s' = srv_banned s \<union> (set ids - {0}) \<and> srv_registry s' = srv_registry s \<and>
    free_ids s' = free_ids s - set ids \<and>
    distinct newly \<and> set newly = set ids - {0} - srv_banned s \<and> encode_banned_ids newly = Inr p \<and>
    srv_trace s' = srv_trace s @ map (\<lambda>f. Send f BannedIds p) fds @ map Shutdown cut @ [ShowAdminMessage msg] \<and>
    distinct fds \<and> set fds = {f. \<exists>c. find_by_fd (srv_registry s) f = Some c \<and> cr_id c \<notin> srv_banned s'} \<and>
    distinct cut \<and> set cut = {f. \<exists>c. find_by_fd (srv_registry s) f = Some c \<and> cr_id c \<in> set newly}"
proof -
  obtain newly where n: "distinct newly" "set newly = set ids - {0} - srv_banned s" and eq: "ban_ids ids s =
      (if newly = [] then (Inr (), srv_emit (ShowAdminMessage ''no new ids banned'') (with_bans ids s))
       else case encode_banned_ids newly of
           Inl e \<Rightarrow> (Inl e, with_bans ids s)
         | Inr p \<Rightarrow> (Inr (), (with_bans ids s)\<lparr>srv_context := (srv_context (with_bans ids s))\<lparr>trace :=
               srv_trace s @ map (\<lambda>f. Send f BannedIds p) (not_banned_fds (with_bans ids s)) @
               map Shutdown (connected_fds s newly) @
               [ShowAdminMessage (''banned ids='' @ id_list_text newly)]\<rparr>\<rparr>))"
    by (rule ban_ids_cases[of ids s])
  obtain p where p: "encode_banned_ids newly = Inr p"
    using newly_banned_length[OF n] assms(2) by (cases "encode_banned_ids newly") (auto simp: encode_banned_ids_def)
  have inv: "registry_inv (srv_registry s)" by (rule server_invD(1)[OF assms(1)])
  have iff: "fd_by_id (srv_registry s) i = Some f \<longleftrightarrow> (\<exists>c. find_by_fd (srv_registry s) f = Some c \<and> cr_id c = i)" for i f
    by (rule reg.by_id_iff[OF inv])
  have "set (connected_fds s newly) = {f. \<exists>c. find_by_fd (srv_registry s) f = Some c \<and> cr_id c \<in> set newly}"
  proof (intro equalityI subsetI, goal_cases)
    case (1 f)
    then obtain i where "i \<in> set newly" "fd_by_id (srv_registry s) i = Some f" by (auto simp: connected_fds_def)
    then show ?case by (auto simp: iff)
  next
    case (2 f)
    then obtain c where c: "cr_id c \<in> set newly" "find_by_fd (srv_registry s) f = Some c" by auto
    then have "cr_id c \<in> set newly" "fd_by_id (srv_registry s) (cr_id c) = Some f" by (auto simp: iff)
    then show ?case unfolding connected_fds_def by (auto intro!: image_eqI[of _ _ "cr_id c"])
  qed
  moreover have "inj_on (\<lambda>i. the (fd_by_id (srv_registry s) i)) (set (filter (\<lambda>i. fd_by_id (srv_registry s) i \<noteq> None) newly))"
  proof (rule inj_onI, goal_cases)
    case (1 i j)
    then obtain f where "fd_by_id (srv_registry s) i = Some f" "fd_by_id (srv_registry s) j = Some f" by auto
    then show ?case using iff by (metis option.sel)
  qed
  then have "distinct (connected_fds s newly)" using n(1) by (simp add: connected_fds_def distinct_map)
  moreover have "distinct (not_banned_fds (with_bans ids s))"
    using registry_invD(1)[OF inv] by (simp add: not_banned_fds_def)
  moreover have "free_ids s - (set ids - {0}) = free_ids s - set ids" using server_invD(4)[OF assms(1), of 0] by auto
  moreover have "set (not_banned_fds (with_bans ids s)) =
      {f. \<exists>c. find_by_fd (srv_registry s) f = Some c \<and> cr_id c \<notin> srv_banned s \<union> (set ids - {0})}"
    by (simp add: set_eq_iff not_banned_fds_iff)
  moreover have "newly \<noteq> []" using n(2) assms(3) by (metis empty_set)
  then have "ban_ids ids s = (Inr (), (with_bans ids s)\<lparr>srv_context := (srv_context (with_bans ids s))\<lparr>trace :=
               srv_trace s @ map (\<lambda>f. Send f BannedIds p) (not_banned_fds (with_bans ids s)) @
               map Shutdown (connected_fds s newly) @
               [ShowAdminMessage (''banned ids='' @ id_list_text newly)]\<rparr>\<rparr>)" (is "_ = (_, ?s')")
    using eq p by simp
  ultimately show ?thesis
    using n p
    by (intro exI[of _ ?s'] exI[of _ newly] exI[of _ p] exI[of _ "not_banned_fds (with_bans ids s)"]
        exI[of _ "connected_fds s newly"] exI[of _ "''banned ids='' @ id_list_text newly"]) simp
qed

theorem ban_ids_outcome_witness:
  "\<exists>s' fds cut msg p. ban_ids [1, 0] one_client_server = (Inr (), s') \<and>
     srv_trace s' = srv_trace one_client_server @ map (\<lambda>f. Send f BannedIds p) fds @ map Shutdown cut @ [ShowAdminMessage msg] \<and>
     set cut = {f. \<exists>c. find_by_fd (srv_registry one_client_server) f = Some c \<and> cr_id c = 1}"
proof -
  have "set [1, 0] - {0} - srv_banned one_client_server = {1}" by (auto simp: one_client_server)
  then show ?thesis using ban_ids_outcome[OF one_client_inv, of "[1, 0]"] by force
qed

section \<open>Shutting down\<close>

lemma disconnect_client_trace:
  assumes "find_by_fd (srv_registry s) fd = Some c"
  shows "srv_trace (disconnect_client s fd) =
    srv_trace s @ [ShowClientDisconnected (cr_id c) (cr_nickname c), Shutdown fd, Close fd]"
  using assms by (simp add: disconnect_client_def registry_remove_def Let_def)

definition goodbye :: "registry \<Rightarrow> int \<Rightarrow> effect list" where
  "goodbye r fd = (case find_by_fd r fd of
     None \<Rightarrow> []
   | Some c \<Rightarrow> [ShowClientDisconnected (cr_id c) (cr_nickname c), Shutdown fd, Close fd])"

lemma foldl_disconnect:
  "distinct fds \<Longrightarrow> set fds \<subseteq> dom (find_by_fd (srv_registry s)) \<Longrightarrow>
   srv_trace (foldl disconnect_client s fds) = srv_trace s @ concat (map (goodbye (srv_registry s)) fds) \<and>
   find_by_fd (srv_registry (foldl disconnect_client s fds)) = find_by_fd (srv_registry s) |` (- set fds)"
proof (induction fds arbitrary: s)
  case (Cons fd fds)
  then obtain c where c: "find_by_fd (srv_registry s) fd = Some c" by auto
  let ?s = "disconnect_client s fd"
  have f: "find_by_fd (srv_registry ?s) = (find_by_fd (srv_registry s))(fd := None)"
    by (simp add: disconnect_client_simps)
  have m: "map (goodbye (srv_registry ?s)) fds = map (goodbye (srv_registry s)) fds"
    using Cons.prems(1) by (auto simp: goodbye_def f)
  have "srv_trace (foldl disconnect_client ?s fds) = srv_trace ?s @ concat (map (goodbye (srv_registry ?s)) fds) \<and>
      find_by_fd (srv_registry (foldl disconnect_client ?s fds)) = find_by_fd (srv_registry ?s) |` (- set fds)"
    using Cons.prems by (intro Cons.IH) (auto simp: f)
  note this[unfolded m]
  moreover have "goodbye (srv_registry s) fd = [ShowClientDisconnected (cr_id c) (cr_nickname c), Shutdown fd, Close fd]"
    using c by (simp add: goodbye_def)
  moreover have "(find_by_fd (srv_registry s))(fd := None) |` (- set fds) = find_by_fd (srv_registry s) |` (- set (fd # fds))"
    by (auto simp: restrict_map_def fun_eq_iff)
  ultimately show ?case by (simp add: disconnect_client_trace[OF c] f)
qed (auto simp: restrict_map_def fun_eq_iff)

text \<open>Leaving the loop disconnects every client: the registry is empty afterwards, and each socket is
  shut down and closed exactly once.\<close>

theorem disconnect_all_clients_outcome:
  assumes "server_inv s"
  shows "\<exists>es. srv_trace (disconnect_all_clients s) = srv_trace s @ es \<and>
    find_by_fd (srv_registry (disconnect_all_clients s)) = Map.empty \<and>
    filter (\<lambda>e. \<exists>f. e = Close f) es = map Close (all_fds (srv_registry s)) \<and>
    filter (\<lambda>e. \<exists>f. e = Shutdown f) es = map Shutdown (all_fds (srv_registry s)) \<and>
    distinct (all_fds (srv_registry s)) \<and> set (all_fds (srv_registry s)) = dom (find_by_fd (srv_registry s))"
proof -
  let ?fds = "all_fds (srv_registry s)"
  have d: "distinct ?fds" by (rule registry_invD(1)[OF server_invD(1)[OF assms]])
  have fold: "srv_trace (disconnect_all_clients s) = srv_trace s @ concat (map (goodbye (srv_registry s)) ?fds) \<and>
      find_by_fd (srv_registry (disconnect_all_clients s)) = find_by_fd (srv_registry s) |` (- set ?fds)"
    unfolding disconnect_all_clients_def using d by (intro foldl_disconnect) (simp_all add: set_all_fds)
  have "set fds \<subseteq> dom (find_by_fd (srv_registry s)) \<Longrightarrow>
      filter (\<lambda>e. \<exists>f. e = Close f) (concat (map (goodbye (srv_registry s)) fds)) = map Close fds \<and>
      filter (\<lambda>e. \<exists>f. e = Shutdown f) (concat (map (goodbye (srv_registry s)) fds)) = map Shutdown fds" for fds
    by (induction fds) (auto simp: goodbye_def)
  from this[of ?fds] have "filter (\<lambda>e. \<exists>f. e = Close f) (concat (map (goodbye (srv_registry s)) ?fds)) = map Close ?fds \<and>
      filter (\<lambda>e. \<exists>f. e = Shutdown f) (concat (map (goodbye (srv_registry s)) ?fds)) = map Shutdown ?fds"
    by (simp add: set_all_fds)
  moreover have "find_by_fd (srv_registry s) |` (- set ?fds) = Map.empty"
    by (auto simp: restrict_map_def set_all_fds fun_eq_iff)
  ultimately show ?thesis using fold d set_all_fds by auto
qed

theorem disconnect_all_clients_outcome_witness:
  "find_by_fd (srv_registry (disconnect_all_clients one_client_server)) = Map.empty"
  using disconnect_all_clients_outcome[OF one_client_inv] by blast

end
