(* ===== verification/ServerLoop.thy ===== *)
theory ServerLoop
  imports ServerSafety
begin

text \<open>
  The poll loop of \<^verbatim>\<open>ServerViewModel::run\<close> refines the transition system of the theory \<open>Server\<close>: each
  round consists of its steps. On top of that, the loop's own data structure, the vector of poll
  entries, always holds the listening socket and exactly the connected clients; the loop cannot be
  ended by a client, and it ends in the round in which a stop is requested.
\<close>

section \<open>Nicknames stay short\<close>

text \<open>Nicknames arrive in a length-prefixed field, so announcing that a client left never fails.\<close>

definition short_names :: "server \<Rightarrow> bool" where
  "short_names s \<longleftrightarrow> (\<forall>fd c. find_by_fd (srv_registry s) fd = Some c \<longrightarrow> length (cr_nickname c) \<le> 65535)"

lemma short_namesI:
  "short_names s \<Longrightarrow> srv_registry s' = srv_registry s \<Longrightarrow> short_names s'"
  by (simp add: short_names_def)

lemma short_names_remove: "short_names s \<Longrightarrow> short_names (snd (remove_client fd s))"
  by (auto simp: short_names_def remove_client_simps)

lemma remove_client_ok: "short_names s \<Longrightarrow> fst (remove_client fd s) = Inr ()"
  by (cases "find_by_fd (srv_registry s) fd")
    (auto simp: short_names_def remove_client_eq, simp add: remove_client_def registry_remove_def)

lemma dispatch_names:
  assumes "find_by_fd (ctx_registry (snd (dispatch hs fd m ctx))) f = Some c"
  shows "(\<exists>d. find_by_fd (ctx_registry ctx) f = Some d \<and> cr_nickname c = cr_nickname d) \<or>
    payload m = RegisterPayload (cr_nickname c)"
proof (cases rule: dispatch_cases[of hs m fd])
  case (handled h)
  show ?thesis
  proof (cases "h = RegisterMessageHandler")
    case True
    then have h: "dispatch hs fd m ctx = register_handle fd m ctx" using handled(3) by simp
    show ?thesis
    proof (cases "\<exists>n d. payload m = RegisterPayload n \<and> find_by_fd (ctx_registry ctx) fd = Some d")
      case True
      then obtain n d where nd: "payload m = RegisterPayload n" "find_by_fd (ctx_registry ctx) fd = Some d" by blast
      then show ?thesis
      proof (cases rule: register_handle_cases)
        case (refused s)
        then show ?thesis using assms h by auto
      next
        case accepted
        then show ?thesis using assms h nd by (auto split: if_splits)
      qed
    next
      case False
      then show ?thesis using register_handle_none[of m ctx fd] assms h by auto
    qed
  next
    case False
    then have "ctx_registry (snd (handle h fd m ctx)) = ctx_registry ctx"
      by (cases h) (simp_all add: chat_is_opaque list_users_handle_def)
    then show ?thesis using assms handled(3) by auto
  qed
next
  case unsupported
  then show ?thesis using assms by auto
qed

lemma received_nickname_short:
  assumes "transport_receive evs = Some (Inr (Some m), rest)" and "payload m = RegisterPayload n"
  shows "length n \<le> 65535"
proof -
  obtain f es where "read_frame evs = Some (Inr (Some f), es)" "decode_app_message f = Inr m"
    using assms(1) by (auto simp: transport_receive_def split: option.splits sum.splits prod.splits)
  then obtain t p where "decode_payload t p = Inr (RegisterPayload n)"
    using assms(2) by (auto simp: decode_app_message_def split: if_splits option.splits)
  then show ?thesis
    by (cases t) (auto simp: decode_payload_def split: if_splits dest: decode_string_InrD)
qed

lemma short_names_try:
  assumes "try_client_data fd s = Some p" and "short_names s"
  shows "short_names (snd p)"
proof -
  let ?s = "\<lambda>rest. s\<lparr>sockets := (sockets s)(fd := rest)\<rparr>"
  have s: "short_names (?s rest)" for rest using assms(2) by (simp add: short_names_def)
  have "short_names (snd (in_context (dispatch create_message_dispatcher fd m) (?s rest)))"
    if "transport_receive (sockets s fd) = Some (Inr (Some m), rest)" for m rest
    using received_nickname_short[OF that] assms(2)
    by (auto simp: short_names_def in_context_upd dest!: dispatch_names)
  then show ?thesis
    using assms(1) s short_names_remove[OF assms(2)] short_names_remove[OF s]
    by (auto simp: try_client_data_def Let_def assms(2) split: if_splits option.splits sum.splits prod.splits)
qed

lemma short_names_data:
  assumes "handle_client_data fd s = Some p" and "short_names s"
  shows "short_names (snd p)"
  using assms(1)
proof (cases rule: handle_client_data_cases)
  case (caught e s1)
  have "short_names s1" using short_names_try[OF caught(1) assms(2)] by simp
  then show ?thesis by (rule short_namesI) (simp add: caught(3))
qed (use short_names_try[OF _ assms(2)] in fastforce)+

section \<open>What a step does to the set of connected clients\<close>

lemma try_client_data_others:
  assumes "try_client_data fd s = Some p" and "f \<noteq> fd"
  shows "find_by_fd (srv_registry (snd p)) f = None \<longleftrightarrow> find_by_fd (srv_registry s) f = None"
  using assms
  by (auto simp: try_client_data_def Let_def remove_client_simps in_context_upd dispatcher.connected_iff
      split: if_splits option.splits sum.splits prod.splits)

lemma handle_client_data_others:
  assumes "handle_client_data fd s = Some p" and "f \<noteq> fd"
  shows "find_by_fd (srv_registry (snd p)) f = None \<longleftrightarrow> find_by_fd (srv_registry s) f = None"
  using assms(1)
proof (cases rule: handle_client_data_cases)
  case (caught e s1)
  then show ?thesis using try_client_data_others[OF caught(1) assms(2)] by simp
qed (use try_client_data_others[OF _ assms(2)] in fastforce)+

lemma try_client_data_frame:
  assumes "try_client_data fd s = Some p"
  shows "listen_fd (snd p) = listen_fd s" "running (snd p) = running s"
  using assms
  by (auto simp: try_client_data_def Let_def remove_client_simps
      split: if_splits option.splits sum.splits prod.splits)

lemma handle_client_data_frame:
  assumes "handle_client_data fd s = Some p"
  shows "listen_fd (snd p) = listen_fd s" "running (snd p) = running s"
  using assms
  by (cases rule: handle_client_data_cases; use try_client_data_frame in fastforce)+

section \<open>The loop over hung-up clients\<close>

definition gone :: "pollfd list \<Rightarrow> int set" where
  "gone ps = {pfd p | p. p \<in> set ps \<and> rev_err p}"

lemma gone_Cons: "gone (p # ps) = (if rev_err p then insert (pfd p) (gone ps) else gone ps)"
  by (auto simp: gone_def)

abbreviation mark_gone :: "pollfd list \<Rightarrow> pollfd list" where
  "mark_gone \<equiv> map (\<lambda>p. if rev_err p then p\<lparr>pfd := -1\<rparr> else p)"

lemma hangup_loop_stopped: "\<not> running s \<Longrightarrow> hangup_loop s ps = ((Inr (), s), mark_gone ps)"
  by (induction ps) simp_all

lemma hangup_loop_running:
  "running s \<Longrightarrow> short_names s \<Longrightarrow>
   \<exists>s'. hangup_loop s ps = ((Inr (), s'), mark_gone ps) \<and> server_steps s s' \<and> running s' \<and> short_names s' \<and>
     listen_fd s' = listen_fd s \<and> srv_banned s' = srv_banned s \<and> next_id s' = next_id s \<and>
     (\<forall>f. find_by_fd (srv_registry s') f = (if f \<in> gone ps then None else find_by_fd (srv_registry s) f))"
proof (induction ps arbitrary: s)
  case Nil
  then show ?case by (simp add: gone_def)
next
  case (Cons p ps)
  show ?case
  proof (cases "rev_err p")
    case True
    obtain s1 where s1: "remove_client (pfd p) s = (Inr (), s1)"
      using remove_client_ok[OF Cons.prems(2), of "pfd p"] by (metis prod.collapse)
    note r = remove_client_simps[of "pfd p" s, unfolded s1 snd_conv]
    have "running s1" "short_names s1"
      using Cons.prems r(5) short_names_remove[OF Cons.prems(2), of "pfd p"] s1 by simp_all
    from Cons.IH[OF this] obtain s' where s': "hangup_loop s1 ps = ((Inr (), s'), mark_gone ps)"
      "server_steps s1 s'" "running s'" "short_names s'" "listen_fd s' = listen_fd s1" "srv_banned s' = srv_banned s1"
      "next_id s' = next_id s1"
      "\<forall>f. find_by_fd (srv_registry s') f = (if f \<in> gone ps then None else find_by_fd (srv_registry s1) f)" by blast
    have "server_steps s s'" using server_step.hangup[OF s1] s'(2) by (rule converse_rtranclp_into_rtranclp)
    moreover have "hangup_loop s (p # ps) = ((Inr (), s'), mark_gone (p # ps))"
      using True Cons.prems(1) s1 s'(1) by simp
    ultimately show ?thesis using s'(3-8) r True by (intro exI[of _ s']) (auto simp: gone_Cons)
  next
    case False
    then show ?thesis using Cons.IH[OF Cons.prems] by (auto simp: gone_Cons)
  qed
qed

section \<open>The loop over readable clients\<close>

definition live :: "pollfd list \<Rightarrow> int list" where
  "live ps = filter (\<lambda>f. 0 \<le> f) (map pfd ps)"

lemma live_simps [simp]:
  "live [] = []" "live (p # ps) = (if 0 \<le> pfd p then [pfd p] else []) @ live ps"
  "live (ps @ qs) = live ps @ live qs"
  by (simp_all add: live_def)

lemma data_loop_clients:
  "data_loop acc err s ps added = Some ((r, s'), ps') \<Longrightarrow>
   \<forall>p \<in> set ps. 0 \<le> pfd p \<longrightarrow> pfd p \<noteq> listen_fd s \<Longrightarrow> short_names s \<Longrightarrow> distinct (live ps) \<Longrightarrow>
   \<forall>f \<in> set (live ps). find_by_fd (srv_registry s) f \<noteq> None \<Longrightarrow>
   r = Inr () \<and> server_steps s s' \<and> listen_fd s' = listen_fd s \<and> running s' = running s \<and> short_names s' \<and>
   (\<forall>f. f \<notin> set (live ps) \<longrightarrow> (find_by_fd (srv_registry s') f = None \<longleftrightarrow> find_by_fd (srv_registry s) f = None)) \<and>
   (\<exists>qs. ps' = qs @ added \<and> distinct (live qs) \<and>
     set (live qs) = {f \<in> set (live ps). find_by_fd (srv_registry s') f \<noteq> None})"
proof (induction ps arbitrary: s r s' ps')
  case Nil
  then show ?case by simp
next
  case (Cons p ps)
  show ?case
  proof (cases "pfd p < 0 \<or> \<not> rev_in p")
    case True
    then obtain qs0 where q: "data_loop acc err s ps added = Some ((r, s'), qs0)" "ps' = p # qs0"
      using Cons.prems(1) by auto
    have "distinct (live ps)" "\<forall>f \<in> set (live ps). find_by_fd (srv_registry s) f \<noteq> None"
      using Cons.prems(4,5) by (auto split: if_splits)
    with Cons.IH[OF q(1)] Cons.prems(2,3) obtain qs where IH: "r = Inr ()" "server_steps s s'"
      "listen_fd s' = listen_fd s" "running s' = running s" "short_names s'"
      "\<forall>f. f \<notin> set (live ps) \<longrightarrow> (find_by_fd (srv_registry s') f = None \<longleftrightarrow> find_by_fd (srv_registry s) f = None)"
      "qs0 = qs @ added" "distinct (live qs)"
      "set (live qs) = {f \<in> set (live ps). find_by_fd (srv_registry s') f \<noteq> None}" by auto
    moreover have "0 \<le> pfd p \<Longrightarrow> pfd p \<notin> set (live ps) \<and> find_by_fd (srv_registry s') (pfd p) \<noteq> None"
      using Cons.prems(4,5) IH(6) by auto
    ultimately show ?thesis using q(2) by (intro conjI exI[of _ "p # qs"]) auto
  next
    case False
    then have p: "0 \<le> pfd p" "rev_in p" "pfd p \<noteq> listen_fd s" using Cons.prems(2) by auto
    then obtain r1 s1 where h: "handle_client_data (pfd p) s = Some (r1, s1)"
      using Cons.prems(1) by (cases "handle_client_data (pfd p) s") auto
    then have r1: "r1 = Inr ()" by (rule handle_client_data_ok)
    let ?p = "if find_by_fd (srv_registry s1) (pfd p) = None then p\<lparr>pfd := -1\<rparr> else p"
    obtain qs0 where q: "data_loop acc err s1 ps added = Some ((r, s'), qs0)" "ps' = ?p # qs0"
      using Cons.prems(1) p h r1 by (auto simp: Let_def)
    have fr: "listen_fd s1 = listen_fd s" "running s1 = running s" "short_names s1"
      using handle_client_data_frame[OF h] short_names_data[OF h Cons.prems(3)] by simp_all
    have oth: "find_by_fd (srv_registry s1) f = None \<longleftrightarrow> find_by_fd (srv_registry s) f = None" if "f \<noteq> pfd p" for f
      using handle_client_data_others[OF h that] by simp
    have nin: "pfd p \<notin> set (live ps)" and dl: "distinct (live ps)" using Cons.prems(4) p(1) by auto
    have "\<forall>f \<in> set (live ps). find_by_fd (srv_registry s1) f \<noteq> None"
      using Cons.prems(5) oth nin by (metis Un_iff live_simps(2) set_append)
    with Cons.IH[OF q(1)] Cons.prems(2) fr dl obtain qs where IH: "r = Inr ()" "server_steps s1 s'"
      "listen_fd s' = listen_fd s1" "running s' = running s1" "short_names s'"
      "\<forall>f. f \<notin> set (live ps) \<longrightarrow> (find_by_fd (srv_registry s') f = None \<longleftrightarrow> find_by_fd (srv_registry s1) f = None)"
      "qs0 = qs @ added" "distinct (live qs)"
      "set (live qs) = {f \<in> set (live ps). find_by_fd (srv_registry s') f \<noteq> None}" by auto
    have steps: "server_steps s s'" using server_step.data[OF h] IH(2) by (rule converse_rtranclp_into_rtranclp)
    have dom: "\<forall>f. f \<notin> set (live (p # ps)) \<longrightarrow>
        (find_by_fd (srv_registry s') f = None \<longleftrightarrow> find_by_fd (srv_registry s) f = None)"
      using IH(6) oth p(1) by auto
    have "find_by_fd (srv_registry s') (pfd p) = None \<longleftrightarrow> find_by_fd (srv_registry s1) (pfd p) = None"
      using IH(6) nin by blast
    then have "distinct (live (?p # qs)) \<and> set (live (?p # qs)) = {f \<in> set (live (p # ps)). find_by_fd (srv_registry s') f \<noteq> None}"
      using IH(8,9) nin p(1) by auto
    then show ?thesis using IH steps dom fr q(2) by (intro conjI exI[of _ "?p # qs"]) simp_all
  qed
qed

section \<open>One round\<close>

text \<open>The poll vector: the listening socket first, then exactly the connected clients.\<close>

definition poll_inv :: "server \<Rightarrow> pollfd list \<Rightarrow> bool" where
  "poll_inv s ps \<longleftrightarrow>
    (\<exists>l rest. ps = l # rest \<and> pfd l = listen_fd s \<and> 0 \<le> listen_fd s \<and> listen_fd s \<notin> set (map pfd rest) \<and>
      distinct (map pfd rest) \<and> set (map pfd rest) = dom (find_by_fd (srv_registry s)))"

definition loop_inv :: "server \<Rightarrow> pollfd list \<Rightarrow> bool" where
  "loop_inv s ps \<longleftrightarrow> server_inv s \<and> short_names s \<and> (running s \<longrightarrow> poll_inv s ps)"

text \<open>The state in which a round enters the loop over the readable entries, if it gets there.\<close>

definition data_phase :: "round_input \<Rightarrow> server \<Rightarrow> pollfd list \<Rightarrow> (server \<times> pollfd list) option" where
  "data_phase inp s ps =
    (case process_admin_queue s of
       (Inl e, s) \<Rightarrow> None
     | (Inr _, s) \<Rightarrow>
         let s = foldl (\<lambda>s q. apply_request q s) s (requests inp) in
         (case polled inp of
            PollReady revs \<Rightarrow>
              (case hangup_loop s (drop 1 (set_revents revs ps)) of
                 ((Inl e, s), _) \<Rightarrow> None
               | ((Inr _, s), rest) \<Rightarrow>
                   if \<not> running s then None else Some (s, take 1 (set_revents revs ps) @ rest))
          | _ \<Rightarrow> None))"

text \<open>What the kernel guarantees about \<^verbatim>\<open>accept\<close>: a new descriptor is not one that is open. The bound on
  ids says that the counter is not at its end.\<close>

definition kernel_ok :: "round_input \<Rightarrow> server \<Rightarrow> pollfd list \<Rightarrow> bool" where
  "kernel_ok inp s ps \<longleftrightarrow>
    (\<forall>s1 ps1. data_phase inp s ps = Some (s1, ps1) \<longrightarrow> 0 \<le> accepted inp \<longrightarrow>
      find_by_fd (srv_registry s1) (accepted inp) = None \<and> accepted inp \<noteq> listen_fd s1 \<and> ids_left s1)"

lemma map_pfd_set_revents [simp]: "map pfd (set_revents revs ps) = map pfd ps"
proof -
  let ?xs = "revs @ replicate (length ps) (False, False)"
  have "map pfd (map2 (\<lambda>(e, i) p. p\<lparr>rev_err := e, rev_in := i\<rparr>) ?xs ps) = map pfd (map snd (zip ?xs ps))"
    by (simp add: comp_def case_prod_beta')
  also have "map snd (zip ?xs ps) = ps" by (simp only: map_snd_zip_take) simp
  finally show ?thesis by (simp add: set_revents_def)
qed

lemma requests_steps: "server_steps s (foldl (\<lambda>s q. apply_request q s) s qs)"
proof (induction qs arbitrary: s)
  case (Cons q qs)
  have "server_step s (apply_request q s)" by (rule server_step.other_thread)
  with Cons show ?case by (simp add: converse_rtranclp_into_rtranclp)
qed simp

lemma requests_frame:
  defines "after \<equiv> \<lambda>s qs. foldl (\<lambda>s q. apply_request q s) s qs"
  shows "srv_registry (after s qs) = srv_registry s" "running (after s qs) \<longleftrightarrow> running s \<and> StopRequest \<notin> set qs"
    "running (after s qs) \<Longrightarrow> listen_fd (after s qs) = listen_fd s"
proof -
  have "srv_registry (after s qs) = srv_registry s \<and> (running (after s qs) \<longleftrightarrow> running s \<and> StopRequest \<notin> set qs) \<and>
      (running (after s qs) \<longrightarrow> listen_fd (after s qs) = listen_fd s)" unfolding after_def
  proof (induction qs arbitrary: s)
    case (Cons q qs)
    show ?case using Cons[of "apply_request q s"] by (cases q) (auto simp: request_stop_eq submit_admin_line_def)
  qed simp
  then show "srv_registry (after s qs) = srv_registry s" "running (after s qs) \<longleftrightarrow> running s \<and> StopRequest \<notin> set qs"
    "running (after s qs) \<Longrightarrow> listen_fd (after s qs) = listen_fd s" by blast+
qed

lemma admin_frame:
  "srv_registry (snd (process_admin_queue s)) = srv_registry s"
  "running (snd (process_admin_queue s)) = running s"
  "listen_fd (snd (process_admin_queue s)) = listen_fd s"
proof -
  have "(\<lambda>s'. srv_registry s' = srv_registry s \<and> running s' = running s \<and> listen_fd s' = listen_fd s)
      (snd (process_admin_queue s))"
    unfolding process_admin_queue_def by (rule process_admin_lines_keep) (simp_all add: ban_ids_frame)
  then show "srv_registry (snd (process_admin_queue s)) = srv_registry s"
    "running (snd (process_admin_queue s)) = running s" "listen_fd (snd (process_admin_queue s)) = listen_fd s"
    by simp_all
qed

lemma live_nonneg: "\<forall>f \<in> set (map pfd ps). 0 \<le> f \<Longrightarrow> live ps = map pfd ps"
  by (simp add: live_def filter_id_conv)

lemma live_mark_gone: "live (mark_gone ps) = filter (\<lambda>f. 0 \<le> f) (map pfd (filter (\<lambda>p. \<not> rev_err p) ps))"
  by (induction ps) (simp_all add: live_def)

text \<open>The kernel's answers do not touch the descriptors of the poll set.\<close>

lemma poll_inv_revents:
  assumes "loop_inv s ps" and "running s"
  obtains l rest where "set_revents revs ps = l # rest" "pfd l = listen_fd s" "0 \<le> listen_fd s" "listen_fd s \<notin> set (map pfd rest)"
    "distinct (map pfd rest)" "set (map pfd rest) = dom (find_by_fd (srv_registry s))"
proof -
  obtain l0 rest0 where p0: "ps = l0 # rest0" "pfd l0 = listen_fd s" "0 \<le> listen_fd s" "listen_fd s \<notin> set (map pfd rest0)"
    "distinct (map pfd rest0)" "set (map pfd rest0) = dom (find_by_fd (srv_registry s))"
    using assms unfolding loop_inv_def poll_inv_def by blast
  have "map pfd (set_revents revs ps) = pfd l0 # map pfd rest0" using p0(1) by simp
  then obtain l rest where "set_revents revs ps = l # rest" "pfd l = pfd l0" "map pfd rest = map pfd rest0"
    by (cases "set_revents revs ps") auto
  then show thesis using p0 that by metis
qed

text \<open>The entries that are left after the hang-ups are the clients that are left.\<close>

lemma mark_gone_clients:
  assumes "distinct (map pfd rest)" and "set (map pfd rest) = dom F" and "\<forall>f \<in> dom F. 0 \<le> f"
    and "\<forall>f. F' f = (if f \<in> gone rest then None else F f)"
  shows "set (live (mark_gone rest)) = dom F' \<and> distinct (live (mark_gone rest)) \<and>
    set (live (mark_gone rest)) \<subseteq> set (map pfd rest)"
proof -
  have lv: "live (mark_gone rest) = map pfd (filter (\<lambda>p. \<not> rev_err p) rest)"
    unfolding live_mark_gone using assms(2,3) by (auto simp: filter_id_conv)
  have inj: "inj_on pfd (set rest)" using assms(1) by (simp add: distinct_map)
  have "f \<in> set (live (mark_gone rest)) \<longleftrightarrow> f \<in> dom F'" for f
  proof -
    have "f \<in> set (live (mark_gone rest)) \<longleftrightarrow> f \<in> set (map pfd rest) \<and> f \<notin> gone rest"
      using inj by (auto simp: gone_def lv dest: inj_onD)
    also have "\<dots> \<longleftrightarrow> f \<in> dom F'" using assms(2,4) by (simp add: dom_def)
    finally show ?thesis .
  qed
  moreover have "distinct (live (mark_gone rest))" "set (live (mark_gone rest)) \<subseteq> set (map pfd rest)"
    using assms(1) by (auto simp: lv distinct_map intro: inj_on_subset)
  ultimately show ?thesis by blast
qed

lemma data_phase_inv:
  assumes "loop_inv s ps" and "running s" and "data_phase inp s ps = Some (s1, ps1)"
  obtains l rest where "server_steps s s1" "running s1" "short_names s1" "listen_fd s1 = listen_fd s"
    "ps1 = l # rest" "pfd l = listen_fd s" "0 \<le> listen_fd s" "listen_fd s \<notin> set (live rest)" "distinct (live rest)"
    "set (live rest) = dom (find_by_fd (srv_registry s1))"
proof -
  obtain sa where a: "process_admin_queue s = (Inr (), sa)"
    using assms(3) by (cases "process_admin_queue s"; cases "fst (process_admin_queue s)") (auto simp: data_phase_def)
  define sb where "sb = foldl (\<lambda>s q. apply_request q s) sa (requests inp)"
  obtain revs where polled: "polled inp = PollReady revs"
    using assms(3) a by (cases "polled inp") (auto simp: data_phase_def Let_def)
  have sa: "srv_registry sa = srv_registry s" "running sa = running s" "listen_fd sa = listen_fd s"
    using admin_frame[of s] a by simp_all
  have sb_reg: "srv_registry sb = srv_registry s" using requests_frame(1) sa(1) by (simp add: sb_def)
  let ?ps = "set_revents revs ps"
  obtain l rest where ps: "?ps = l # rest" "pfd l = listen_fd s" "0 \<le> listen_fd s" "listen_fd s \<notin> set (map pfd rest)"
    "distinct (map pfd rest)" "set (map pfd rest) = dom (find_by_fd (srv_registry s))"
    using poll_inv_revents[OF assms(1,2)] .
  have run: "running sb"
  proof (rule ccontr)
    assume "\<not> running sb"
    then show False using assms(3) a polled by (simp add: data_phase_def sb_def[symmetric] hangup_loop_stopped)
  qed
  have "short_names sb" using assms(1) sb_reg by (simp add: loop_inv_def short_names_def)
  from hangup_loop_running[OF run this, of rest] obtain s' where h: "hangup_loop sb rest = ((Inr (), s'), mark_gone rest)"
    "server_steps sb s'" "running s'" "short_names s'" "listen_fd s' = listen_fd sb"
    "\<forall>f. find_by_fd (srv_registry s') f = (if f \<in> gone rest then None else find_by_fd (srv_registry sb) f)" by blast
  have s1: "s1 = s'" "ps1 = l # mark_gone rest"
    using assms(3) a polled ps(1) h(1,3) by (simp_all add: data_phase_def sb_def[symmetric])
  have "server_steps s sa" using server_step.admin[OF a] by blast
  also have "server_steps sa sb" unfolding sb_def by (rule requests_steps)
  also note h(2)
  finally have steps: "server_steps s s1" by (simp add: s1)
  have listen: "listen_fd s1 = listen_fd s" using requests_frame(3)[of sa "requests inp"] run sa(3) h(5) by (simp add: s1 sb_def)
  have "\<forall>f \<in> dom (find_by_fd (srv_registry s)). 0 \<le> f"
    using assms(1) server_invD(10)[of s] by (simp add: loop_inv_def set_all_fds)
  note clients = mark_gone_clients[OF ps(5,6) this h(6)[unfolded sb_reg, folded s1(1)]]
  then have "listen_fd s \<notin> set (live (mark_gone rest))" using ps(4) by blast
  then show thesis using that[OF steps _ _ listen s1(2) ps(2,3)] clients h(3,4) s1(1) by simp
qed

lemma map_pfd_keep: "map pfd (filter (\<lambda>p. \<not> pfd p < 0) ps) = live ps"
  by (induction ps) (auto simp: live_def)

lemma data_loop_rest:
  assumes "data_loop acc err s rest added = Some ((r, s'), ps')"
    and "short_names s" "0 \<le> listen_fd s" "pfd l = listen_fd s" "listen_fd s \<notin> set (live rest)" "listen_fd s \<notin> set (live added)"
    and "distinct (live rest @ live added)" "set (live rest @ live added) = dom (find_by_fd (srv_registry s))"
  shows "r = Inr () \<and> server_steps s s' \<and> short_names s' \<and> running s' = running s \<and>
    poll_inv s' (filter (\<lambda>p. \<not> pfd p < 0) (l # ps'))"
proof -
  have "\<forall>p \<in> set rest. 0 \<le> pfd p \<longrightarrow> pfd p \<noteq> listen_fd s" using assms(5) by (auto simp: live_def image_iff)
  moreover have "\<forall>f \<in> set (live rest). find_by_fd (srv_registry s) f \<noteq> None" using assms(8) by auto
  ultimately obtain qs where d: "r = Inr ()" "server_steps s s'" "listen_fd s' = listen_fd s" "running s' = running s"
    "short_names s'"
    "\<forall>f. f \<notin> set (live rest) \<longrightarrow> (find_by_fd (srv_registry s') f = None \<longleftrightarrow> find_by_fd (srv_registry s) f = None)"
    "ps' = qs @ added" "distinct (live qs)"
    "set (live qs) = {f \<in> set (live rest). find_by_fd (srv_registry s') f \<noteq> None}"
    using data_loop_clients[OF assms(1) _ assms(2)] assms(7) by auto
  have "set (live (qs @ added)) = dom (find_by_fd (srv_registry s'))"
  proof (intro set_eqI)
    fix f
    show "f \<in> set (live (qs @ added)) \<longleftrightarrow> f \<in> dom (find_by_fd (srv_registry s'))"
      using d(6)[rule_format, of f] d(9) assms(7,8)
      by (cases "f \<in> set (live rest)") (auto simp: dom_def)
  qed
  moreover have "distinct (live (qs @ added))" using d(8,9) assms(7) by auto
  moreover have "listen_fd s \<notin> set (live (qs @ added))" using d(9) assms(5,6) by auto
  ultimately have "poll_inv s' (filter (\<lambda>p. \<not> pfd p < 0) (l # ps'))"
    using assms(3,4) d(3,7) unfolding poll_inv_def
    by (intro exI[of _ l] exI[of _ "filter (\<lambda>p. \<not> pfd p < 0) ps'"])
      (simp only: map_pfd_keep, simp)
  with d show ?thesis by blast
qed

lemma data_loop_round:
  assumes "data_loop acc err s (l # rest) [] = Some ((r, s'), ps')"
    and s: "server_inv s" "short_names s" "0 \<le> listen_fd s" "pfd l = listen_fd s" "listen_fd s \<notin> set (live rest)"
      "distinct (live rest)" "set (live rest) = dom (find_by_fd (srv_registry s))"
    and acc: "0 \<le> acc \<Longrightarrow> find_by_fd (srv_registry s) acc = None \<and> acc \<noteq> listen_fd s \<and> ids_left s"
  shows "r = Inr () \<and> server_steps s s' \<and> short_names s' \<and> running s' = running s \<and>
    poll_inv s' (filter (\<lambda>p. \<not> pfd p < 0) ps')"
proof -
  consider (quiet) "\<not> rev_in l" | (failed) "rev_in l" "acc < 0" | (new) "rev_in l" "0 \<le> acc" by linarith
  then show ?thesis
  proof cases
    case quiet
    then obtain qs where "data_loop acc err s rest [] = Some ((r, s'), qs)" "ps' = l # qs" using assms(1) by auto
    then show ?thesis using data_loop_rest[of acc err s rest "[]" r s' qs l] s by auto
  next
    case failed
    let ?s = "srv_emit (ShowAcceptFailed err) s"
    obtain qs where q: "data_loop acc err ?s rest [] = Some ((r, s'), qs)" "ps' = l # qs"
      using assms(1) failed s(3,4) by (auto simp: accept_client_def)
    have "short_names ?s" using s(2) by (rule short_namesI) simp
    then have "r = Inr () \<and> server_steps ?s s' \<and> short_names s' \<and> running s' = running ?s \<and>
        poll_inv s' (filter (\<lambda>p. \<not> pfd p < 0) (l # qs))"
      using data_loop_rest[OF q(1), of l] s by simp
    moreover have "server_step s ?s" by (rule server_step.view)
    ultimately show ?thesis using q(2) by (simp add: converse_rtranclp_into_rtranclp)
  next
    case new
    note fresh = acc[OF new(2)]
    obtain i F n where a: "allocate_client_id s = Some (i, s\<lparr>free_ids := F, next_id := n\<rparr>)"
      using allocate_fresh[OF s(1)] fresh by metis
    obtain s2 where ac: "accept_client acc err s = Some ((Inr (), [acc]), s2)"
      and s2: "srv_registry s2 = snd (registry_add (srv_registry s) acc i)" "running s2 = running s" "listen_fd s2 = listen_fd s"
      using accept_client_eq[OF new(2) a, of err] by simp
    obtain qs where q: "data_loop acc err s2 rest [new_pollfd acc] = Some ((r, s'), qs)" "ps' = l # qs"
      using assms(1) new(1) s(3,4) ac by auto
    have "short_names s2" using s(2) by (auto simp: short_names_def s2(1))
    moreover have "acc \<notin> set (live rest)" using fresh s(7) by auto
    ultimately have "r = Inr () \<and> server_steps s2 s' \<and> short_names s' \<and> running s' = running s2 \<and>
        poll_inv s' (filter (\<lambda>p. \<not> pfd p < 0) (l # qs))"
      using s fresh new(2) by (intro data_loop_rest[OF q(1)]) (auto simp: s2 new_pollfd_def)
    moreover have "server_step s s2" using fresh ac by (intro server_step.accept[where err = err]) auto
    ultimately show ?thesis using q(2) s2(2) by (simp add: converse_rtranclp_into_rtranclp)
  qed
qed

text \<open>The exceptions that can leave \<^verbatim>\<open>run\<close>: none of them is caused by a client.\<close>

definition fatal :: "exn \<Rightarrow> bool" where
  "fatal e \<longleftrightarrow> e = RuntimeError ''poll failed'' \<or> e = RuntimeError ''Too many banned ids''"

lemma ban_ids_Inl: "fst (ban_ids ids s) = Inl e \<Longrightarrow> fatal e"
  by (rule ban_ids_cases[of ids s])
    (auto simp: fatal_def encode_banned_ids_def split: if_splits sum.splits)

lemma process_admin_Inl: "fst (process_admin_queue s) = Inl e \<Longrightarrow> fatal e"
proof -
  have "fst (process_admin_lines lines s) = Inl e \<Longrightarrow> fatal e" for lines s
  proof (induction lines arbitrary: s)
    case (Cons line lines)
    show ?case
    proof (cases "parse_admin_command line")
      case (Some c)
      obtain r s1 where b: "ban_ids (ban_command_ids c) s = (r, s1)" by (cases "ban_ids (ban_command_ids c) s")
      then show ?thesis
        using Some Cons ban_ids_Inl[of "ban_command_ids c" s] by (cases r) simp_all
    qed (use Cons in simp)
  qed simp
  then show "fst (process_admin_queue s) = Inl e \<Longrightarrow> fatal e" unfolding process_admin_queue_def .
qed

text \<open>A round in which \<^verbatim>\<open>poll\<close> reports something and the server goes on.\<close>

lemma run_round_ready:
  assumes "loop_inv s ps" and "running s" and "kernel_ok inp s ps" and "process_admin_queue s = (Inr (), sa)"
    and "running (foldl (\<lambda>s q. apply_request q s) sa (requests inp))" and "polled inp = PollReady revs"
  shows "case run_round inp s ps of
      NextRound s' ps' \<Rightarrow> server_steps s s' \<and> loop_inv s' ps'
    | Stuck \<Rightarrow> True
    | _ \<Rightarrow> False"
proof -
  define sb where "sb = foldl (\<lambda>s q. apply_request q s) sa (requests inp)"
  let ?ps = "set_revents revs ps"
  have "srv_registry sb = srv_registry s"
    using requests_frame[of sa "requests inp"] admin_frame[of s] assms(4) by (simp add: sb_def)
  then have "short_names sb" using assms(1) by (simp add: loop_inv_def short_names_def)
  then obtain s1 where h: "hangup_loop sb (drop 1 ?ps) = ((Inr (), s1), mark_gone (drop 1 ?ps))" "running s1"
    using hangup_loop_running[of sb "drop 1 ?ps"] assms(5) by (auto simp: sb_def)
  let ?ps1 = "take 1 ?ps @ mark_gone (drop 1 ?ps)"
  have dp: "data_phase inp s ps = Some (s1, ?ps1)"
    using assms(4,6) h by (simp add: data_phase_def sb_def[symmetric])
  obtain l rest where d: "server_steps s s1" "running s1" "short_names s1" "listen_fd s1 = listen_fd s"
    "?ps1 = l # rest" "pfd l = listen_fd s" "0 \<le> listen_fd s" "listen_fd s \<notin> set (live rest)" "distinct (live rest)"
    "set (live rest) = dom (find_by_fd (srv_registry s1))"
    using data_phase_inv[OF assms(1,2) dp] .
  have inv1: "server_inv s1" using server_steps_inv[OF d(1)] assms(1) by (simp add: loop_inv_def)
  have rr: "run_round inp s ps = (case data_loop (accepted inp) (accept_errno inp) s1 (l # rest) [] of
       None \<Rightarrow> Stuck
     | Some ((Inl e, s), _) \<Rightarrow> Throw e s
     | Some ((Inr _, s), ps) \<Rightarrow> NextRound s (filter (\<lambda>p. \<not> pfd p < 0) ps))"
    using assms(4,6) h d(5) by (simp add: run_round_def sb_def[symmetric])
  show ?thesis
  proof (cases "data_loop (accepted inp) (accept_errno inp) s1 (l # rest) []")
    case (Some z)
    obtain r s' ps' where z: "z = ((r, s'), ps')" by (metis prod.collapse)
    have "r = Inr () \<and> server_steps s1 s' \<and> short_names s' \<and> running s' = running s1 \<and>
        poll_inv s' (filter (\<lambda>p. \<not> pfd p < 0) ps')"
      using Some z d inv1 assms(3) dp
      by (intro data_loop_round[of "accepted inp" "accept_errno inp" s1 l rest]) (auto simp: kernel_ok_def)
    moreover from this have "server_steps s s'" using d(1) by (meson rtranclp_trans)
    moreover from this have "server_inv s'" using server_steps_inv assms(1) by (auto simp: loop_inv_def)
    ultimately show ?thesis using rr Some z by (simp add: loop_inv_def)
  qed (simp add: rr)
qed

lemma run_round_inv:
  assumes "loop_inv s ps" and "running s" and "kernel_ok inp s ps"
  shows "case run_round inp s ps of
      NextRound s' ps' \<Rightarrow> server_steps s s' \<and> loop_inv s' ps'
    | LeaveLoop s' \<Rightarrow> server_steps s s' \<and> \<not> running s'
    | Throw e s' \<Rightarrow> server_steps s s' \<and> fatal e
    | Stuck \<Rightarrow> True"
proof -
  obtain ra sa where a: "process_admin_queue s = (ra, sa)" by (cases "process_admin_queue s")
  have sa: "server_steps s sa" using server_step.admin[OF a] by blast
  show ?thesis
  proof (cases ra)
    case (Inl e)
    then show ?thesis using a sa process_admin_Inl[of s e] by (simp add: run_round_def)
  next
    case (Inr u)
    define sb where "sb = foldl (\<lambda>s q. apply_request q s) sa (requests inp)"
    have sb: "server_steps s sb" using sa requests_steps[of sa "requests inp"] unfolding sb_def by (rule rtranclp_trans)
    have reg: "srv_registry sb = srv_registry s" and lst: "running sb \<Longrightarrow> listen_fd sb = listen_fd s"
      using requests_frame[of sa "requests inp"] admin_frame[of s] a by (simp_all add: sb_def)
    have inv: "server_inv sb" "short_names sb"
      using assms(1) server_steps_inv[OF sb] reg by (auto simp: loop_inv_def short_names_def)
    have loop: "loop_inv sb ps" using assms(1,2) inv reg lst by (auto simp: loop_inv_def poll_inv_def)
    show ?thesis
    proof (cases "polled inp")
      case (PollReady revs)
      show ?thesis
      proof (cases "running sb")
        case False
        then show ?thesis using a Inr PollReady sb
          by (simp add: run_round_def sb_def[symmetric] hangup_loop_stopped)
      next
        case True
        then show ?thesis using run_round_ready[OF assms _ _ PollReady] a Inr by (simp add: sb_def split: round_end.splits)
      qed
    qed (use a Inr sb loop in \<open>simp_all add: run_round_def sb_def[symmetric] fatal_def\<close>)
  qed
qed

section \<open>Whole runs\<close>

text \<open>The kernel keeps its promise in every round of a run.\<close>

fun kernel_ok_run :: "round_input list \<Rightarrow> server \<Rightarrow> pollfd list \<Rightarrow> bool" where
  "kernel_ok_run [] s ps \<longleftrightarrow> True"
| "kernel_ok_run (inp # inps) s ps \<longleftrightarrow> running s \<longrightarrow> kernel_ok inp s ps \<and>
     (case run_round inp s ps of NextRound s' ps' \<Rightarrow> kernel_ok_run inps s' ps' | _ \<Rightarrow> True)"

lemma disconnect_all_empty:
  assumes "server_inv s"
  shows "find_by_fd (srv_registry (disconnect_all_clients s)) = Map.empty"
proof -
  have "find_by_fd (srv_registry (disconnect_all_clients s)) =
      find_by_fd (srv_registry s) |` (- set (all_fds (srv_registry s)))"
    unfolding disconnect_all_clients_def
    using foldl_disconnect[of "all_fds (srv_registry s)" s] registry_invD(1)[OF server_invD(1)[OF assms]]
    by (simp add: set_all_fds)
  then show ?thesis by (auto simp: restrict_map_def set_all_fds fun_eq_iff)
qed

lemma run_loop_inv:
  "loop_inv s ps \<Longrightarrow> kernel_ok_run inps s ps \<Longrightarrow>
   (case run_loop inps s ps of
      Waiting s' ps' \<Rightarrow> server_steps s s' \<and> loop_inv s' ps' \<and> running s'
    | Returned s' \<Rightarrow> server_steps s s' \<and> find_by_fd (srv_registry s') = Map.empty
    | Threw e s' \<Rightarrow> server_steps s s' \<and> fatal e
    | Blocked \<Rightarrow> True)"
proof (induction inps arbitrary: s ps)
  case Nil
  then have "server_inv s" by (simp add: loop_inv_def)
  with Nil show ?case
    using disconnect_all_empty r_into_rtranclp[of server_step, OF server_step.shut_down]
    by (subst run_loop.simps) simp
next
  case (Cons inp inps)
  have inv: "server_inv s" using Cons.prems by (simp add: loop_inv_def)
  show ?case
  proof (cases "running s")
    case False
    then show ?thesis
      using inv disconnect_all_empty r_into_rtranclp[of server_step, OF server_step.shut_down]
      by (subst run_loop.simps) simp
  next
    case True
    note r = run_round_inv[OF Cons.prems(1) True, of inp]
    show ?thesis
    proof (cases "run_round inp s ps")
      case (NextRound s1 ps1)
      then have s1: "server_steps s s1" "loop_inv s1 ps1" "kernel_ok_run inps s1 ps1"
        using r Cons.prems(2) True by simp_all
      have "run_loop (inp # inps) s ps = run_loop inps s1 ps1"
        using True NextRound by (subst run_loop.simps) simp
      with Cons.IH[OF s1(2,3)] s1(1) show ?thesis by (auto split: run_result.splits)
    next
      case (LeaveLoop s1)
      then have "server_steps s s1" using r Cons.prems(2) True by simp
      moreover from this have "server_inv s1" using inv server_steps_inv by blast
      moreover have "server_step s1 (disconnect_all_clients s1)" by (rule server_step.shut_down)
      ultimately show ?thesis
        using True LeaveLoop disconnect_all_empty[of s1] by (subst run_loop.simps) (simp add: rtranclp.rtrancl_into_rtrancl)
    next
      case (Throw e s1)
      then show ?thesis using r Cons.prems(2) True by (subst run_loop.simps) simp
    next
      case Stuck
      then show ?thesis using True by (subst run_loop.simps) simp
    qed
  qed
qed

abbreviation started :: "string \<Rightarrow> u16 \<Rightarrow> int \<Rightarrow> server" where
  "started ip port lfd \<equiv> srv_emit (ShowListening ip port) (init_server lfd)"

lemma server_run_inv:
  assumes "0 \<le> lfd" and "kernel_ok_run inps (started ip port lfd) [new_pollfd lfd]"
  shows "case server_run ip port inps (init_server lfd) of
      Waiting s' ps' \<Rightarrow> server_steps (init_server lfd) s' \<and> loop_inv s' ps' \<and> running s'
    | Returned s' \<Rightarrow> server_steps (init_server lfd) s' \<and> find_by_fd (srv_registry s') = Map.empty
    | Threw e s' \<Rightarrow> server_steps (init_server lfd) s' \<and> fatal e
    | Blocked \<Rightarrow> True"
proof -
  have reg: "find_by_fd (srv_registry (init_server lfd)) = Map.empty"
    by (simp add: init_server_def find_by_fd_def empty_registry_def fun_eq_iff)
  have "listen_fd (init_server lfd) = lfd" by (simp add: init_server_def)
  with reg assms(1) have "loop_inv (started ip port lfd) [new_pollfd lfd]"
    by (simp add: loop_inv_def poll_inv_def short_names_def new_pollfd_def)
  note run = run_loop_inv[OF this assms(2)]
  have "server_step (init_server lfd) (started ip port lfd)" by (rule server_step.view)
  then have "server_steps (started ip port lfd) s' \<Longrightarrow> server_steps (init_server lfd) s'" for s'
    by (rule converse_rtranclp_into_rtranclp)
  with run show ?thesis
    by (auto simp: server_run_def \<open>listen_fd (init_server lfd) = lfd\<close> split: run_result.splits)
qed

section \<open>Properties\<close>


text \<open>One round in which a client connects.\<close>

definition connect_round :: round_input where
  "connect_round = \<lparr>requests = [], polled = PollReady [(False, True)], accepted = 7, accept_errno = ''''\<rparr>"

lemma connect_round_eval:
  "data_phase connect_round (started ''0.0.0.0'' 502 3) [new_pollfd 3] =
     Some (started ''0.0.0.0'' 502 3, [\<lparr>pfd = 3, rev_err = False, rev_in = True\<rparr>])"
  "\<exists>s ps. run_round connect_round (started ''0.0.0.0'' 502 3) [new_pollfd 3] = NextRound s ps \<and> running s"
proof -
  let ?s = "started ''0.0.0.0'' 502 3"
  have q: "?s\<lparr>admin_queue := []\<rparr> = ?s" by (rule server.equality) (simp_all add: init_server_def)
  have a: "process_admin_queue ?s = (Inr (), ?s)"
    unfolding process_admin_queue_def q by (simp add: init_server_def)
  have run: "running ?s" "listen_fd ?s = 3" by (simp_all add: init_server_def)
  show "data_phase connect_round ?s [new_pollfd 3] = Some (?s, [\<lparr>pfd = 3, rev_err = False, rev_in = True\<rparr>])"
    using run by (simp add: data_phase_def a connect_round_def set_revents_def new_pollfd_def)
  have "server_inv ?s" "ids_left ?s" by (simp, simp add: ids_left_def init_server_def)
  then obtain i F n where "allocate_client_id ?s = Some (i, ?s\<lparr>free_ids := F, next_id := n\<rparr>)"
    using allocate_fresh by metis
  from accept_client_eq[OF _ this, of 7 "''''"] obtain s2 where "accept_client 7 '''' ?s = Some ((Inr (), [7]), s2)" "running s2"
    using run by auto
  then show "\<exists>s ps. run_round connect_round ?s [new_pollfd 3] = NextRound s ps \<and> running s"
    using run by (simp add: run_round_def a connect_round_def set_revents_def new_pollfd_def)
qed

lemma connect_round_ok: "kernel_ok_run [connect_round] (started ''0.0.0.0'' 502 3) [new_pollfd 3]"
  using connect_round_eval by (auto simp: kernel_ok_def ids_left_def connect_round_def)
    (simp_all add: init_server_def find_by_fd_def empty_registry_def)


text \<open>However the clients behave, the server ends with an exception only when \<^verbatim>\<open>poll\<close> itself fails or
  when one admin line bans more than 65535 new ids.\<close>

theorem run_not_ended_by_clients:
  assumes "0 \<le> lfd" and "kernel_ok_run inps (started ip port lfd) [new_pollfd lfd]"
    and "server_run ip port inps (init_server lfd) = Threw e s"
  shows "e = RuntimeError ''poll failed'' \<or> e = RuntimeError ''Too many banned ids''"
  using server_run_inv[OF assms(1,2)] assms(3) by (simp add: fatal_def)

definition failing_round :: round_input where
  "failing_round = \<lparr>requests = [], polled = PollError, accepted = -1, accept_errno = ''''\<rparr>"

lemma started_admin: "process_admin_queue (started ip port lfd) = (Inr (), started ip port lfd)"
proof -
  let ?s = "started ip port lfd"
  have "?s\<lparr>admin_queue := []\<rparr> = ?s" by (rule server.equality) (simp_all add: init_server_def)
  then show ?thesis by (simp add: process_admin_queue_def) (simp add: init_server_def)
qed

theorem run_not_ended_by_clients_witness:
  "\<exists>e s. server_run ''0.0.0.0'' 502 [failing_round] (init_server 3) = Threw e s \<and>
     (e = RuntimeError ''poll failed'' \<or> e = RuntimeError ''Too many banned ids'')"
proof -
  have r: "running (started ''0.0.0.0'' 502 3)" by (simp add: init_server_def)
  then have "server_run ''0.0.0.0'' 502 [failing_round] (init_server 3) =
      Threw (RuntimeError ''poll failed'') (started ''0.0.0.0'' 502 3)"
    by (simp add: server_run_def run_loop.simps run_round_def started_admin failing_round_def)
  moreover have "kernel_ok_run [failing_round] (started ''0.0.0.0'' 502 3) [new_pollfd 3]"
    using r by (simp add: kernel_ok_def data_phase_def started_admin run_round_def failing_round_def)
  ultimately show ?thesis using run_not_ended_by_clients[of 3 "[failing_round]"] by blast
qed

text \<open>When \<^verbatim>\<open>run\<close> returns, no client is connected any more.\<close>

theorem run_returns_without_clients:
  assumes "0 \<le> lfd" and "kernel_ok_run inps (started ip port lfd) [new_pollfd lfd]"
    and "server_run ip port inps (init_server lfd) = Returned s"
  shows "find_by_fd (srv_registry s) = Map.empty \<and> server_steps (init_server lfd) s"
  using server_run_inv[OF assms(1,2)] assms(3) by simp

lemma foldl_keep: "(\<And>a x. f (g a x) = f a) \<Longrightarrow> f (foldl g a xs) = f a"
  by (induction xs arbitrary: a) simp_all

lemma ban_ids_sockets: "sockets (snd (ban_ids ids s)) = sockets s"
proof -
  have b: "sockets (snd (broadcast_banned_ids l t)) = sockets t" for l t
    by (auto simp: broadcast_banned_ids_def split: sum.splits option.splits intro!: foldl_keep)
  have f: "sockets (foldl (\<lambda>s i. case fd_by_id (srv_registry s) i of
      None \<Rightarrow> s | Some fd \<Rightarrow> srv_emit (Shutdown fd) s) t l) = sockets t" for l t
    by (rule foldl_keep) (simp split: option.splits)
  obtain banned free newly where l: "ban_loop ids (srv_banned s) (free_ids s) [] = (banned, free, newly)"
    by (metis prod_cases3)
  let ?s = "s\<lparr>srv_context := (srv_context s)\<lparr>banned_ids := banned\<rparr>, free_ids := free\<rparr>"
  obtain r t where "broadcast_banned_ids newly ?s = (r, t)" by (cases "broadcast_banned_ids newly ?s")
  moreover from this have "sockets t = sockets s" using b[of newly ?s] by simp
  ultimately show ?thesis by (simp add: ban_ids_def l f Let_def split: sum.splits)
qed

lemma admin_queue_sockets: "sockets (snd (process_admin_queue s)) = sockets s"
  unfolding process_admin_queue_def
  by (rule process_admin_lines_keep[where Q = "\<lambda>s'. sockets s' = sockets s"]) (simp_all add: ban_ids_sockets)

lemma apply_request_sockets: "sockets (apply_request q s) = sockets s"
  by (cases q) (auto simp: request_stop_def submit_admin_line_def foldl_keep)

lemma disconnect_all_sockets: "sockets (disconnect_all_clients s) = sockets s"
  unfolding disconnect_all_clients_def
  by (rule foldl_keep) (simp add: disconnect_client_def Let_def split: prod.splits option.splits)

text \<open>C18: A stop request that arrives while the server waits in \<^verbatim>\<open>poll\<close> ends the run in the same round,
  whatever \<^verbatim>\<open>poll\<close> reports and whatever the sockets hold: the server does not read from any socket
  again. Only a failing admin line can come before it.\<close>

theorem stop_request_honoured:
  assumes "running s" and "StopRequest \<in> set (requests inp)" and "fst (process_admin_queue s) = Inr ()"
  shows "\<exists>s'. run_loop (inp # inps) s ps = Returned s' \<and> sockets s' = sockets s"
proof -
  obtain sa where a: "process_admin_queue s = (Inr (), sa)" using assms(3) by (metis prod.collapse)
  let ?s = "foldl (\<lambda>s q. apply_request q s) sa (requests inp)"
  have stopped: "\<not> running ?s" using requests_frame(2)[of sa "requests inp"] assms(2) by simp
  have unread: "sockets (disconnect_all_clients ?s) = sockets s"
    using admin_queue_sockets[of s] a by (simp add: disconnect_all_sockets foldl_keep[of sockets] apply_request_sockets)
  consider "run_round inp s ps = LeaveLoop ?s" | "run_round inp s ps = NextRound ?s ps"
    using a stopped hangup_loop_stopped[OF stopped] by (cases "polled inp") (simp_all add: run_round_def)
  then show ?thesis
  proof cases
    case 1
    then show ?thesis using assms(1) unread by (subst run_loop.simps) simp
  next
    case 2
    have "run_loop inps ?s ps = Returned (disconnect_all_clients ?s)"
      using stopped by (subst run_loop.simps) simp
    then show ?thesis using assms(1) 2 unread by (subst run_loop.simps) simp
  qed
qed

definition stopping_round :: round_input where
  "stopping_round = \<lparr>requests = [StopRequest], polled = PollReady [(False, True)], accepted = -1, accept_errno = ''''\<rparr>"

theorem stop_request_honoured_witness:
  "\<exists>s'. run_loop [stopping_round] (started ''0.0.0.0'' 502 3) [new_pollfd 3] = Returned s' \<and> sockets s' = (\<lambda>_. [])"
proof -
  have "running (started ''0.0.0.0'' 502 3)" by (simp add: init_server_def)
  moreover have "sockets (started ''0.0.0.0'' 502 3) = (\<lambda>_. [])" by (simp add: init_server_def)
  ultimately show ?thesis
    using stop_request_honoured[of "started ''0.0.0.0'' 502 3" stopping_round "[]" "[new_pollfd 3]"]
    by (simp add: started_admin stopping_round_def)
qed

theorem run_returns_without_clients_witness:
  "\<exists>s. server_run ''0.0.0.0'' 502 [stopping_round] (init_server 3) = Returned s \<and> find_by_fd (srv_registry s) = Map.empty"
proof -
  let ?s = "started ''0.0.0.0'' 502 3"
  have r: "running ?s" by (simp add: init_server_def)
  have stop: "\<not> running (request_stop ?s)" by (simp add: request_stop_eq)
  then have rr: "run_round stopping_round ?s [new_pollfd 3] = LeaveLoop (request_stop ?s)"
    by (simp add: run_round_def started_admin stopping_round_def hangup_loop_stopped)
  have ret: "server_run ''0.0.0.0'' 502 [stopping_round] (init_server 3) = Returned (disconnect_all_clients (request_stop ?s))"
    using r rr by (simp add: server_run_def run_loop.simps) (simp add: init_server_def)
  have ok: "kernel_ok_run [stopping_round] ?s [new_pollfd 3]"
    using r rr by (simp add: kernel_ok_def stopping_round_def)
  show ?thesis using run_returns_without_clients[OF _ ok ret] ret by simp
qed

end
