(* ===== verification/Message.thy ===== *)
theory Message
  imports Protocol Text
begin

text \<open>
  The typed messages of \<^verbatim>\<open>common/Message.hpp\<close>: the class template \<^verbatim>\<open>Message<RecipientT>\<close> with its two
  recipient kinds, and the parsers of the \<^verbatim>\<open>recipient:text\<close> lines that a user types.

  A template over traits is a definition that takes the operations of the traits as arguments;
  what the traits have to satisfy is the locale \<open>recipient_traits\<close>, interpreted on both.
\<close>

section \<open>Recipient traits\<close>

record 'r message =
  recipient :: 'r
  message_payload :: string
  from_id :: u32

definition id_serialize :: "u32 \<Rightarrow> bytes res" where
  "id_serialize v = Inr (encode_u32_be v)"

definition id_deserialize :: "bytes \<Rightarrow> u32 res" where
  "id_deserialize data =
    (if length data < kUint32Size then Inl (RuntimeError ''Invalid id recipient payload'')
     else read_u32_be data)"

definition nickname_serialize :: "string \<Rightarrow> bytes res" where
  "nickname_serialize v = encode_string v"

definition nickname_deserialize :: "bytes \<Rightarrow> string res" where
  "nickname_deserialize data = decode_string data"

text \<open>How far each branch of \<^verbatim>\<open>if constexpr\<close> in \<^verbatim>\<open>Message::deserialize\<close> moves the offset.\<close>

definition id_advance :: "bytes \<Rightarrow> nat res" where
  "id_advance data = Inr kUint32Size"

definition nickname_advance :: "bytes \<Rightarrow> nat res" where
  "nickname_advance data = bindr (read_u16_be data) (\<lambda>str_len. Inr (kUint16Size + unat str_len))"

section \<open>Message\<close>

definition message_serialize :: "byte \<Rightarrow> ('r \<Rightarrow> bytes res) \<Rightarrow> 'r message \<Rightarrow> bytes res" where
  "message_serialize tag ser m =
    bindr (ser (recipient m)) (\<lambda>recipient_bytes.
    bindr (encode_string (message_payload m)) (\<lambda>payload_bytes.
      Inr ([tag] @ recipient_bytes @ payload_bytes)))"

definition message_deserialize ::
  "byte \<Rightarrow> (bytes \<Rightarrow> 'r res) \<Rightarrow> (bytes \<Rightarrow> nat res) \<Rightarrow> bytes \<Rightarrow> 'r message res" where
  "message_deserialize tag des advance data =
    (if length data < 1 then Inl (RuntimeError ''Empty message payload'')
     else if data ! 0 \<noteq> tag then Inl (RuntimeError ''Recipient tag mismatch'')
     else bindr (des (drop 1 data)) (\<lambda>r.
       bindr (advance (drop 1 data)) (\<lambda>n.
       bindr (decode_string (drop (1 + n) data)) (\<lambda>body.
         Inr \<lparr>recipient = r, message_payload = body, from_id = 0\<rparr>))))"

abbreviation "serialize_id_message \<equiv> message_serialize kRecipientById id_serialize"
abbreviation "deserialize_id_message \<equiv> message_deserialize kRecipientById id_deserialize id_advance"
abbreviation "serialize_nickname_message \<equiv> message_serialize kRecipientByNickname nickname_serialize"
abbreviation "deserialize_nickname_message \<equiv>
  message_deserialize kRecipientByNickname nickname_deserialize nickname_advance"

section \<open>Typed lines\<close>

definition is_numeric_recipient :: "string \<Rightarrow> bool" where
  "is_numeric_recipient txt \<longleftrightarrow> txt \<noteq> '''' \<and> list_all is_digit txt"

definition parse_id_message :: "string \<Rightarrow> u32 \<Rightarrow> u32 message option res" where
  "parse_id_message line sender =
    (case split_first CHR '':'' line of
       None \<Rightarrow> Inr None
     | Some (rcpt, body) \<Rightarrow>
         if \<not> is_numeric_recipient rcpt then Inr None
         else bindr (stoul rcpt) (\<lambda>(v, _).
           Inr (Some \<lparr>recipient = ucast v, message_payload = body, from_id = sender\<rparr>)))"

definition parse_nickname_message :: "string \<Rightarrow> u32 \<Rightarrow> string message option" where
  "parse_nickname_message line sender =
    (case split_first CHR '':'' line of
       None \<Rightarrow> None
     | Some (rcpt, body) \<Rightarrow>
         if is_numeric_recipient rcpt then None
         else Some \<lparr>recipient = rcpt, message_payload = body, from_id = sender\<rparr>)"

section \<open>The contract of the traits\<close>

locale recipient_traits =
  fixes tag :: byte
    and ser :: "'r \<Rightarrow> bytes res"
    and des :: "bytes \<Rightarrow> 'r res"
    and advance :: "bytes \<Rightarrow> nat res"
  assumes des_ser: "ser r = Inr bs \<Longrightarrow> des (bs @ rest) = Inr r"
    and advance_ser: "ser r = Inr bs \<Longrightarrow> advance (bs @ rest) = Inr (length bs)"
    and advance_total: "des data = Inr r \<Longrightarrow> \<exists>n. advance data = Inr n"
    and des_errors: "des data = Inl e \<Longrightarrow> e \<noteq> UndefinedBehaviour"
begin

lemma deserialize_serialize:
  "message_serialize tag ser m = Inr bs \<Longrightarrow>
   message_deserialize tag des advance (bs @ rest) = Inr (m\<lparr>from_id := 0\<rparr>)"
  by (auto simp: message_serialize_def message_deserialize_def des_ser advance_ser)

lemma deserialize_safe: "message_deserialize tag des advance data \<noteq> Inl UndefinedBehaviour"
proof
  assume "message_deserialize tag des advance data = Inl UndefinedBehaviour"
  then consider "des (drop 1 data) = Inl UndefinedBehaviour"
    | r where "des (drop 1 data) = Inr r" "advance (drop 1 data) = Inl UndefinedBehaviour"
    | n where "decode_string (drop (1 + n) data) = Inl UndefinedBehaviour"
    by (fastforce simp: message_deserialize_def bindr_eq_Inl split: if_splits)
  then show False
  proof cases
    case 1 then show ?thesis using des_errors by blast
  next
    case 2 then show ?thesis using advance_total by fastforce
  next
    case 3 then show ?thesis using decode_string_errors by fastforce
  qed
qed

end

interpretation id_traits: recipient_traits kRecipientById id_serialize id_deserialize id_advance
  by unfold_locales (auto simp: id_serialize_def id_deserialize_def id_advance_def split: if_splits)

interpretation nickname_traits: recipient_traits kRecipientByNickname nickname_serialize
  nickname_deserialize nickname_advance
proof unfold_locales
  fix r bs and rest :: bytes
  assume "nickname_serialize r = Inr bs"
  then have r: "length r \<le> 65535" "bs = string_field r" by (auto simp: nickname_serialize_def)
  then have "unat (word_of_nat (length r) :: u16) = length r" by (intro unat_u16_of_nat) simp
  with r show "nickname_advance (bs @ rest) = Inr (length bs)"
    by (simp add: nickname_advance_def string_field_def)
next
  fix data and r :: string
  assume "nickname_deserialize data = Inr r"
  then show "\<exists>n. nickname_advance data = Inr n"
    using decode_string_InrD(2)[of data r] read_u16_be_total[of data]
    by (auto simp: nickname_deserialize_def nickname_advance_def)
qed (auto simp: nickname_serialize_def nickname_deserialize_def dest: decode_string_errors)

section \<open>Properties\<close>

text \<open>What \<^verbatim>\<open>Message::serialize\<close> writes, \<^verbatim>\<open>Message::deserialize\<close> of the same type reads back, for both
  recipient types and with anything behind it; only the sender id, which is not on the wire, is
  reset. No input makes either of the two readers touch memory outside its buffer.\<close>

theorem message_roundtrip:
  "(serialize_id_message m = Inr bs \<longrightarrow> deserialize_id_message (bs @ rest) = Inr (m\<lparr>from_id := 0\<rparr>)) \<and>
   (serialize_nickname_message n = Inr bs \<longrightarrow>
      deserialize_nickname_message (bs @ rest) = Inr (n\<lparr>from_id := 0\<rparr>)) \<and>
   deserialize_id_message data \<noteq> Inl UndefinedBehaviour \<and>
   deserialize_nickname_message data \<noteq> Inl UndefinedBehaviour"
  using id_traits.deserialize_serialize nickname_traits.deserialize_serialize
    id_traits.deserialize_safe nickname_traits.deserialize_safe by blast

theorem message_roundtrip_witness:
  "deserialize_nickname_message ([2] @ string_field ''bob'' @ string_field ''hi'' @ [0]) =
     Inr \<lparr>recipient = ''bob'', message_payload = ''hi'', from_id = 0\<rparr>"
  using message_roundtrip[of undefined "[2] @ string_field ''bob'' @ string_field ''hi''" "[0]"
      "\<lparr>recipient = ''bob'', message_payload = ''hi'', from_id = 5\<rparr>"]
  by (simp add: message_serialize_def nickname_serialize_def)

lemma parse_colon_line:
  assumes "CHR '':'' \<notin> set rcpt"
  shows "(if is_numeric_recipient rcpt
     then parse_nickname_message (rcpt @ '':'' @ body) me = None \<and>
       parse_id_message (rcpt @ '':'' @ body) me =
         (if digits_value rcpt < 2 ^ 64
          then Inr (Some \<lparr>recipient = word_of_nat (digits_value rcpt), message_payload = body, from_id = me\<rparr>)
          else Inl (OutOfRange ''stoul''))
     else parse_id_message (rcpt @ '':'' @ body) me = Inr None \<and>
       parse_nickname_message (rcpt @ '':'' @ body) me =
         Some \<lparr>recipient = rcpt, message_payload = body, from_id = me\<rparr>)"
proof (cases "is_numeric_recipient rcpt")
  case True
  then have "rcpt \<noteq> ''''" "\<forall>c \<in> set rcpt. is_digit c"
    by (simp_all add: is_numeric_recipient_def list_all_iff)
  moreover have "(ucast (word_of_nat n :: u64) :: u32) = word_of_nat n" for n
    by (rule bit_word_eqI) (simp add: bit_simps)
  ultimately show ?thesis
    using True assms by (simp add: parse_id_message_def parse_nickname_message_def stoul_digits)
next
  case False
  then show ?thesis using assms by (simp add: parse_id_message_def parse_nickname_message_def)
qed

text \<open>A line with a colon is a message to an id or a message to a nickname and never both: digits
  only before the first colon make it the former. The text behind the first colon is the payload,
  further colons included.\<close>

theorem parse_line_split:
  assumes "CHR '':'' \<notin> set rcpt"
  shows "(if is_numeric_recipient rcpt
     then parse_nickname_message (rcpt @ '':'' @ body) me = None \<and>
       parse_id_message (rcpt @ '':'' @ body) me =
         (if digits_value rcpt < 2 ^ 64
          then Inr (Some \<lparr>recipient = word_of_nat (digits_value rcpt), message_payload = body, from_id = me\<rparr>)
          else Inl (OutOfRange ''stoul''))
     else parse_id_message (rcpt @ '':'' @ body) me = Inr None \<and>
       parse_nickname_message (rcpt @ '':'' @ body) me =
         Some \<lparr>recipient = rcpt, message_payload = body, from_id = me\<rparr>)"
  using assms by (rule parse_colon_line)

theorem parse_line_split_witness:
  "parse_id_message (''4294967297'' @ '':'' @ ''hi'') 9 =
     Inr (Some \<lparr>recipient = 1, message_payload = ''hi'', from_id = 9\<rparr>) \<and>
   parse_id_message (''99999999999999999999'' @ '':'' @ ''hi'') 9 = Inl (OutOfRange ''stoul'')"
  using parse_line_split[of "''4294967297''" "''hi''" 9] parse_line_split[of "''99999999999999999999''" "''hi''" 9]
  by (simp add: is_numeric_recipient_def is_digit_def digits_value_def digit_value_def)

end
