(* ===== verification/ClientInput.thy ===== *)
theory ClientInput
  imports Message Admin
begin

text \<open>
  What the client does with a typed line (\<^verbatim>\<open>client/viewmodel/InputCommandParser.hpp\<close>), how it builds
  the payload of an outgoing message (\<^verbatim>\<open>OutgoingMessageBuilder.cpp\<close>), and how a received message is
  shown (\<^verbatim>\<open>IncomingMessagePresenter.cpp\<close>).
\<close>

section \<open>InputCommandParser\<close>

datatype InputCommandType = CmdListUsers | CmdExit | CmdChatById | CmdChatByNickname | CmdChatBroadcast | CmdKeyOffer | CmdInvalid

record InputCommand =
  cmd_type :: InputCommandType
  recipient_id :: u32
  recipient_nickname :: string
  cmd_text :: string

definition default_command :: InputCommand where
  "default_command = \<lparr>cmd_type = CmdInvalid, recipient_id = 0, recipient_nickname = '''', cmd_text = ''''\<rparr>"

definition parse_input_line :: "string \<Rightarrow> u32 \<Rightarrow> InputCommand res" where
  "parse_input_line line me =
    (if line = '''' then Inr default_command
     else if line = ''/users'' then Inr (default_command\<lparr>cmd_type := CmdListUsers\<rparr>)
     else if line = ''/exit'' \<or> line = ''exit'' then Inr (default_command\<lparr>cmd_type := CmdExit\<rparr>)
     else if take 4 line = ''/key'' then
       let rest = trim_front (\<lambda>c. c = CHR '' '' \<or> c = CHR 0x09) (drop 4 line) in
       if rest = '''' then Inr default_command
       else case stoul rest of
           Inl _ \<Rightarrow> Inr default_command
         | Inr (v, consumed) \<Rightarrow>
             if consumed \<noteq> length rest \<or> v = 0 then Inr default_command
             else Inr (default_command\<lparr>cmd_type := CmdKeyOffer, recipient_id := ucast v\<rparr>)
     else bindr (parse_id_message line me) (\<lambda>id_message.
       case id_message of
         Some m \<Rightarrow> Inr (default_command\<lparr>cmd_type := CmdChatById, recipient_id := recipient m, cmd_text := message_payload m\<rparr>)
       | None \<Rightarrow>
           (case parse_nickname_message line me of
              Some m \<Rightarrow>
                if recipient m = kBroadcastRecipient then
                  Inr (default_command\<lparr>cmd_type := CmdChatBroadcast, cmd_text := message_payload m\<rparr>)
                else
                  Inr (default_command\<lparr>cmd_type := CmdChatByNickname, recipient_nickname := recipient m,
                         cmd_text := message_payload m\<rparr>)
            | None \<Rightarrow> Inr (default_command\<lparr>cmd_type := CmdInvalid\<rparr>))))"

section \<open>OutgoingMessageBuilder\<close>

definition build_chat_like :: "u32 \<Rightarrow> byte \<Rightarrow> bytes \<Rightarrow> string \<Rightarrow> bytes res" where
  "build_chat_like sender tag data txt =
    encode_chat \<lparr>chat_from_id = sender, recipient_tag = tag, recipient_data = data, chat_text = txt\<rparr>"

definition build_chat_by_id :: "u32 \<Rightarrow> u32 \<Rightarrow> string \<Rightarrow> bytes res" where
  "build_chat_by_id sender rcpt txt = build_chat_like sender kRecipientById (encode_u32_be rcpt) txt"

definition build_chat_by_nickname :: "u32 \<Rightarrow> string \<Rightarrow> string \<Rightarrow> bytes res" where
  "build_chat_by_nickname sender rcpt txt =
    bindr (encode_string rcpt) (\<lambda>data. build_chat_like sender kRecipientByNickname data txt)"

definition build_chat_broadcast :: "u32 \<Rightarrow> string \<Rightarrow> bytes res" where
  "build_chat_broadcast sender txt = build_chat_like sender kRecipientBroadcast [] txt"

definition build_key_offer :: "u32 \<Rightarrow> u32 \<Rightarrow> string \<Rightarrow> bytes res" where
  "build_key_offer sender rcpt body = build_chat_like sender kRecipientById (encode_u32_be rcpt) body"

definition build_room_key_offer :: "u32 \<Rightarrow> u32 \<Rightarrow> string \<Rightarrow> bytes res" where
  "build_room_key_offer sender rcpt body = build_chat_like sender kRecipientById (encode_u32_be rcpt) body"

definition build_list_users :: bytes where
  "build_list_users = encode_list_users"

section \<open>IncomingMessagePresenter\<close>

text \<open>The calls of the output view and of the logger, in the order the program makes them.\<close>

datatype client_event =
    ShowStatus string int
  | ShowInputReady
  | ShowInputPrompt
  | ShowConnected string u16
  | ShowMyId u32
  | ShowUsage
  | ShowDelivered u32 string
  | ShowUserJoined u32 string
  | ShowUserLeft u32 string
  | ShowUsersList "user_info list"
  | ShowError string
  | ShowNotice string
  | ShowExiting
  | ShowServerDisconnected
  | LogInfo string
  | LogError string
  | ClientSend MsgType bytes
  | ShutdownSocket int
  | CloseSocket int
  | CloseStdin

definition present :: "app_message \<Rightarrow> client_event list res" where
  "present m =
    (case msg_type m of
       Deliver \<Rightarrow> (case payload m of DeliverPayload i s \<Rightarrow> Inr [ShowDelivered i s] | _ \<Rightarrow> Inl BadVariantAccess)
     | UserJoined \<Rightarrow> (case payload m of UserJoinedPayload i n \<Rightarrow> Inr [ShowUserJoined i n] | _ \<Rightarrow> Inl BadVariantAccess)
     | UserLeft \<Rightarrow> (case payload m of UserLeftPayload i n \<Rightarrow> Inr [ShowUserLeft i n] | _ \<Rightarrow> Inl BadVariantAccess)
     | UsersList \<Rightarrow> (case payload m of UsersListPayload us \<Rightarrow> Inr [ShowUsersList us] | _ \<Rightarrow> Inl BadVariantAccess)
     | Error \<Rightarrow> (case payload m of ErrorPayload s \<Rightarrow> Inr [ShowError s] | _ \<Rightarrow> Inl BadVariantAccess)
     | _ \<Rightarrow> Inr [])"

section \<open>Lemmas\<close>

lemma build_chat_like_Inr [simp]:
  "build_chat_like i tag data s = Inr bs \<longleftrightarrow>
     length s \<le> 65535 \<and> bs = encode_u32_be i @ tag # data @ string_field s"
  by (auto simp: build_chat_like_def encode_chat_def encode_u32_be_def)

text \<open>A payload built for a recipient decodes to a chat for that recipient.\<close>

lemma decode_built_chat:
  assumes "build_chat_like i tag data s = Inr bs" and "t \<in> {Chat, KeyOffer, RoomKeyOffer}"
    and "wf_chat \<lparr>chat_from_id = i, recipient_tag = tag, recipient_data = data, chat_text = s\<rparr>"
  shows "decode_app_message (make_frame t bs tid) = Inr \<lparr>msg_type = t, payload = ChatPayload
    \<lparr>chat_from_id = i, recipient_tag = tag, recipient_data = data, chat_text = s\<rparr>\<rparr>"
proof -
  let ?c = "\<lparr>chat_from_id = i, recipient_tag = tag, recipient_data = data, chat_text = s\<rparr>"
  have "decode_payload t bs = Inr (ChatPayload ?c)"
    using assms by (intro decode_encode_payload) (auto simp: build_chat_like_def)
  then show ?thesis by simp
qed

lemma wf_chat_id [simp]: "wf_chat \<lparr>chat_from_id = i, recipient_tag = 1, recipient_data = encode_u32_be j, chat_text = s\<rparr>"
  by (simp add: wf_chat_def)

lemma wf_chat_all [simp]: "wf_chat \<lparr>chat_from_id = i, recipient_tag = 3, recipient_data = [], chat_text = s\<rparr>"
  by (simp add: wf_chat_def)

lemma parse_colon_command:
  assumes "CHR '':'' \<notin> set rcpt" and "take 4 (rcpt @ '':'' @ txt) \<noteq> ''/key''"
  shows "parse_input_line (rcpt @ '':'' @ txt) me =
    (if is_numeric_recipient rcpt then
       if digits_value rcpt < 2 ^ 64
       then Inr \<lparr>cmd_type = CmdChatById, recipient_id = word_of_nat (digits_value rcpt), recipient_nickname = '''', cmd_text = txt\<rparr>
       else Inl (OutOfRange ''stoul'')
     else if rcpt = ''all'' then Inr \<lparr>cmd_type = CmdChatBroadcast, recipient_id = 0, recipient_nickname = '''', cmd_text = txt\<rparr>
     else Inr \<lparr>cmd_type = CmdChatByNickname, recipient_id = 0, recipient_nickname = rcpt, cmd_text = txt\<rparr>)"
proof -
  let ?l = "rcpt @ '':'' @ txt"
  have n: "?l \<noteq> s" if "CHR '':'' \<notin> set s" for s
    using that by auto
  have "?l \<noteq> ''''" "?l \<noteq> ''/users''" "?l \<noteq> ''/exit''" "?l \<noteq> ''exit''"
    by (rule n, simp)+
  then have p: "parse_input_line ?l me = bindr (parse_id_message ?l me) (\<lambda>id_message.
       case id_message of
         Some m \<Rightarrow> Inr (default_command\<lparr>cmd_type := CmdChatById, recipient_id := recipient m, cmd_text := message_payload m\<rparr>)
       | None \<Rightarrow>
           (case parse_nickname_message ?l me of
              Some m \<Rightarrow>
                if recipient m = kBroadcastRecipient then
                  Inr (default_command\<lparr>cmd_type := CmdChatBroadcast, cmd_text := message_payload m\<rparr>)
                else
                  Inr (default_command\<lparr>cmd_type := CmdChatByNickname, recipient_nickname := recipient m,
                         cmd_text := message_payload m\<rparr>)
            | None \<Rightarrow> Inr (default_command\<lparr>cmd_type := CmdInvalid\<rparr>)))"
    using assms(2) unfolding parse_input_line_def by (simp only: if_False simp_thms)
  show ?thesis
    unfolding p using parse_colon_line[OF assms(1), of "txt" me]
    by (auto simp: default_command_def split: if_splits)
qed

lemma parse_chat_by_id:
  "parse_input_line (to_string (unat i) @ '':'' @ txt) me =
     Inr \<lparr>cmd_type = CmdChatById, recipient_id = i, recipient_nickname = '''', cmd_text = txt\<rparr>"
proof -
  let ?n = "to_string (unat i)"
  have d: "\<forall>c \<in> set ?n. is_digit c" using to_string_digits by blast
  then have num: "is_numeric_recipient ?n" and "CHR '':'' \<notin> set ?n"
    by (auto simp: is_numeric_recipient_def list_all_iff is_digit_def)
  moreover have "take 4 (?n @ '':'' @ txt) \<noteq> ''/key''"
    using d by (cases ?n) (auto simp: is_digit_def)
  moreover have "unat i < 2 ^ LENGTH(32)" by (rule unsigned_less)
  then have "unat i < 2 ^ 64" by simp
  ultimately show ?thesis by (subst parse_colon_command) simp_all
qed

section \<open>Properties\<close>



end
