(* ===== verification/KeyStore.thy ===== *)
theory KeyStore
  imports Protocol "HOL-Library.AList"
begin

text \<open>
  The client's keys (\<^verbatim>\<open>common/crypto/PeerKeyStore.cpp\<close>): its own key pair, the key of the room, the
  public keys of its peers by id, and the binary form in which they are stored.

  The peers are an association list because \<^verbatim>\<open>serialize\<close> iterates over them; the iteration order of the
  \<^verbatim>\<open>std::unordered_map\<close> is unspecified, and nothing proved here depends on it.
\<close>

section \<open>State\<close>

record peer_key_store =
  identity_secret :: bytes
  identity_public :: bytes
  room_key :: "bytes option"
  peers :: "(u32 \<times> bytes) list"

definition empty_key_store :: peer_key_store where
  "empty_key_store = \<lparr>identity_secret = [], identity_public = [], room_key = None, peers = []\<rparr>"

abbreviation (input) kSecretKeySize :: nat where "kSecretKeySize \<equiv> 32"
abbreviation (input) kPublicKeySize :: nat where "kPublicKeySize \<equiv> 32"
abbreviation (input) kRoomKeySize :: nat where "kRoomKeySize \<equiv> 32"
abbreviation (input) kKeyStoreVersion :: byte where "kKeyStoreVersion \<equiv> 1"

section \<open>Operations\<close>

definition has_identity :: "peer_key_store \<Rightarrow> bool" where
  "has_identity ks \<longleftrightarrow> identity_secret ks \<noteq> []"

definition has_room_key :: "peer_key_store \<Rightarrow> bool" where
  "has_room_key ks \<longleftrightarrow> room_key ks \<noteq> None"

definition set_identity :: "bytes \<Rightarrow> bytes \<Rightarrow> peer_key_store \<Rightarrow> peer_key_store res" where
  "set_identity sk pk ks =
    (if length sk \<noteq> kSecretKeySize \<or> length pk \<noteq> kPublicKeySize then Inl (RuntimeError ''invalid identity key sizes'')
     else Inr (ks\<lparr>identity_secret := sk, identity_public := pk\<rparr>))"

definition set_room_key :: "bytes \<Rightarrow> peer_key_store \<Rightarrow> peer_key_store res" where
  "set_room_key k ks =
    (if length k \<noteq> kRoomKeySize then Inl (RuntimeError ''invalid room key size'')
     else Inr (ks\<lparr>room_key := Some k\<rparr>))"

definition clear_room_key :: "peer_key_store \<Rightarrow> peer_key_store" where
  "clear_room_key ks = ks\<lparr>room_key := None\<rparr>"

definition set_peer_public :: "u32 \<Rightarrow> bytes \<Rightarrow> peer_key_store \<Rightarrow> peer_key_store res" where
  "set_peer_public i pk ks =
    (if length pk \<noteq> kPublicKeySize then Inl (RuntimeError ''invalid peer public key size'')
     else Inr (ks\<lparr>peers := AList.update i pk (peers ks)\<rparr>))"

definition erase_peer :: "u32 \<Rightarrow> peer_key_store \<Rightarrow> peer_key_store" where
  "erase_peer i ks = ks\<lparr>peers := AList.delete i (peers ks)\<rparr>"

definition erase_peers :: "u32 list \<Rightarrow> peer_key_store \<Rightarrow> peer_key_store" where
  "erase_peers ids ks = foldl (\<lambda>ks i. ks\<lparr>peers := AList.delete i (peers ks)\<rparr>) ks ids"

definition peer_public :: "peer_key_store \<Rightarrow> u32 \<Rightarrow> bytes option" where
  "peer_public ks i = map_of (peers ks) i"

definition has_peer :: "peer_key_store \<Rightarrow> u32 \<Rightarrow> bool" where
  "has_peer ks i \<longleftrightarrow> map_of (peers ks) i \<noteq> None"

section \<open>The stored form\<close>

definition encode_peer :: "u32 \<times> bytes \<Rightarrow> bytes" where
  "encode_peer p = write_u32_be [] (fst p) @ snd p"

definition serialize :: "peer_key_store \<Rightarrow> bytes res" where
  "serialize ks =
    (if \<not> has_identity ks then Inl (RuntimeError ''cannot serialize keystore without identity'')
     else
       let out = [kKeyStoreVersion] @ identity_secret ks @ identity_public ks @
             (case room_key ks of None \<Rightarrow> [0] | Some k \<Rightarrow> 1 # k)
       in if 65535 < length (peers ks) then Inl (RuntimeError ''too many peer keys'')
          else Inr (write_u16_be out (word_of_nat (length (peers ks))) @ concat (map encode_peer (peers ks))))"

definition decode_peer :: "bytes \<Rightarrow> nat \<Rightarrow> ((u32 \<times> bytes) \<times> nat) res" where
  "decode_peer blob offset =
    (if length blob < offset + kUint32Size + kPublicKeySize then Inl (RuntimeError ''truncated peer entry in keystore'')
     else bindr (read_u32_be (drop offset blob)) (\<lambda>i.
       let offset = offset + kUint32Size
       in Inr ((i, take kPublicKeySize (drop offset blob)), offset + kPublicKeySize)))"

text \<open>The loop over the entries: the ones read before a truncated one stay in the table.\<close>

fun read_peers :: "nat \<Rightarrow> bytes \<Rightarrow> nat \<Rightarrow> (u32 \<times> bytes) list \<Rightarrow> unit res \<times> (u32 \<times> bytes) list" where
  "read_peers 0 blob offset ps = (Inr (), ps)"
| "read_peers (Suc n) blob offset ps =
    (case decode_peer blob offset of
       Inl e \<Rightarrow> (Inl e, ps)
     | Inr ((i, pk), offset) \<Rightarrow> read_peers n blob offset (AList.update i pk ps))"

text \<open>\<^verbatim>\<open>deserialize\<close> assigns the members as it goes, so an exception leaves a partly replaced store.\<close>

definition deserialize :: "bytes \<Rightarrow> peer_key_store \<Rightarrow> unit res \<times> peer_key_store" where
  "deserialize blob ks =
    (if length blob < 1 + kSecretKeySize + kPublicKeySize + 1 + kUint16Size then
       (Inl (RuntimeError ''keystore blob too short''), ks)
     else if blob ! 0 \<noteq> kKeyStoreVersion then (Inl (RuntimeError ''unsupported keystore version''), ks)
     else
       let offset = 1;
           ks = ks\<lparr>identity_secret := take kSecretKeySize (drop offset blob)\<rparr>;
           offset = offset + kSecretKeySize;
           ks = ks\<lparr>identity_public := take kPublicKeySize (drop offset blob)\<rparr>;
           offset = offset + kPublicKeySize;
           has_room = (blob ! offset \<noteq> 0);
           offset = offset + 1;
           ks = ks\<lparr>room_key := None\<rparr>
       in if has_room \<and> length blob < offset + kRoomKeySize then
            (Inl (RuntimeError ''truncated room key in keystore''), ks)
          else
            let ks = (if has_room then ks\<lparr>room_key := Some (take kRoomKeySize (drop offset blob))\<rparr> else ks);
                offset = (if has_room then offset + kRoomKeySize else offset)
            in if length blob < offset + kUint16Size then
                 (Inl (RuntimeError ''truncated peer count in keystore''), ks)
               else case read_u16_be (drop offset blob) of
                   Inl e \<Rightarrow> (Inl e, ks)
                 | Inr count \<Rightarrow>
                     (case read_peers (unat count) blob (offset + kUint16Size) [] of
                        (r, ps) \<Rightarrow> (r, ks\<lparr>peers := ps\<rparr>)))"

section \<open>Invariant\<close>

definition key_store_inv :: "peer_key_store \<Rightarrow> bool" where
  "key_store_inv ks \<longleftrightarrow>
    (has_identity ks \<longrightarrow> length (identity_secret ks) = 32 \<and> length (identity_public ks) = 32) \<and>
    (\<forall>k. room_key ks = Some k \<longrightarrow> length k = 32) \<and>
    (\<forall>p \<in> set (peers ks). length (snd p) = 32) \<and> distinct (map fst (peers ks))"

lemma update_all_snd:
  "\<forall>p \<in> set ps. P (snd p) \<Longrightarrow> P v \<Longrightarrow> \<forall>p \<in> set (AList.update k v ps). P (snd p)"
  by (induction ps) auto

lemma key_store_inv_empty: "key_store_inv empty_key_store"
  by (simp add: key_store_inv_def empty_key_store_def has_identity_def)

lemma key_store_inv_set_identity: "key_store_inv ks \<Longrightarrow> set_identity sk pk ks = Inr ks' \<Longrightarrow> key_store_inv ks'"
  by (auto simp: key_store_inv_def set_identity_def has_identity_def split: if_splits)

lemma key_store_inv_set_room_key: "key_store_inv ks \<Longrightarrow> set_room_key k ks = Inr ks' \<Longrightarrow> key_store_inv ks'"
  by (auto simp: key_store_inv_def set_room_key_def has_identity_def split: if_splits)

lemma key_store_inv_set_peer:
  assumes "key_store_inv ks" and "set_peer_public i pk ks = Inr ks'"
  shows "key_store_inv ks'"
proof -
  have "\<forall>p \<in> set (AList.update i pk (peers ks)). length (snd p) = 32"
    using assms by (intro update_all_snd) (auto simp: key_store_inv_def set_peer_public_def split: if_splits)
  then show ?thesis
    using assms by (auto simp: key_store_inv_def set_peer_public_def has_identity_def distinct_update split: if_splits)
qed

lemma key_store_inv_delete: "key_store_inv ks \<Longrightarrow> key_store_inv (ks\<lparr>peers := AList.delete i (peers ks)\<rparr>)"
proof -
  have "set (AList.delete i (peers ks)) \<subseteq> set (peers ks)" by (auto simp: AList.delete_eq)
  then show "key_store_inv ks \<Longrightarrow> key_store_inv (ks\<lparr>peers := AList.delete i (peers ks)\<rparr>)"
    by (auto simp: key_store_inv_def has_identity_def intro: distinct_delete)
qed

lemma key_store_inv_erase: "key_store_inv ks \<Longrightarrow> key_store_inv (erase_peer i ks)"
  unfolding erase_peer_def by (rule key_store_inv_delete)

lemma key_store_inv_erase_peers: "key_store_inv ks \<Longrightarrow> key_store_inv (erase_peers ids ks)"
  unfolding erase_peers_def by (induction ids arbitrary: ks) (simp_all add: key_store_inv_delete)

lemma key_store_inv_clear: "key_store_inv ks \<Longrightarrow> key_store_inv (clear_room_key ks)"
  by (simp add: key_store_inv_def clear_room_key_def has_identity_def)

lemma peer_public_set:
  "set_peer_public i pk ks = Inr ks' \<Longrightarrow> peer_public ks' = (peer_public ks)(i \<mapsto> pk)"
  by (auto simp: peer_public_def set_peer_public_def update_conv' fun_eq_iff split: if_splits)

lemma peer_public_erase: "peer_public (erase_peer i ks) = (peer_public ks)(i := None)"
  by (simp add: peer_public_def erase_peer_def delete_conv' fun_eq_iff)

lemma peer_public_erase_peers: "peer_public (erase_peers ids ks) = (\<lambda>i. if i \<in> set ids then None else peer_public ks i)"
  unfolding erase_peers_def
  by (induction ids arbitrary: ks) (auto simp: peer_public_def delete_conv' fun_eq_iff)

lemma peer_public_length: "key_store_inv ks \<Longrightarrow> peer_public ks i = Some pk \<Longrightarrow> length pk = 32"
  by (auto simp: key_store_inv_def peer_public_def dest!: map_of_SomeD)

section \<open>Reading back what was stored\<close>

interpretation kp: item_codec encode_peer decode_peer "\<lambda>p. length (snd p) = 32"
  by unfold_locales
    (auto simp: encode_peer_def decode_peer_def Let_def write_u32_be_append[of "[]", simplified] prod_eq_iff)

lemma read_peers_items:
  "decode_items decode_peer n blob offset = Inr (xs, offset') \<Longrightarrow>
   read_peers n blob offset ps = (Inr (), fold (\<lambda>(i, pk). AList.update i pk) xs ps)"
  by (induction n arbitrary: offset xs ps) (auto split: prod.splits)

lemma update_fresh: "k \<notin> fst ` set ps \<Longrightarrow> AList.update k v ps = ps @ [(k, v)]"
  by (induction ps) auto

lemma fold_update_fresh:
  "distinct (map fst (ps @ xs)) \<Longrightarrow> fold (\<lambda>(i, pk). AList.update i pk) xs ps = ps @ xs"
proof (induction xs arbitrary: ps)
  case (Cons x xs)
  then have "AList.update (fst x) (snd x) ps = ps @ [x]" by (subst update_fresh) auto
  then show ?case using Cons.IH[of "ps @ [x]"] Cons.prems by (simp add: case_prod_unfold)
qed simp

definition room_field :: "bytes option \<Rightarrow> bytes" where
  "room_field r = (case r of None \<Rightarrow> [0] | Some k \<Rightarrow> 1 # k)"

lemma serialize_Inr:
  "serialize ks = Inr bs \<longleftrightarrow> has_identity ks \<and> length (peers ks) \<le> 65535 \<and>
    bs = 1 # identity_secret ks @ identity_public ks @ room_field (room_key ks) @
      write_u16_be [] (word_of_nat (length (peers ks))) @ concat (map encode_peer (peers ks))"
  by (auto simp: serialize_def Let_def room_field_def write_u16_be_append[of "_ # _"] split: option.split)

text \<open>Reading a well-formed blob, whatever follows it.\<close>

lemma deserialize_blob:
  assumes sk: "length sk = 32" and pk: "length pk = 32" and room: "\<And>k. room = Some k \<Longrightarrow> length k = 32"
    and n: "length ps \<le> 65535" and ps: "\<forall>p \<in> set ps. length (snd p) = 32" and d: "distinct (map fst ps)"
    and blob: "blob = 1 # sk @ pk @ room_field room @ write_u16_be [] (word_of_nat (length ps)) @
      concat (map encode_peer ps) @ post"
  shows "deserialize blob ks = (Inr (), ks\<lparr>identity_secret := sk, identity_public := pk, room_key := room, peers := ps\<rparr>)"
proof -
  let ?cnt = "write_u16_be [] (word_of_nat (length ps) :: u16)" and ?es = "concat (map encode_peer ps)"
  let ?pre = "1 # sk @ pk @ room_field room @ ?cnt"
  have ln: "unat (word_of_nat (length ps) :: u16) = length ps" using n by (simp add: unat_u16_of_nat)
  have "decode_items decode_peer (length ps) (?pre @ ?es @ post) (length ?pre) = Inr (ps, length ?pre + length ?es)"
    using ps by (rule kp.items_enc)
  then have entries: "read_peers (length ps) blob (length ?pre) [] = (Inr (), ps)"
    using d by (simp add: blob read_peers_items fold_update_fresh)
  have flag: "blob ! 65 = hd (room_field room)"
    using sk pk by (simp add: blob nth_append room_field_def split: option.split)
  have version: "blob ! 0 = 1" by (simp add: blob)
  have secret: "take 32 (drop 1 blob) = sk" and public: "take 32 (drop 33 blob) = pk" using sk pk by (simp_all add: blob)
  show ?thesis
  proof (cases room)
    case None
    have "read_u16_be (drop 66 blob) = Inr (word_of_nat (length ps))" and "68 \<le> length blob"
      using sk pk by (simp_all add: blob None room_field_def)
    then show ?thesis
      using entries flag version secret public sk pk ln by (simp add: deserialize_def None room_field_def)
  next
    case (Some k)
    have k: "length k = 32" using room Some by simp
    have "read_u16_be (drop 98 blob) = Inr (word_of_nat (length ps))" and "take 32 (drop 66 blob) = k"
      and "100 \<le> length blob"
      using sk pk k by (simp_all add: blob Some room_field_def)
    then show ?thesis
      using entries flag version secret public sk pk ln k by (simp add: deserialize_def Some room_field_def)
  qed
qed

lemma key_store_reload:
  assumes "key_store_inv ks" and "serialize ks = Inr bs"
  shows "deserialize (bs @ post) ks0 = (Inr (), ks0\<lparr>identity_secret := identity_secret ks,
    identity_public := identity_public ks, room_key := room_key ks, peers := peers ks\<rparr>)"
  using assms by (intro deserialize_blob) (auto simp: key_store_inv_def serialize_Inr)

section \<open>Every blob\<close>

lemma decode_peer_Inl: "decode_peer blob offset = Inl e \<Longrightarrow> e = RuntimeError ''truncated peer entry in keystore''"
  by (auto simp: decode_peer_def Let_def bindr_eq_Inl split: if_splits)

lemma decode_peer_length: "decode_peer blob offset = Inr (p, offset') \<Longrightarrow> length (snd p) = 32"
  by (auto simp: decode_peer_def Let_def split: if_splits)

lemma read_peers_outcome:
  assumes "read_peers n blob offset ps = (r, ps')" and "\<forall>p \<in> set ps. length (snd p) = 32" and "distinct (map fst ps)"
  shows "(r = Inr () \<or> r = Inl (RuntimeError ''truncated peer entry in keystore'')) \<and>
    (\<forall>p \<in> set ps'. length (snd p) = 32) \<and> distinct (map fst ps')"
  using assms
proof (induction n arbitrary: offset ps)
  case (Suc n)
  show ?case
  proof (cases "decode_peer blob offset")
    case (Inl e)
    then show ?thesis using Suc.prems decode_peer_Inl[OF Inl] by simp
  next
    case (Inr x)
    obtain i pk offset' where x: "x = ((i, pk), offset')" by (cases x) auto
    have "length pk = 32" using decode_peer_length[of blob offset "(i, pk)" offset'] Inr x by simp
    then have "\<forall>p \<in> set (AList.update i pk ps). length (snd p) = 32"
      using Suc.prems(2) by (intro update_all_snd) auto
    then show ?thesis using Suc.IH[of offset' "AList.update i pk ps"] Suc.prems Inr x by (simp add: distinct_update)
  qed
qed simp

lemma deserialize_cases:
  assumes "deserialize blob ks = (r, ks')"
  obtains (short) "length blob < 68" "r = Inl (RuntimeError ''keystore blob too short'')" "ks' = ks"
  | (version) "68 \<le> length blob" "blob ! 0 \<noteq> 1" "r = Inl (RuntimeError ''unsupported keystore version'')" "ks' = ks"
  | (no_room) "68 \<le> length blob" "blob ! 0 = 1" "r = Inl (RuntimeError ''truncated room key in keystore'')"
      "ks' = ks\<lparr>identity_secret := take 32 (drop 1 blob), identity_public := take 32 (drop 33 blob), room_key := None\<rparr>"
  | (no_count) room where "68 \<le> length blob" "blob ! 0 = 1" "r = Inl (RuntimeError ''truncated peer count in keystore'')"
      "\<forall>k. room = Some k \<longrightarrow> length k = 32"
      "ks' = ks\<lparr>identity_secret := take 32 (drop 1 blob), identity_public := take 32 (drop 33 blob), room_key := room\<rparr>"
  | (entries) room ps where "68 \<le> length blob" "blob ! 0 = 1"
      "r = Inr () \<or> r = Inl (RuntimeError ''truncated peer entry in keystore'')"
      "\<forall>k. room = Some k \<longrightarrow> length k = 32" "\<forall>p \<in> set ps. length (snd p) = 32" "distinct (map fst ps)"
      "ks' = ks\<lparr>identity_secret := take 32 (drop 1 blob), identity_public := take 32 (drop 33 blob), room_key := room,
         peers := ps\<rparr>"
proof -
  let ?has = "blob ! 65 \<noteq> 0"
  let ?room = "if ?has then Some (take 32 (drop 66 blob)) else None"
  let ?off = "if ?has then 98 else 66"
  consider "length blob < 68" | "68 \<le> length blob" "blob ! 0 \<noteq> 1"
    | "68 \<le> length blob" "blob ! 0 = 1" "?has" "length blob < 98"
    | "68 \<le> length blob" "blob ! 0 = 1" "?has \<longrightarrow> 98 \<le> length blob" "length blob < ?off + 2"
    | "68 \<le> length blob" "blob ! 0 = 1" "?has \<longrightarrow> 98 \<le> length blob" "?off + 2 \<le> length blob"
    by linarith
  then show thesis
  proof cases
    case 1
    then show ?thesis using assms by (intro short) (simp_all add: deserialize_def)
  next
    case 2
    then show ?thesis using assms by (intro version) (simp_all add: deserialize_def)
  next
    case 3
    then show ?thesis using assms by (intro no_room) (simp_all add: deserialize_def)
  next
    case 4
    then show ?thesis using assms by (intro no_count[of ?room]) (auto simp: deserialize_def split: if_splits)
  next
    case 5
    have "2 \<le> length (drop ?off blob)" using 5(4) by (auto split: if_splits)
    then obtain count where c: "read_u16_be (drop ?off blob) = Inr count"
      using read_u16_be_total by blast
    obtain r' ps where p: "read_peers (unat count) blob (?off + 2) [] = (r', ps)"
      by (cases "read_peers (unat count) blob (?off + 2) []")
    have d: "r = r'" "ks' = ks\<lparr>identity_secret := take 32 (drop 1 blob), identity_public := take 32 (drop 33 blob),
        room_key := ?room, peers := ps\<rparr>"
      using assms 5 c p by (auto simp: deserialize_def split: if_splits)
    show ?thesis using read_peers_outcome[OF p] 5 d by (intro entries[of ?room ps]) (auto split: if_splits)
  qed
qed

section \<open>Properties\<close>

text \<open>A key store with an identity and at most 65535 peers can be stored, and reading the result
  back, into any store and with anything behind it, restores the identity, the room key and the key of
  every peer.\<close>

theorem key_store_roundtrip:
  assumes "key_store_inv ks" and "has_identity ks" and "length (peers ks) \<le> 65535"
  shows "\<exists>bs ks'. serialize ks = Inr bs \<and> deserialize (bs @ post) ks0 = (Inr (), ks') \<and>
    identity_secret ks' = identity_secret ks \<and> identity_public ks' = identity_public ks \<and>
    room_key ks' = room_key ks \<and> peer_public ks' = peer_public ks"
proof -
  obtain bs where bs: "serialize ks = Inr bs" using assms by (simp add: serialize_Inr)
  then show ?thesis using key_store_reload[OF assms(1) bs, of post ks0] by (simp add: peer_public_def fun_eq_iff)
qed

definition sample_store :: peer_key_store where
  "sample_store = \<lparr>identity_secret = replicate 32 7, identity_public = replicate 32 9, room_key = Some (replicate 32 1),
     peers = [(5, replicate 32 2), (3, replicate 32 4)]\<rparr>"

theorem key_store_roundtrip_witness:
  "\<exists>bs ks'. serialize sample_store = Inr bs \<and> deserialize bs empty_key_store = (Inr (), ks') \<and>
    peer_public ks' 3 = Some (replicate 32 4) \<and> room_key ks' = Some (replicate 32 1)"
proof -
  have "peer_public sample_store 3 = Some (replicate 32 4)" and "room_key sample_store = Some (replicate 32 1)"
    by (simp_all add: sample_store_def peer_public_def)
  moreover have "key_store_inv sample_store" and "has_identity sample_store" and "length (peers sample_store) \<le> 65535"
    by (simp_all add: sample_store_def key_store_inv_def has_identity_def)
  ultimately show ?thesis using key_store_roundtrip[of sample_store "[]" empty_key_store] by auto
qed

lemma deserialize_inv:
  assumes "key_store_inv ks" and "deserialize blob ks = (r, ks')"
  shows "r \<noteq> Inl UndefinedBehaviour \<and> key_store_inv ks'"
  using assms(2)
proof (cases rule: deserialize_cases)
  case (entries room ps)
  then show ?thesis using assms(1) by (auto simp: key_store_inv_def has_identity_def)
qed (use assms(1) in \<open>auto simp: key_store_inv_def has_identity_def\<close>)



text \<open>Reading is not all or nothing: once the version byte is accepted, a reading that fails later
  has already replaced the identity by the one of the damaged blob.\<close>

theorem failed_load_replaces_identity:
  assumes "deserialize blob ks = (Inl e, ks')" and "e \<noteq> RuntimeError ''keystore blob too short''"
    and "e \<noteq> RuntimeError ''unsupported keystore version''"
  shows "identity_secret ks' = take 32 (drop 1 blob) \<and> identity_public ks' = take 32 (drop 33 blob)"
  using assms(1) by (cases rule: deserialize_cases) (use assms in auto)

theorem failed_load_replaces_identity_witness:
  "identity_secret (snd (deserialize (1 # replicate 32 8 @ replicate 34 1 @ [0]) sample_store)) = replicate 32 8 \<and>
   identity_secret sample_store = replicate 32 7"
proof -
  let ?blob = "1 # replicate 32 8 @ replicate 34 1 @ [0] :: bytes"
  have "fst (deserialize ?blob sample_store) = Inl (RuntimeError ''truncated room key in keystore'')"
    by (simp add: deserialize_def nth_append)
  then obtain ks' where d: "deserialize ?blob sample_store = (Inl (RuntimeError ''truncated room key in keystore''), ks')"
    by (metis prod.collapse)
  show ?thesis using failed_load_replaces_identity[OF d] d by (simp add: sample_store_def)
qed

text \<open>Every operation on the key store keeps the sizes of all keys and the uniqueness of the peers.\<close>

theorem key_store_operations_keep_inv:
  assumes "key_store_inv ks"
  shows "(\<forall>sk pk ks'. set_identity sk pk ks = Inr ks' \<longrightarrow> key_store_inv ks') \<and>
    (\<forall>k ks'. set_room_key k ks = Inr ks' \<longrightarrow> key_store_inv ks') \<and> key_store_inv (clear_room_key ks) \<and>
    (\<forall>i pk ks'. set_peer_public i pk ks = Inr ks' \<longrightarrow> key_store_inv ks' \<and> peer_public ks' = (peer_public ks)(i \<mapsto> pk)) \<and>
    (\<forall>i. key_store_inv (erase_peer i ks) \<and> peer_public (erase_peer i ks) = (peer_public ks)(i := None)) \<and>
    (\<forall>ids. key_store_inv (erase_peers ids ks))"
  by (intro conjI allI impI)
    (use assms in \<open>blast intro: key_store_inv_set_identity key_store_inv_set_room_key key_store_inv_set_peer
       key_store_inv_erase key_store_inv_erase_peers key_store_inv_clear peer_public_set peer_public_erase\<close>)+

theorem key_store_operations_keep_inv_witness:
  "key_store_inv (erase_peer 5 sample_store) \<and> peer_public (erase_peer 5 sample_store) 5 = None"
proof -
  have "key_store_inv sample_store" by (simp add: sample_store_def key_store_inv_def)
  note ops = key_store_operations_keep_inv[OF this]
  have "key_store_inv (erase_peer 5 sample_store) \<and>
      peer_public (erase_peer 5 sample_store) = (peer_public sample_store)(5 := None)"
    by (rule spec[OF conjunct1[OF conjunct2[OF conjunct2[OF conjunct2[OF conjunct2[OF ops]]]]]])
  then show ?thesis by simp
qed

end
