(* ===== verification/Cipher.thy ===== *)
theory Cipher
  imports KeyStore
begin

text \<open>
  End-to-end encryption (\<^verbatim>\<open>common/crypto/MonocypherMessageCipher.cpp\<close>) and the encrypted key file
  (\<^verbatim>\<open>common/crypto/EncryptedKeyStoreFile.cpp\<close>).

  The cryptographic primitives come from the third-party library Monocypher. They are the fields of
  the record \<open>monocypher\<close>, an argument of every definition that uses them, and what is relied on are
  the named predicates \<open>x25519_ok\<close>, \<open>aead_ok\<close> and \<open>blake2b_ok\<close>, which state the library's documentation.
  Randomness is an argument as well: each call of \<^verbatim>\<open>fill_random\<close> takes the next element of an
  \<open>entropy\<close> sequence, which holds what \<^verbatim>\<open>/dev/urandom\<close> and \<^verbatim>\<open>std::random_device\<close> deliver to that call.

  The locale \<open>sealed_channel\<close> is what the four pairs of operations of \<^verbatim>\<open>IMessageCipher\<close> promise.
\<close>

section \<open>The library\<close>

record monocypher =
  crypto_x25519 :: "bytes \<Rightarrow> bytes \<Rightarrow> bytes"
  crypto_x25519_public_key :: "bytes \<Rightarrow> bytes"
  crypto_aead_lock :: "bytes \<Rightarrow> bytes \<Rightarrow> bytes \<Rightarrow> bytes \<times> bytes"
  crypto_aead_unlock :: "bytes \<Rightarrow> bytes \<Rightarrow> bytes \<Rightarrow> bytes \<Rightarrow> bytes option"
  crypto_blake2b :: "nat \<Rightarrow> bytes \<Rightarrow> bytes"

text \<open>Two parties that exchange public keys compute the same shared secret.\<close>

definition x25519_ok :: "monocypher \<Rightarrow> bool" where
  "x25519_ok lib \<longleftrightarrow> (\<forall>a b. length a = 32 \<and> length b = 32 \<longrightarrow>
     length (crypto_x25519_public_key lib a) = 32 \<and> length (crypto_x25519 lib a b) = 32 \<and>
     crypto_x25519 lib a (crypto_x25519_public_key lib b) = crypto_x25519 lib b (crypto_x25519_public_key lib a))"

text \<open>\<^verbatim>\<open>crypto_aead_lock\<close> takes key, nonce and plain text and yields the code of 16 bytes and the cipher text;
  \<^verbatim>\<open>crypto_aead_unlock\<close> undoes it.\<close>

definition aead_ok :: "monocypher \<Rightarrow> bool" where
  "aead_ok lib \<longleftrightarrow> (\<forall>k n p. length k = 32 \<and> length n = 24 \<longrightarrow>
     (case crypto_aead_lock lib k n p of
        (mac, ct) \<Rightarrow> length mac = 16 \<and> length ct = length p \<and> crypto_aead_unlock lib k n mac ct = Some p))"

definition blake2b_ok :: "monocypher \<Rightarrow> bool" where
  "blake2b_ok lib \<longleftrightarrow> (\<forall>n m. length (crypto_blake2b lib n m) = n)"

section \<open>Randomness\<close>

record random_source =
  urandom :: "nat \<Rightarrow> bytes option"
  random_device :: "nat \<Rightarrow> u32"

type_synonym entropy = "nat \<Rightarrow> random_source"

definition fill_random :: "entropy \<Rightarrow> nat \<Rightarrow> bytes \<times> entropy" where
  "fill_random E len =
    ((case urandom (E 0) len of
        Some bs \<Rightarrow> if length bs = len then bs else map (\<lambda>i. ucast (random_device (E 0) i)) [0..<len]
      | None \<Rightarrow> map (\<lambda>i. ucast (random_device (E 0) i)) [0..<len]),
     \<lambda>i. E (Suc i))"

section \<open>MonocypherMessageCipher\<close>

abbreviation (input) kNonceSize :: nat where "kNonceSize \<equiv> 24"
abbreviation (input) kMacSize :: nat where "kMacSize \<equiv> 16"

record key_pair =
  public_key :: bytes
  secret_key :: bytes

definition require_size :: "bytes \<Rightarrow> nat \<Rightarrow> string \<Rightarrow> unit res" where
  "require_size data expected label =
    (if length data \<noteq> expected then Inl (CipherError (label @ '' has invalid size'')) else Inr ())"

definition shared_secret :: "monocypher \<Rightarrow> bytes \<Rightarrow> bytes \<Rightarrow> bytes res" where
  "shared_secret lib my_secret peer_pub =
    bindr (require_size my_secret kSecretKeySize ''secret key'') (\<lambda>_.
    bindr (require_size peer_pub kPublicKeySize ''peer public key'') (\<lambda>_.
      Inr (crypto_x25519 lib my_secret peer_pub)))"

definition aead_encrypt :: "monocypher \<Rightarrow> entropy \<Rightarrow> bytes \<Rightarrow> bytes \<Rightarrow> bytes \<times> entropy" where
  "aead_encrypt lib E key plain =
    (let (nonce, E) = fill_random E kNonceSize;
         (mac, ct) = crypto_aead_lock lib key nonce plain
     in (nonce @ mac @ ct, E))"

definition aead_decrypt :: "monocypher \<Rightarrow> bytes \<Rightarrow> bytes \<Rightarrow> bytes res" where
  "aead_decrypt lib key blob =
    (if length blob < kNonceSize + kMacSize then Inl (CipherError ''ciphertext too short'')
     else
       let nonce = take kNonceSize blob;
           mac = take kMacSize (drop kNonceSize blob);
           ct = drop (kNonceSize + kMacSize) blob
       in case crypto_aead_unlock lib key nonce mac ct of
            None \<Rightarrow> Inl (CipherError ''decryption failed'')
          | Some plain \<Rightarrow> Inr plain)"

definition derive_password_key :: "monocypher \<Rightarrow> string \<Rightarrow> bytes \<Rightarrow> bytes" where
  "derive_password_key lib password salt = crypto_blake2b lib 32 (string_bytes password @ salt)"

definition generate_keypair :: "monocypher \<Rightarrow> entropy \<Rightarrow> key_pair \<times> entropy" where
  "generate_keypair lib E =
    (let (sk, E) = fill_random E kSecretKeySize
     in (\<lparr>public_key = crypto_x25519_public_key lib sk, secret_key = sk\<rparr>, E))"

definition generate_room_key :: "entropy \<Rightarrow> bytes \<times> entropy" where
  "generate_room_key E = fill_random E kRoomKeySize"

text \<open>A cipher operation returns its result and the randomness it has left.\<close>

definition encrypt_for_peer :: "monocypher \<Rightarrow> entropy \<Rightarrow> bytes \<Rightarrow> bytes \<Rightarrow> string \<Rightarrow> bytes res \<times> entropy" where
  "encrypt_for_peer lib E my_secret peer_pub plaintext =
    (case shared_secret lib my_secret peer_pub of
       Inl e \<Rightarrow> (Inl e, E)
     | Inr shared \<Rightarrow> (case aead_encrypt lib E shared (string_bytes plaintext) of (c, E) \<Rightarrow> (Inr c, E)))"

definition decrypt_from_peer :: "monocypher \<Rightarrow> bytes \<Rightarrow> bytes \<Rightarrow> bytes \<Rightarrow> string res" where
  "decrypt_from_peer lib my_secret peer_pub ciphertext =
    bindr (shared_secret lib my_secret peer_pub) (\<lambda>shared.
    bindr (aead_decrypt lib shared ciphertext) (\<lambda>plain. Inr (bytes_string plain)))"

definition seal_room_key :: "monocypher \<Rightarrow> entropy \<Rightarrow> bytes \<Rightarrow> bytes \<Rightarrow> bytes \<Rightarrow> bytes res \<times> entropy" where
  "seal_room_key lib E my_secret peer_pub rk =
    (case require_size rk kRoomKeySize ''room key'' of
       Inl e \<Rightarrow> (Inl e, E)
     | Inr _ \<Rightarrow>
         (case shared_secret lib my_secret peer_pub of
            Inl e \<Rightarrow> (Inl e, E)
          | Inr shared \<Rightarrow> (case aead_encrypt lib E shared rk of (c, E) \<Rightarrow> (Inr c, E))))"

definition open_room_key :: "monocypher \<Rightarrow> bytes \<Rightarrow> bytes \<Rightarrow> bytes \<Rightarrow> bytes res" where
  "open_room_key lib my_secret peer_pub sealed =
    bindr (shared_secret lib my_secret peer_pub) (\<lambda>shared.
    bindr (aead_decrypt lib shared sealed) (\<lambda>room.
      if length room \<noteq> kRoomKeySize then Inl (CipherError ''invalid room key payload'') else Inr room))"

definition encrypt_with_room_key :: "monocypher \<Rightarrow> entropy \<Rightarrow> bytes \<Rightarrow> string \<Rightarrow> bytes res \<times> entropy" where
  "encrypt_with_room_key lib E rk plaintext =
    (case require_size rk kRoomKeySize ''room key'' of
       Inl e \<Rightarrow> (Inl e, E)
     | Inr _ \<Rightarrow> (case aead_encrypt lib E rk (string_bytes plaintext) of (c, E) \<Rightarrow> (Inr c, E)))"

definition decrypt_with_room_key :: "monocypher \<Rightarrow> bytes \<Rightarrow> bytes \<Rightarrow> string res" where
  "decrypt_with_room_key lib rk ciphertext =
    bindr (require_size rk kRoomKeySize ''room key'') (\<lambda>_.
    bindr (aead_decrypt lib rk ciphertext) (\<lambda>plain. Inr (bytes_string plain)))"

definition encrypt_keystore :: "monocypher \<Rightarrow> entropy \<Rightarrow> string \<Rightarrow> bytes \<Rightarrow> bytes \<times> entropy" where
  "encrypt_keystore lib E password plaintext =
    (let (salt, E) = fill_random E 16;
         key = derive_password_key lib password salt;
         (sealed, E) = aead_encrypt lib E key plaintext
     in (salt @ sealed, E))"

definition decrypt_keystore :: "monocypher \<Rightarrow> string \<Rightarrow> bytes \<Rightarrow> bytes res" where
  "decrypt_keystore lib password ciphertext =
    (if length ciphertext < 16 + kNonceSize + kMacSize then Inl (CipherError ''keystore blob too short'')
     else
       let salt = take 16 ciphertext;
           key = derive_password_key lib password salt;
           sealed = drop 16 ciphertext
       in aead_decrypt lib key sealed)"

section \<open>EncryptedKeyStoreFile\<close>

text \<open>
  Files are a map from paths to contents. For \<^verbatim>\<open>save\<close> the environment says whether the file can be
  opened, whether the stream reports an error after \<^verbatim>\<open>write\<close>, and what the disk holds in the end
  (\<open>disk sealed\<close>): the stream is flushed by its destructor, behind the last check.
\<close>

type_synonym files = "string \<Rightarrow> bytes option"

record disk_outcome =
  open_ok :: bool
  write_ok :: bool
  disk :: "bytes \<Rightarrow> bytes"

definition save :: "monocypher \<Rightarrow> disk_outcome \<Rightarrow> string \<Rightarrow> string \<Rightarrow> peer_key_store \<Rightarrow> entropy \<Rightarrow> files \<Rightarrow> unit res \<times> entropy \<times> files" where
  "save lib d path password store E fs =
    (case serialize store of
       Inl e \<Rightarrow> (Inl e, E, fs)
     | Inr plain \<Rightarrow>
         (case encrypt_keystore lib E password plain of
            (sealed, E) \<Rightarrow>
              if \<not> open_ok d then (Inl (CipherError (''failed to open keystore for writing: '' @ path)), E, fs)
              else
                let fs = fs(path \<mapsto> disk d sealed)
                in if \<not> write_ok d then (Inl (CipherError (''failed to write keystore: '' @ path)), E, fs)
                   else (Inr (), E, fs)))"

definition load :: "monocypher \<Rightarrow> string \<Rightarrow> string \<Rightarrow> files \<Rightarrow> peer_key_store \<Rightarrow> bool res \<times> peer_key_store" where
  "load lib path password fs store =
    (case fs path of
       None \<Rightarrow> (Inr False, store)
     | Some sealed \<Rightarrow>
         if sealed = [] then (Inr False, store)
         else case decrypt_keystore lib password sealed of
             Inl e \<Rightarrow> (Inl e, store)
           | Inr plain \<Rightarrow>
               (case deserialize plain store of
                  (Inl e, store) \<Rightarrow> (Inl e, store)
                | (Inr _, store) \<Rightarrow> (Inr True, store)))"

section \<open>Lemmas\<close>

lemma length_fill_random [simp]: "length (fst (fill_random E n)) = n"
  by (simp add: fill_random_def split: option.split)

lemma fill_random_length: "fill_random E n = (bs, E') \<Longrightarrow> length bs = n"
  using length_fill_random[of E n] by simp

lemma aead_decrypt_encrypt:
  assumes "aead_ok lib" and "length key = 32"
  shows "aead_decrypt lib key (fst (aead_encrypt lib E key plain)) = Inr plain \<and>
    length (fst (aead_encrypt lib E key plain)) = 40 + length plain"
proof -
  obtain n E' where n: "fill_random E 24 = (n, E')" by (cases "fill_random E 24")
  then have "length n = 24" by (rule fill_random_length)
  moreover obtain mac ct where l: "crypto_aead_lock lib key n plain = (mac, ct)" by (cases "crypto_aead_lock lib key n plain")
  moreover have "length mac = 16" and "length ct = length plain" and "crypto_aead_unlock lib key n mac ct = Some plain"
    using assms(1)[unfolded aead_ok_def, rule_format, of key n plain] assms(2) \<open>length n = 24\<close> l by simp_all
  ultimately show ?thesis by (simp add: aead_encrypt_def aead_decrypt_def n l)
qed

lemma aead_opens:
  assumes "aead_ok lib" and "length key = 32"
  obtains c E' where "aead_encrypt lib E key plain = (c, E')" "aead_decrypt lib key c = Inr plain" "length c = 40 + length plain"
  using aead_decrypt_encrypt[OF assms, of E plain] by (metis prod.collapse)

lemma shared_secret_Inr:
  "shared_secret lib a b = Inr s \<longleftrightarrow> length a = 32 \<and> length b = 32 \<and> s = crypto_x25519 lib a b"
  by (auto simp: shared_secret_def require_size_def split: if_splits)

lemma shared_secret_Inl: "shared_secret lib a b = Inl e \<Longrightarrow> \<exists>s. e = CipherError s"
  by (auto simp: shared_secret_def require_size_def bindr_eq_Inl split: if_splits)

lemma aead_decrypt_Inl: "aead_decrypt lib key blob = Inl e \<Longrightarrow> \<exists>s. e = CipherError s"
  by (auto simp: aead_decrypt_def Let_def split: if_splits option.splits)

lemma aead_decrypt_short: "length blob < 40 \<Longrightarrow> aead_decrypt lib key blob = Inl (CipherError ''ciphertext too short'')"
  by (simp add: aead_decrypt_def)

text \<open>Two key pairs that belong together: each side has its own secret and the other's public key.\<close>

definition matching_keys :: "monocypher \<Rightarrow> bytes \<Rightarrow> bytes \<Rightarrow> bytes \<Rightarrow> bytes \<Rightarrow> bool" where
  "matching_keys lib sk pk' sk' pk \<longleftrightarrow> length sk = 32 \<and> length sk' = 32 \<and>
    pk = crypto_x25519_public_key lib sk \<and> pk' = crypto_x25519_public_key lib sk'"

lemma shared_secret_agree:
  assumes "x25519_ok lib" and "matching_keys lib sk pk' sk' pk"
  obtains s where "length s = 32" "shared_secret lib sk pk' = Inr s" "shared_secret lib sk' pk = Inr s"
proof (rule that)
  show "length (crypto_x25519 lib sk pk') = 32" "shared_secret lib sk pk' = Inr (crypto_x25519 lib sk pk')"
    "shared_secret lib sk' pk = Inr (crypto_x25519 lib sk pk')"
    using assms by (auto simp: x25519_ok_def matching_keys_def shared_secret_Inr)
qed

lemma generate_keypair_matching:
  assumes "generate_keypair lib E = (a, E1)" and "generate_keypair lib F = (b, F1)"
  shows "matching_keys lib (secret_key a) (public_key b) (secret_key b) (public_key a)"
  using assms by (auto simp: generate_keypair_def matching_keys_def fill_random_length split: prod.splits)

section \<open>The contract of the cipher\<close>

text \<open>A sequence of encryptions, each with the randomness the previous ones left.\<close>

fun encrypt_all :: "(entropy \<Rightarrow> 'm \<Rightarrow> bytes res \<times> entropy) \<Rightarrow> entropy \<Rightarrow> 'm list \<Rightarrow> bytes res list" where
  "encrypt_all enc E [] = []"
| "encrypt_all enc E (m # ms) = (case enc E m of (c, E) \<Rightarrow> c # encrypt_all enc E ms)"

locale sealed_channel =
  fixes enc :: "'k \<Rightarrow> entropy \<Rightarrow> 'm \<Rightarrow> bytes res \<times> entropy"
    and dec :: "'l \<Rightarrow> bytes \<Rightarrow> 'm res"
    and matching :: "'k \<Rightarrow> 'l \<Rightarrow> bool"
    and fits :: "'m \<Rightarrow> bool"
    and size_of :: "'m \<Rightarrow> nat"
    and overhead :: nat
  assumes opens: "matching k l \<Longrightarrow> fits m \<Longrightarrow>
      \<exists>c E'. enc k E m = (Inr c, E') \<and> dec l c = Inr m \<and> length c = overhead + size_of m"
    and cut: "length c < overhead \<Longrightarrow> \<exists>s. dec l c = Inl (CipherError s)"
begin

lemma opens_all:
  assumes "matching k l"
  shows "\<forall>m \<in> set ms. fits m \<Longrightarrow> map (\<lambda>c. bindr c (dec l)) (encrypt_all (enc k) E ms) = map Inr ms"
proof (induction ms arbitrary: E)
  case (Cons m ms)
  then obtain c E' where "enc k E m = (Inr c, E')" "dec l c = Inr m"
    using opens[OF assms, of m E] by auto
  then show ?case using Cons by simp
qed simp

text \<open>What was sealed can be opened, but not a piece of it that is shorter than the overhead.\<close>

lemma cut_rejected:
  assumes "n < overhead"
  shows "\<exists>s. dec l (take n c) = Inl (CipherError s)"
  using assms by (intro cut) simp

end

interpretation peer_channel: sealed_channel
  "\<lambda>(lib, sk, pk) E. encrypt_for_peer lib E sk pk" "\<lambda>(lib, sk, pk). decrypt_from_peer lib sk pk"
  "\<lambda>(lib, sk, pk') (lib', sk', pk). lib' = lib \<and> x25519_ok lib \<and> aead_ok lib \<and> matching_keys lib sk pk' sk' pk"
  "\<lambda>_. True" length 40
proof (unfold_locales, goal_cases)
  case (1 k l m E)
  obtain lib sk pk' sk' pk where kl: "k = (lib, sk, pk')" "l = (lib, sk', pk)" using 1 by (cases k; cases l) auto
  obtain s where "length s = 32" "shared_secret lib sk pk' = Inr s" "shared_secret lib sk' pk = Inr s"
    using 1 kl by (auto elim: shared_secret_agree)
  moreover obtain c E' where "aead_encrypt lib E s (string_bytes m) = (c, E')" "aead_decrypt lib s c = Inr (string_bytes m)"
    "length c = 40 + length (string_bytes m)"
    using 1 kl \<open>length s = 32\<close> by (auto elim: aead_opens[of lib s E "string_bytes m"])
  ultimately show ?case using kl by (simp add: encrypt_for_peer_def decrypt_from_peer_def)
next
  case (2 c l)
  obtain lib sk pk where "l = (lib, sk, pk)" by (cases l)
  then show ?case
    using 2 shared_secret_Inl[of lib sk pk]
    by (cases "shared_secret lib sk pk") (simp_all add: decrypt_from_peer_def aead_decrypt_short)
qed

interpretation room_key_channel: sealed_channel
  "\<lambda>(lib, sk, pk) E. seal_room_key lib E sk pk" "\<lambda>(lib, sk, pk). open_room_key lib sk pk"
  "\<lambda>(lib, sk, pk') (lib', sk', pk). lib' = lib \<and> x25519_ok lib \<and> aead_ok lib \<and> matching_keys lib sk pk' sk' pk"
  "\<lambda>rk. length rk = 32" length 40
proof (unfold_locales, goal_cases)
  case (1 k l m E)
  obtain lib sk pk' sk' pk where kl: "k = (lib, sk, pk')" "l = (lib, sk', pk)" using 1 by (cases k; cases l) auto
  obtain s where "length s = 32" "shared_secret lib sk pk' = Inr s" "shared_secret lib sk' pk = Inr s"
    using 1 kl by (auto elim: shared_secret_agree)
  moreover obtain c E' where "aead_encrypt lib E s m = (c, E')" "aead_decrypt lib s c = Inr m" "length c = 40 + length m"
    using 1 kl \<open>length s = 32\<close> by (auto elim: aead_opens[of lib s E m])
  ultimately show ?case using 1(2) kl by (simp add: seal_room_key_def open_room_key_def require_size_def)
next
  case (2 c l)
  obtain lib sk pk where "l = (lib, sk, pk)" by (cases l)
  then show ?case
    using 2 shared_secret_Inl[of lib sk pk]
    by (cases "shared_secret lib sk pk") (simp_all add: open_room_key_def aead_decrypt_short)
qed

interpretation room_channel: sealed_channel
  "\<lambda>(lib, rk) E. encrypt_with_room_key lib E rk" "\<lambda>(lib, rk). decrypt_with_room_key lib rk"
  "\<lambda>k l. l = k \<and> aead_ok (fst k) \<and> length (snd k) = 32" "\<lambda>_. True" length 40
proof (unfold_locales, goal_cases)
  case (1 k l m E)
  obtain lib rk where k: "k = (lib, rk)" by (cases k)
  obtain c E' where "aead_encrypt lib E rk (string_bytes m) = (c, E')" "aead_decrypt lib rk c = Inr (string_bytes m)"
    "length c = 40 + length (string_bytes m)"
    using 1 k by (auto elim: aead_opens[of lib rk E "string_bytes m"])
  then show ?case
    using 1 k by (simp add: encrypt_with_room_key_def decrypt_with_room_key_def require_size_def)
next
  case (2 c l)
  then show ?case by (cases l) (simp add: decrypt_with_room_key_def require_size_def aead_decrypt_short)
qed

interpretation key_file_channel: sealed_channel
  "\<lambda>(lib, password) E m. map_prod Inr (\<lambda>E. E) (encrypt_keystore lib E password m)"
  "\<lambda>(lib, password). decrypt_keystore lib password"
  "\<lambda>k l. l = k \<and> aead_ok (fst k) \<and> blake2b_ok (fst k)" "\<lambda>_. True" length 56
proof (unfold_locales, goal_cases)
  case (1 k l m E)
  obtain lib password where k: "k = (lib, password)" by (cases k)
  obtain salt E1 where s: "fill_random E 16 = (salt, E1)" by (cases "fill_random E 16")
  let ?key = "derive_password_key lib password salt"
  have salt: "length salt = 16" using s by (rule fill_random_length)
  obtain sealed E2 where a: "aead_encrypt lib E1 ?key m = (sealed, E2)" by (cases "aead_encrypt lib E1 ?key m")
  have "length ?key = 32" using 1 k by (simp add: derive_password_key_def blake2b_ok_def)
  then have "aead_decrypt lib ?key sealed = Inr m" "length sealed = 40 + length m"
    using 1 k a aead_decrypt_encrypt[of lib ?key E1 m] by simp_all
  then show ?case
    using 1 k s salt a
    by (intro exI[of _ "salt @ sealed"] exI[of _ E2]) (simp add: encrypt_keystore_def decrypt_keystore_def)
next
  case (2 c l)
  then show ?case by (cases l) (simp add: decrypt_keystore_def)
qed

section \<open>Properties\<close>

text \<open>Two clients that generated their key pairs and know each other's public key understand each
  other: every sequence of messages that one encrypts is decrypted by the other, whatever the random
  numbers were.\<close>

theorem peer_messages_decrypt:
  assumes "x25519_ok lib" and "aead_ok lib"
    and "generate_keypair lib E = (alice, E1)" and "generate_keypair lib F = (bob, F1)"
  shows "map (\<lambda>c. bindr c (decrypt_from_peer lib (secret_key bob) (public_key alice)))
      (encrypt_all (\<lambda>E. encrypt_for_peer lib E (secret_key alice) (public_key bob)) E2 ms) = map Inr ms"
  using peer_channel.opens_all[of "(lib, secret_key alice, public_key bob)" "(lib, secret_key bob, public_key alice)" ms E2]
    generate_keypair_matching[OF assms(3,4)] assms(1,2) by simp

text \<open>A library with the required behaviour, for the examples.\<close>

definition toy_lib :: monocypher where
  "toy_lib = \<lparr>crypto_x25519 = (\<lambda>a b. map2 (+) a b), crypto_x25519_public_key = (\<lambda>a. a),
     crypto_aead_lock = (\<lambda>k n p. (replicate 16 (hd k), p)),
     crypto_aead_unlock = (\<lambda>k n mac ct. if mac = replicate 16 (hd k) then Some ct else None),
     crypto_blake2b = (\<lambda>n m. replicate n (word_of_nat (length m)))\<rparr>"

lemma toy_lib_ok: "x25519_ok toy_lib" "aead_ok toy_lib" "blake2b_ok toy_lib"
proof -
  have "map2 (+) a b = map2 (+) b a" if "length a = length b" for a b :: bytes
    using that by (intro nth_equalityI) (simp_all add: add.commute)
  then show "x25519_ok toy_lib" by (simp add: x25519_ok_def toy_lib_def)
qed (simp_all add: aead_ok_def blake2b_ok_def toy_lib_def)

definition toy_entropy :: "byte \<Rightarrow> entropy" where
  "toy_entropy b = (\<lambda>_. \<lparr>urandom = (\<lambda>n. Some (replicate n b)), random_device = (\<lambda>_. 0)\<rparr>)"

theorem peer_messages_decrypt_witness:
  "map (\<lambda>c. bindr c (decrypt_from_peer toy_lib (secret_key (fst (generate_keypair toy_lib (toy_entropy 5))))
        (public_key (fst (generate_keypair toy_lib (toy_entropy 3))))))
      (encrypt_all (\<lambda>E. encrypt_for_peer toy_lib E (secret_key (fst (generate_keypair toy_lib (toy_entropy 3))))
        (public_key (fst (generate_keypair toy_lib (toy_entropy 5))))) (toy_entropy 9) [''hi'', '''', ''bye'']) =
    [Inr ''hi'', Inr '''', Inr ''bye'']"
  using peer_messages_decrypt[OF toy_lib_ok(1,2) prod.collapse[symmetric] prod.collapse[symmetric],
      of "toy_entropy 5" "toy_entropy 3" "toy_entropy 9" "[''hi'', '''', ''bye'']"]
  by (simp only: list.map)

text \<open>The room key travels sealed: the client it is sealed for opens it, obtains exactly the key, and
  can then read every message that is encrypted with it.\<close>

theorem room_key_distribution:
  assumes "x25519_ok lib" and "aead_ok lib"
    and "generate_keypair lib E = (alice, E1)" and "generate_keypair lib F = (bob, F1)"
    and "generate_room_key G = (rk, G1)"
  shows "\<exists>sealed E3. seal_room_key lib E2 (secret_key alice) (public_key bob) rk = (Inr sealed, E3) \<and>
    open_room_key lib (secret_key bob) (public_key alice) sealed = Inr rk \<and>
    map (\<lambda>c. bindr c (decrypt_with_room_key lib rk)) (encrypt_all (\<lambda>E. encrypt_with_room_key lib E rk) E4 ms) = map Inr ms"
proof -
  have rk: "length rk = 32" using assms(5) by (simp add: generate_room_key_def fill_random_length)
  then obtain sealed E3 where "seal_room_key lib E2 (secret_key alice) (public_key bob) rk = (Inr sealed, E3)"
    "open_room_key lib (secret_key bob) (public_key alice) sealed = Inr rk"
    using room_key_channel.opens[of "(lib, secret_key alice, public_key bob)" "(lib, secret_key bob, public_key alice)" rk E2]
      generate_keypair_matching[OF assms(3,4)] assms(1,2) by auto
  moreover have "map (\<lambda>c. bindr c (decrypt_with_room_key lib rk)) (encrypt_all (\<lambda>E. encrypt_with_room_key lib E rk) E4 ms) =
      map Inr ms"
    using room_channel.opens_all[of "(lib, rk)" "(lib, rk)" ms E4] rk assms(2) by simp
  ultimately show ?thesis by blast
qed

theorem room_key_distribution_witness:
  "\<exists>(alice :: key_pair) (bob :: key_pair) rk sealed E3.
    seal_room_key toy_lib (toy_entropy 1) (secret_key alice) (public_key bob) rk = (Inr sealed, E3) \<and>
    open_room_key toy_lib (secret_key bob) (public_key alice) sealed = Inr rk \<and> length rk = 32"
proof -
  obtain alice E1 bob F1 rk G1 where k: "generate_keypair toy_lib (toy_entropy 3) = (alice, E1)"
    "generate_keypair toy_lib (toy_entropy 5) = (bob, F1)" "generate_room_key (toy_entropy 7) = (rk, G1)"
    by (metis prod.collapse)
  have "length rk = 32" using k(3) by (simp add: generate_room_key_def fill_random_length)
  moreover obtain sealed E3 where "seal_room_key toy_lib (toy_entropy 1) (secret_key alice) (public_key bob) rk = (Inr sealed, E3)"
    and "open_room_key toy_lib (secret_key bob) (public_key alice) sealed = Inr rk"
    using room_key_distribution[OF toy_lib_ok(1,2) k] by metis
  ultimately show ?thesis by blast
qed

lemma save_load:
  assumes "aead_ok lib" and "blake2b_ok lib" and "key_store_inv ks" and "has_identity ks" and "length (peers ks) \<le> 65535"
    and "open_ok d" and "write_ok d" and "disk d = (\<lambda>bs. bs)"
  shows "\<exists>E' fs' ks'. save lib d path password ks E fs = (Inr (), E', fs') \<and>
    (\<forall>q. q \<noteq> path \<longrightarrow> fs' q = fs q) \<and> load lib path password fs' ks0 = (Inr True, ks') \<and>
    identity_secret ks' = identity_secret ks \<and> identity_public ks' = identity_public ks \<and>
    room_key ks' = room_key ks \<and> peer_public ks' = peer_public ks"
proof -
  obtain plain where plain: "serialize ks = Inr plain" using assms by (simp add: serialize_Inr)
  obtain sealed E' where s: "encrypt_keystore lib E password plain = (sealed, E')"
    by (cases "encrypt_keystore lib E password plain")
  have d: "decrypt_keystore lib password sealed = Inr plain" "length sealed = 56 + length plain"
    using key_file_channel.opens[where k = "(lib, password)" and l = "(lib, password)" and m = plain and E = E] assms(1,2) s
    by auto
  then have "sealed \<noteq> []" by auto
  then have "load lib path password (fs(path \<mapsto> sealed)) ks0 = (Inr True, ks0\<lparr>identity_secret := identity_secret ks,
      identity_public := identity_public ks, room_key := room_key ks, peers := peers ks\<rparr>)"
    using d key_store_reload[OF assms(3) plain, of "[]" ks0] by (simp add: load_def)
  moreover have "save lib d path password ks E fs = (Inr (), E', fs(path \<mapsto> sealed))"
    using plain s assms(6-8) by (simp add: save_def)
  moreover have "peer_public (ks0\<lparr>identity_secret := identity_secret ks,
      identity_public := identity_public ks, room_key := room_key ks, peers := peers ks\<rparr>) = peer_public ks"
    by (simp add: peer_public_def fun_eq_iff)
  ultimately show ?thesis by simp
qed

text \<open>C30: A key store that was saved under a password, on a disk that keeps what is written, is loaded
  with the same password completely, and every other file is left alone.\<close>

theorem key_file_roundtrip:
  assumes "aead_ok lib" and "blake2b_ok lib" and "key_store_inv ks" and "has_identity ks" and "length (peers ks) \<le> 65535"
    and "open_ok d" and "write_ok d" and "disk d = (\<lambda>bs. bs)"
  shows "\<exists>E' fs' ks'. save lib d path password ks E fs = (Inr (), E', fs') \<and>
    (\<forall>q. q \<noteq> path \<longrightarrow> fs' q = fs q) \<and> load lib path password fs' ks0 = (Inr True, ks') \<and>
    identity_secret ks' = identity_secret ks \<and> identity_public ks' = identity_public ks \<and>
    room_key ks' = room_key ks \<and> peer_public ks' = peer_public ks"
  using assms by (rule save_load)

theorem key_file_roundtrip_witness:
  "\<exists>fs' ks'. load toy_lib ''keys'' ''pw'' fs' empty_key_store = (Inr True, ks') \<and>
    fst (save toy_lib \<lparr>open_ok = True, write_ok = True, disk = (\<lambda>bs. bs)\<rparr> ''keys'' ''pw'' sample_store (toy_entropy 1) Map.empty) = Inr () \<and>
    identity_secret ks' = replicate 32 7"
proof -
  have "identity_secret sample_store = replicate 32 7" "key_store_inv sample_store" "has_identity sample_store"
    "length (peers sample_store) \<le> 65535"
    by (simp_all add: sample_store_def key_store_inv_def has_identity_def)
  then obtain E' fs' ks' where
    "save toy_lib \<lparr>open_ok = True, write_ok = True, disk = (\<lambda>bs. bs)\<rparr> ''keys'' ''pw'' sample_store (toy_entropy 1) Map.empty = (Inr (), E', fs')"
    "load toy_lib ''keys'' ''pw'' fs' empty_key_store = (Inr True, ks')" "identity_secret ks' = replicate 32 7"
    using key_file_roundtrip[OF toy_lib_ok(2,3), of sample_store "\<lparr>open_ok = True, write_ok = True, disk = (\<lambda>bs. bs)\<rparr>"
        "''keys''" "''pw''" "toy_entropy 1" Map.empty empty_key_store]
    by auto
  then show ?thesis by (metis fst_conv)
qed

end
