(* ===== verification/Config.thy ===== *)
theory Config
  imports Text
begin

text \<open>
  Configuration files (\<^verbatim>\<open>common/Config.cpp\<close>): the lines \<^verbatim>\<open>key=value\<close> of a file, the reports of progress while
  it is read, the path at which a file is looked for, and the two typed configurations. The contents of
  the file and the link \<^verbatim>\<open>/proc/self/exe\<close> are arguments. \<^verbatim>\<open>client/StartupProgress.hpp\<close> maps the progress of
  reading into the client's progress bar.
\<close>

section \<open>Paths\<close>

text \<open>\<^verbatim>\<open>find_last_of('/')\<close> and the text before it.\<close>

definition before_last_slash :: "string \<Rightarrow> string option" where
  "before_last_slash path =
    (case dropWhile (\<lambda>c. c \<noteq> CHR ''/'') (rev path) of [] \<Rightarrow> None | _ # dir \<Rightarrow> Some (rev dir))"

text \<open>\<open>exe\<close> is the target of \<^verbatim>\<open>/proc/self/exe\<close>, empty when \<^verbatim>\<open>readlink\<close> fails; a null \<^verbatim>\<open>argv0\<close> acts like an
  empty one.\<close>

definition executable_dir :: "string \<Rightarrow> string \<Rightarrow> string" where
  "executable_dir exe argv0 =
    (case (if exe \<noteq> '''' then before_last_slash exe else None) of
       Some dir \<Rightarrow> dir
     | None \<Rightarrow>
         (case (if argv0 \<noteq> '''' then before_last_slash argv0 else None) of
            Some dir \<Rightarrow> dir
          | None \<Rightarrow> ''.''))"

definition has_conf_suffix :: "string \<Rightarrow> bool" where
  "has_conf_suffix path \<longleftrightarrow> length ''.conf'' \<le> length path \<and> drop (length path - length ''.conf'') path = ''.conf''"

definition resolve_config_path :: "string \<Rightarrow> string \<Rightarrow> string \<Rightarrow> string \<Rightarrow> string" where
  "resolve_config_path exe argv0 default_filename override_path =
    (let base_dir = executable_dir exe argv0 in
     if override_path = '''' then base_dir @ ''/config/'' @ default_filename
     else if take 1 override_path = ''/'' then override_path
     else
       let path = (if has_conf_suffix override_path then override_path else override_path @ ''.conf'')
       in if take 7 path = ''config/'' then base_dir @ ''/'' @ path
          else base_dir @ ''/config/'' @ path)"

section \<open>Loading\<close>

definition blank :: "char \<Rightarrow> bool" where
  "blank c \<longleftrightarrow> c = CHR '' '' \<or> c = CHR 0x09"

text \<open>What one line contributes.\<close>

definition config_line :: "string \<Rightarrow> (string \<times> string) option" where
  "config_line line =
    (if line = '''' \<or> hd line = CHR ''#'' then None
     else case split_first (CHR ''='') line of
         None \<Rightarrow> None
       | Some (key, val) \<Rightarrow> Some (trim_back blank key, trim_front blank val))"

text \<open>
  The loop of \<^verbatim>\<open>load\<close>: the values so far, and the reports of progress still to come. Without a callback
  there are none; \<open>last\<close> is \<^verbatim>\<open>last_percent\<close>.
\<close>

fun load_lines :: "bool \<Rightarrow> nat \<Rightarrow> string list \<Rightarrow> nat \<Rightarrow> int \<Rightarrow> (string \<rightharpoonup> string) \<Rightarrow> (string \<rightharpoonup> string) \<times> (int \<times> string) list" where
  "load_lines progress sz [] consumed last_percent vals = (vals, [])"
| "load_lines progress sz (line # lines) consumed last_percent vals =
    (let consumed = consumed + (length line + 1);
         percent = int (consumed * 100 div sz);
         report = progress \<and> 0 < sz \<and> percent \<noteq> last_percent;
         (vals', reports) = load_lines progress sz lines consumed (if report then percent else last_percent)
            (case config_line line of None \<Rightarrow> vals | Some (key, val) \<Rightarrow> vals(key \<mapsto> val))
     in (vals', if report then (min percent 100, ''Reading config'') # reports else reports))"

definition config_load :: "bool \<Rightarrow> string \<Rightarrow> string option \<Rightarrow> ((string \<rightharpoonup> string) \<times> (int \<times> string) list) res" where
  "config_load progress path contents =
    (case contents of
       None \<Rightarrow> Inl (RuntimeError (''Failed to open config file: '' @ path))
     | Some txt \<Rightarrow>
         let (vals, reports) = load_lines progress (length txt) (getlines (CHR 0x0A) txt) 0 (-1) Map.empty
         in Inr (vals, if progress then (0, ''Opening '' @ path) # reports @ [(100, ''Config loaded'')] else []))"

definition config_get :: "(string \<rightharpoonup> string) \<Rightarrow> string \<Rightarrow> string \<Rightarrow> string" where
  "config_get vals key default_value = (case vals key of None \<Rightarrow> default_value | Some v \<Rightarrow> v)"

section \<open>Typed configurations\<close>

record server_config =
  bind_ip :: string
  server_port :: u16

record client_config =
  server_ip :: string
  port :: u16
  nickname :: string
  cfg_keystore_path :: string
  keystore_password :: string
  cfg_log_path :: string

definition server_config_from_file :: "bool \<Rightarrow> string \<Rightarrow> string option \<Rightarrow> server_config res" where
  "server_config_from_file progress path contents =
    bindr (config_load progress path contents) (\<lambda>(config, _).
    bindr (stoi (config_get config ''port'' (to_string 5020))) (\<lambda>p.
      Inr \<lparr>bind_ip = config_get config ''bind_ip'' ''0.0.0.0'', server_port = word_of_int p\<rparr>))"

definition client_config_from_file :: "bool \<Rightarrow> string \<Rightarrow> string option \<Rightarrow> client_config res" where
  "client_config_from_file progress path contents =
    bindr (config_load progress path contents) (\<lambda>(config, _).
    bindr (stoi (config_get config ''port'' (to_string 5020))) (\<lambda>p.
      Inr \<lparr>server_ip = config_get config ''server_ip'' ''127.0.0.1'', port = word_of_int p,
           nickname = config_get config ''nickname'' '''',
           cfg_keystore_path = config_get config ''keystore_path'' '''',
           keystore_password = config_get config ''keystore_password'' ''modbus-chat'',
           cfg_log_path = config_get config ''log_path'' ''''\<rparr>))"

text \<open>\<^verbatim>\<open>int\<close> division truncates, which for the percentages of a file is \<open>div\<close>.\<close>

definition map_config_file_percent :: "int \<Rightarrow> int" where
  "map_config_file_percent file_percent = 10 + (file_percent * 25) div 100"

section \<open>Lemmas\<close>

lemma load_lines_values: "fst (load_lines progress sz lines consumed last_percent vals) = vals ++ map_of (rev (List.map_filter config_line lines))"
proof (induction lines arbitrary: consumed last_percent vals)
  case (Cons line lines)
  show ?case
    using Cons by (cases "config_line line") (auto simp: Let_def case_prod_unfold List.map_filter_def map_add_def fun_eq_iff split: option.splits)
qed (simp add: List.map_filter_def)

text \<open>The reports come in order and stay between the last report and 100.\<close>

lemma load_lines_reports:
  assumes "last_percent \<le> int (consumed * 100 div sz)"
  shows "sorted (map fst (snd (load_lines progress sz lines consumed last_percent vals))) \<and>
    (\<forall>(p, msg) \<in> set (snd (load_lines progress sz lines consumed last_percent vals)).
      0 \<le> p \<and> min last_percent 100 \<le> p \<and> p \<le> 100)"
  using assms
proof (induction lines arbitrary: consumed last_percent vals)
  case (Cons line lines)
  let ?c = "consumed + (length line + 1)"
  let ?p = "int (?c * 100 div sz)"
  let ?r = "progress \<and> 0 < sz \<and> ?p \<noteq> last_percent"
  let ?l = "if ?r then ?p else last_percent"
  let ?v = "case config_line line of None \<Rightarrow> vals | Some (key, val) \<Rightarrow> vals(key \<mapsto> val)"
  let ?rs = "snd (load_lines progress sz lines ?c ?l ?v)"
  have "consumed * 100 div sz \<le> ?c * 100 div sz" by (intro div_le_mono) simp
  then have le: "last_percent \<le> ?p" using Cons.prems by linarith
  then have "?l \<le> ?p" by simp
  note IH = Cons.IH[OF this, of ?v]
  have "snd (load_lines progress sz (line # lines) consumed last_percent vals) =
      (if ?r then (min ?p 100, ''Reading config'') # ?rs else ?rs)"
    by (simp add: Let_def case_prod_unfold)
  then show ?case using IH le by (cases ?r) (fastforce simp: min_def split: if_splits)+
qed simp

text \<open>A list of settings as a file: one line per setting.\<close>

definition render_config :: "(string \<times> string) list \<Rightarrow> string" where
  "render_config kvs = concat (map (\<lambda>(k, v). k @ ''='' @ v @ [CHR 0x0A]) kvs)"

definition plain_setting :: "string \<times> string \<Rightarrow> bool" where
  "plain_setting kv \<longleftrightarrow> (case kv of (k, v) \<Rightarrow>
    CHR ''='' \<notin> set k \<and> CHR 0x0A \<notin> set k \<and> CHR 0x0A \<notin> set v \<and> (k = '''' \<or> hd k \<noteq> CHR ''#'') \<and>
    (k = '''' \<or> \<not> blank (last k)) \<and> (v = '''' \<or> \<not> blank (hd v)))"

lemma config_line_setting:
  assumes "plain_setting (k, v)"
  shows "config_line (k @ ''='' @ v) = Some (k, v)"
proof -
  have "hd (k @ ''='' @ v) \<noteq> CHR ''#''" using assms by (cases k) (auto simp: plain_setting_def)
  moreover have "trim_back blank k = k"
    using assms by (cases k rule: rev_cases) (auto simp: plain_setting_def trim_back_def)
  moreover have "trim_front blank v = v" using assms by (cases v) (auto simp: plain_setting_def trim_front_def)
  ultimately show ?thesis using assms by (simp add: config_line_def plain_setting_def)
qed

lemma getlines_render:
  "\<forall>kv \<in> set kvs. plain_setting kv \<Longrightarrow> getlines (CHR 0x0A) (render_config kvs) = map (\<lambda>(k, v). k @ CHR ''='' # v) kvs"
proof (induction kvs)
  case (Cons kv kvs)
  obtain k v where kv: "kv = (k, v)" by (cases kv)
  let ?rest = "render_config kvs"
  have e: "render_config (kv # kvs) = (k @ ''='' @ v) @ CHR 0x0A # ?rest" by (simp add: render_config_def kv)
  have "CHR 0x0A \<notin> set (k @ ''='' @ v)" using Cons.prems kv by (auto simp: plain_setting_def)
  then have "split_first (CHR 0x0A) (render_config (kv # kvs)) = Some (k @ ''='' @ v, ?rest)"
    unfolding e by (rule split_first_append)
  moreover have "render_config (kv # kvs) \<noteq> []" by (simp add: e)
  ultimately have "getlines (CHR 0x0A) (render_config (kv # kvs)) = (k @ ''='' @ v) # getlines (CHR 0x0A) ?rest"
    by (cases "render_config (kv # kvs)") simp_all
  then show ?case using Cons kv by simp
qed (simp add: render_config_def)

lemma map_filter_settings:
  "\<forall>kv \<in> set kvs. plain_setting kv \<Longrightarrow> List.map_filter config_line (map (\<lambda>(k, v). k @ CHR ''='' # v) kvs) = kvs"
  by (induction kvs) (auto simp: List.map_filter_def config_line_setting[simplified])

lemma config_load_render:
  assumes "\<forall>kv \<in> set kvs. plain_setting kv"
  obtains reports where "config_load progress path (Some (render_config kvs)) = Inr (map_of (rev kvs), reports)"
proof -
  have "fst (load_lines progress sz (getlines (CHR 0x0A) (render_config kvs)) 0 (-1) Map.empty) = map_of (rev kvs)" for sz
    using assms by (simp add: load_lines_values getlines_render map_filter_settings)
  then show thesis using that by (simp add: config_load_def case_prod_unfold Let_def)
qed

section \<open>Properties\<close>

text \<open>A file of plain settings is read back: every key has the value of its last line, and a key
  that does not occur has the default.\<close>

theorem config_roundtrip:
  assumes "\<forall>kv \<in> set kvs. plain_setting kv"
  shows "\<exists>vals reports. config_load progress path (Some (render_config kvs)) = Inr (vals, reports) \<and>
    (\<forall>k d. config_get vals k d = (case map_of (rev kvs) k of None \<Rightarrow> d | Some v \<Rightarrow> v))"
  using config_load_render[OF assms, of progress path] by (metis config_get_def)

theorem config_roundtrip_witness:
  "\<exists>vals reports. config_load False ''x'' (Some (render_config [(''port'', ''1''), (''nickname'', ''bob''), (''port'', ''5020'')])) =
     Inr (vals, reports) \<and> config_get vals ''port'' ''0'' = ''5020'' \<and> config_get vals ''log_path'' ''none'' = ''none''"
  using config_roundtrip[of "[(''port'', ''1''), (''nickname'', ''bob''), (''port'', ''5020'')]" False "''x''"]
  by (auto simp: plain_setting_def blank_def)

text \<open>Reading a file reports progress that starts at 0, never goes back, never leaves the range from 0
  to 100 and ends at 100; in the client's progress bar this is the part from 10 to 35.\<close>

theorem load_progress_monotone:
  assumes "config_load True path (Some contents) = Inr (vals, reports)"
  shows "sorted (map fst reports) \<and> fst (hd reports) = 0 \<and> fst (last reports) = 100 \<and>
    (\<forall>(p, msg) \<in> set reports. 0 \<le> p \<and> p \<le> 100 \<and> 10 \<le> map_config_file_percent p \<and> map_config_file_percent p \<le> 35)"
proof -
  let ?rs = "snd (load_lines True (length contents) (getlines (CHR 0x0A) contents) 0 (-1) Map.empty)"
  have r: "reports = (0, ''Opening '' @ path) # ?rs @ [(100, ''Config loaded'')]"
    using assms by (auto simp: config_load_def Let_def case_prod_unfold)
  have bound: "10 \<le> map_config_file_percent p \<and> map_config_file_percent p \<le> 35" if "0 \<le> p" "p \<le> 100" for p
    using that zdiv_mono1[of "p * 25" "100 * 25" 100] by (simp add: map_config_file_percent_def pos_imp_zdiv_nonneg_iff)
  have "sorted (map fst ?rs) \<and> (\<forall>(p, msg) \<in> set ?rs. 0 \<le> p \<and> p \<le> 100)"
    using load_lines_reports[of "-1" 0 "length contents" True "getlines (CHR 0x0A) contents" Map.empty] by fastforce
  then show ?thesis using bound by (auto simp: r sorted_append)
qed

theorem load_progress_monotone_witness:
  "\<exists>vals reports. config_load True ''x'' (Some ''port=1'') = Inr (vals, reports) \<and> sorted (map fst reports)"
proof -
  obtain vals reports where c: "config_load True ''x'' (Some ''port=1'') = Inr (vals, reports)"
    by (simp add: config_load_def Let_def case_prod_unfold)
  then show ?thesis using load_progress_monotone[OF c] by blast
qed

lemma has_conf_suffix_iff: "has_conf_suffix path \<longleftrightarrow> (\<exists>stem. path = stem @ ''.conf'')"
proof
  assume h: "has_conf_suffix path"
  then have "drop (length path - length ''.conf'') path = ''.conf''" unfolding has_conf_suffix_def by blast
  then show "\<exists>stem. path = stem @ ''.conf''" by (metis append_take_drop_id)
qed (auto simp: has_conf_suffix_def)

lemma suffix_append:
  "n \<le> length ys \<Longrightarrow> drop (length (xs @ ys) - n) (xs @ ys) = drop (length ys - n) ys"
  "length ys < n \<Longrightarrow> drop (length (xs @ ys) - n) (xs @ ys) = drop (length xs - (n - length ys)) xs @ ys"
  by simp_all

lemma has_conf_suffix_config:
  assumes "name \<noteq> ''''"
  shows "has_conf_suffix (''config/'' @ name) \<longleftrightarrow> has_conf_suffix name"
proof (cases "length ''.conf'' \<le> length name")
  case True
  then show ?thesis unfolding has_conf_suffix_def suffix_append(1)[OF True] by simp
next
  case False
  have slash: "CHR ''/'' \<notin> set ''.conf''" by simp
  have "0 < length name" and "length name < 5" using False assms by auto
  then have "length name \<in> {1, 2, 3, 4}" by (simp only: insert_iff empty_iff) linarith
  then have "CHR ''/'' \<in> set (drop (length ''config/'' - (length ''.conf'' - length name)) ''config/'')" by auto
  then have "drop (length ''config/'' - (length ''.conf'' - length name)) ''config/'' @ name \<noteq> ''.conf''"
    using slash by (metis Un_iff set_append)
  then have "drop (length (''config/'' @ name) - length ''.conf'') (''config/'' @ name) \<noteq> ''.conf''"
    using suffix_append(2)[of name "length ''.conf''" "''config/''"] False by (metis not_le)
  then show ?thesis using False unfolding has_conf_suffix_def by blast
qed

text \<open>The configuration file that is opened: an absolute path is taken as it is; everything else is
  looked for in the directory \<^verbatim>\<open>config\<close> next to the program, with the suffix added when it is missing and
  the directory not repeated when it is given. Giving the name of the default file is the same as giving
  nothing.\<close>

theorem resolve_config_path_outcome:
  "resolve_config_path exe argv0 dflt (CHR ''/'' # path) = CHR ''/'' # path \<and>
   resolve_config_path exe argv0 dflt '''' = executable_dir exe argv0 @ ''/config/'' @ dflt \<and>
   (\<forall>name. name \<noteq> '''' \<and> hd name \<noteq> CHR ''/'' \<and> take 7 name \<noteq> ''config/'' \<and> take 7 (name @ ''.conf'') \<noteq> ''config/'' \<longrightarrow>
      resolve_config_path exe argv0 dflt name =
        executable_dir exe argv0 @ ''/config/'' @ (if has_conf_suffix name then name else name @ ''.conf'') \<and>
      resolve_config_path exe argv0 dflt (''config/'' @ name) = resolve_config_path exe argv0 dflt name \<and>
      resolve_config_path exe argv0 dflt (name @ ''.conf'') = executable_dir exe argv0 @ ''/config/'' @ name @ ''.conf'')"
proof (intro conjI allI impI)
  fix name :: string
  assume n: "name \<noteq> '''' \<and> hd name \<noteq> CHR ''/'' \<and> take 7 name \<noteq> ''config/'' \<and> take 7 (name @ ''.conf'') \<noteq> ''config/''"
  then obtain c cs where name: "name = c # cs" "c \<noteq> CHR ''/''" by (cases name) auto
  show r: "resolve_config_path exe argv0 dflt name =
      executable_dir exe argv0 @ ''/config/'' @ (if has_conf_suffix name then name else name @ ''.conf'')"
    using n by (simp add: resolve_config_path_def Let_def name(1))
  note s = has_conf_suffix_config[OF conjunct1[OF n]]
  show "resolve_config_path exe argv0 dflt (''config/'' @ name) = resolve_config_path exe argv0 dflt name"
    unfolding r using s by (simp add: resolve_config_path_def Let_def)
  have "has_conf_suffix (name @ ''.conf'')" by (auto simp: has_conf_suffix_iff)
  then show "resolve_config_path exe argv0 dflt (name @ ''.conf'') = executable_dir exe argv0 @ ''/config/'' @ name @ ''.conf''"
    using n by (simp add: resolve_config_path_def Let_def name(1))
qed (simp_all add: resolve_config_path_def)

theorem resolve_config_path_outcome_witness:
  "resolve_config_path ''/opt/chat/client'' '''' ''client.conf'' ''bob'' = ''/opt/chat/config/bob.conf'' \<and>
   resolve_config_path ''/opt/chat/client'' '''' ''client.conf'' ''config/bob'' = ''/opt/chat/config/bob.conf''"
proof -
  have d: "executable_dir ''/opt/chat/client'' '''' = ''/opt/chat''"
    by (simp add: executable_dir_def before_last_slash_def)
  have s: "\<not> has_conf_suffix ''bob''" by (simp add: has_conf_suffix_def)
  show ?thesis
    using conjunct2[OF conjunct2[OF resolve_config_path_outcome], rule_format, of "''bob''" "''/opt/chat/client''" "''''" "''client.conf''"] d s
    by simp
qed

lemma stoi_decimal: "stoi (to_string n) = (if n < 2 ^ 31 then Inr (int n) else Inl (OutOfRange ''stoi''))"
proof -
  have "\<forall>c \<in> set (to_string n). is_digit c" using to_string_digits by blast
  then show ?thesis by (simp add: stoi_def number_sign_digits takeWhile_digits)
qed

text \<open>The port is not checked: a number beyond 16 bits is silently reduced modulo \<open>65536\<close>, and only a
  number beyond 32 bits or a text without a number is an error.\<close>

theorem config_port_wraps:
  assumes "config_load progress path contents = Inr (vals, reports)" and "vals ''port'' = Some (to_string n)"
  shows "map_sum (\<lambda>e. e) server_port (server_config_from_file progress path contents) =
    (if n < 2 ^ 31 then Inr (word_of_nat (n mod 65536)) else Inl (OutOfRange ''stoi''))"
proof -
  have "word_of_int (int n) = (word_of_nat (n mod 65536) :: u16)"
    by (simp add: word_unat_eq_iff unat_of_nat)
  then show ?thesis
    using assms by (simp add: server_config_from_file_def config_get_def stoi_decimal)
qed

theorem config_port_wraps_witness:
  "map_sum (\<lambda>e. e) server_port (server_config_from_file False ''x'' (Some (render_config [(''port'', to_string 70000)]))) = Inr 4464"
proof -
  have "is_digit (hd (to_string 70000))" by (rule to_string_digits[OF hd_in_set]) simp
  then have "\<forall>kv \<in> set [(''port'', to_string 70000)]. plain_setting kv"
    by (auto simp: plain_setting_def blank_def is_digit_def dest: to_string_digits hd_in_set)
  then obtain reports where
    l: "config_load False ''x'' (Some (render_config [(''port'', to_string 70000)])) = Inr (map_of [(''port'', to_string 70000)], reports)"
    by (rule config_load_render[where progress = False and path = "''x''"]) simp
  show ?thesis using config_port_wraps[OF l, of 70000] by simp
qed

end
