(* ===== verification/Client.thy ===== *)
theory Client
  imports ClientInput Cipher Config Transport
begin

text \<open>
  The client's view model (\<^verbatim>\<open>client/viewmodel/ClientViewModel.cpp\<close>) with its session
  (\<^verbatim>\<open>client/model/ClientSession.cpp\<close>): start-up, the commands the user types, the messages the server
  sends, and the shutdown.

  The record \<open>client\<close> holds the members of \<^verbatim>\<open>ClientViewModel\<close>, the trace of calls of the view, the logger
  and the network (\<open>events\<close>), and what the environment will answer: whether the next sends succeed, what
  the socket yields, the randomness and the files. An operation that may throw returns \<open>unit res\<close> beside
  the new state.

  A handler runs as one step. The mutex of the program protects the keys and the tables of names, and the
  two threads of the program, the one that reads the keyboard and the one that reads the socket, appear
  as the interleavings of the relation \<open>client_step\<close>.
\<close>

section \<open>State\<close>

record client_session =
  config :: client_config
  socket_fd :: int
  my_id :: u32

definition has_nickname :: "client_session \<Rightarrow> bool" where
  "has_nickname s \<longleftrightarrow> nickname (config s) \<noteq> ''''"

record client =
  session :: client_session
  key_store :: peer_key_store
  id_of_nickname :: "string \<rightharpoonup> u32"
  nickname_of_id :: "u32 \<rightharpoonup> string"
  key_offered_to :: "u32 set"
  client_running :: bool
  exit_announced :: bool
  live_fd :: int
  events :: "client_event list"
  send_results :: "nat \<Rightarrow> bool"
  inbox :: "sock_event list"
  entropy_left :: entropy
  disk_files :: files

definition new_client :: "client_config \<Rightarrow> (nat \<Rightarrow> bool) \<Rightarrow> sock_event list \<Rightarrow> entropy \<Rightarrow> files \<Rightarrow> client" where
  "new_client cfg sends evs E fs =
    \<lparr>session = \<lparr>config = cfg, socket_fd = -1, my_id = 0\<rparr>, key_store = empty_key_store,
     id_of_nickname = Map.empty, nickname_of_id = Map.empty, key_offered_to = {}, client_running = True,
     exit_announced = False, live_fd = -1, events = [], send_results = sends, inbox = evs, entropy_left = E,
     disk_files = fs\<rparr>"

abbreviation me :: "client \<Rightarrow> u32" where
  "me c \<equiv> my_id (session c)"

abbreviation cfg :: "client \<Rightarrow> client_config" where
  "cfg c \<equiv> config (session c)"

abbreviation id_text :: "u32 \<Rightarrow> string" where
  "id_text i \<equiv> to_string (unat i)"

definition note_event :: "client_event \<Rightarrow> client \<Rightarrow> client" where
  "note_event e c = c\<lparr>events := events c @ [e]\<rparr>"

text \<open>\<^verbatim>\<open>transport_->send\<close>: the attempt is an event, its outcome comes from the network.\<close>

definition send_message :: "MsgType \<Rightarrow> bytes \<Rightarrow> client \<Rightarrow> bool \<times> client" where
  "send_message t p c =
    (send_results c 0, note_event (ClientSend t p) (c\<lparr>send_results := (\<lambda>i. send_results c (Suc i))\<rparr>))"

section \<open>Shutdown\<close>

definition request_shutdown :: "bool \<Rightarrow> client \<Rightarrow> client" where
  "request_shutdown unblock_stdin c =
    (let c = c\<lparr>client_running := False\<rparr>;
         c = (if 0 \<le> live_fd c then note_event (ShutdownSocket (live_fd c)) c else c)
     in if unblock_stdin then note_event CloseStdin c else c)"

definition announce_exit :: "bool \<Rightarrow> client \<Rightarrow> client" where
  "announce_exit server_lost c =
    (if exit_announced c then c
     else note_event (if server_lost then ShowServerDisconnected else ShowExiting) (c\<lparr>exit_announced := True\<rparr>))"

section \<open>Reports\<close>

definition log_text :: "string \<Rightarrow> string \<Rightarrow> string" where
  "log_text brief detail = (if detail = '''' then brief else brief @ '' | '' @ detail)"

definition report_error :: "string \<Rightarrow> string \<Rightarrow> client \<Rightarrow> client" where
  "report_error brief detail c = note_event (ShowError brief) (note_event (LogError (log_text brief detail)) c)"

definition report_info :: "string \<Rightarrow> string \<Rightarrow> client \<Rightarrow> client" where
  "report_info brief detail c = note_event (ShowNotice brief) (note_event (LogInfo (log_text brief detail)) c)"

section \<open>Keys on disk\<close>

definition default_keystore_name :: "string \<Rightarrow> string" where
  "default_keystore_name nick = (if nick = '''' then ''client.keys'' else nick @ ''.keys'')"

definition default_log_name :: "string \<Rightarrow> string" where
  "default_log_name nick = (if nick = '''' then ''client.log'' else nick @ ''.log'')"

definition keystore_path :: "client \<Rightarrow> string" where
  "keystore_path c =
    (if cfg_keystore_path (cfg c) \<noteq> '''' then cfg_keystore_path (cfg c) else default_keystore_name (nickname (cfg c)))"

definition log_path :: "client \<Rightarrow> string" where
  "log_path c = (if cfg_log_path (cfg c) \<noteq> '''' then cfg_log_path (cfg c) else default_log_name (nickname (cfg c)))"

text \<open>\<open>opens\<close> is whether the log file can be opened.\<close>

definition init_logger :: "bool \<Rightarrow> client \<Rightarrow> client" where
  "init_logger opens c =
    (let path = log_path c in
     if \<not> opens then note_event (ShowError (''Cannot open log file: '' @ path)) c
     else note_event (ShowNotice (''Log: '' @ path)) (note_event (LogInfo (''client log started path='' @ path)) c))"

definition load_or_create_identity :: "monocypher \<Rightarrow> client \<Rightarrow> unit res \<times> client" where
  "load_or_create_identity lib c =
    (let path = keystore_path c;
         create = (\<lambda>c.
           let (pair, E) = generate_keypair lib (entropy_left c);
               c = c\<lparr>entropy_left := E\<rparr>
           in case set_identity (secret_key pair) (public_key pair) (key_store c) of
                Inl e \<Rightarrow> (Inl e, c)
              | Inr ks \<Rightarrow>
                  (Inr (), report_info ''Generated new identity keypair'' (''keystore='' @ path) (c\<lparr>key_store := ks\<rparr>)))
     in case load lib path (keystore_password (cfg c)) (disk_files c) (key_store c) of
          (Inr True, ks) \<Rightarrow> (Inr (), report_info ''Keystore loaded'' (''path='' @ path) (c\<lparr>key_store := ks\<rparr>))
        | (Inr False, ks) \<Rightarrow> create (c\<lparr>key_store := ks\<rparr>)
        | (Inl e, ks) \<Rightarrow>
            create (report_error ''Keystore load failed, creating new keys'' (what e) (c\<lparr>key_store := ks\<rparr>)))"

definition save_keystore :: "monocypher \<Rightarrow> disk_outcome \<Rightarrow> client \<Rightarrow> client" where
  "save_keystore lib d c =
    (if \<not> has_identity (key_store c) then c
     else case save lib d (keystore_path c) (keystore_password (cfg c)) (key_store c) (entropy_left c) (disk_files c) of
         (r, E, fs) \<Rightarrow>
           let c = c\<lparr>entropy_left := E, disk_files := fs\<rparr>
           in case r of
                Inl e \<Rightarrow> report_error ''Failed to save keystore'' (what e) c
              | Inr _ \<Rightarrow> note_event (LogInfo (''Keystore saved path='' @ keystore_path c)) c)"

definition client_shutdown :: "monocypher \<Rightarrow> disk_outcome \<Rightarrow> client \<Rightarrow> client" where
  "client_shutdown lib d c =
    (let c = request_shutdown False c;
         c = save_keystore lib d c;
         fd = socket_fd (session c)
     in if 0 \<le> fd then
          note_event (CloseSocket fd) (c\<lparr>session := (session c)\<lparr>socket_fd := -1\<rparr>, live_fd := -1\<rparr>)
        else c)"

section \<open>Outgoing messages\<close>

definition send_key_offer :: "u32 \<Rightarrow> client \<Rightarrow> unit res \<times> client" where
  "send_key_offer peer_id c =
    (if peer_id = 0 \<or> peer_id = me c then (Inr (), c)
     else if peer_id \<in> key_offered_to c then (Inr (), c)
     else
       let c = c\<lparr>key_offered_to := insert peer_id (key_offered_to c)\<rparr>;
           body = bytes_string (identity_public (key_store c))
       in case build_key_offer (me c) peer_id body of
            Inl e \<Rightarrow> (Inl e, c)
          | Inr p \<Rightarrow>
              let (ok, c) = send_message KeyOffer p c
              in if \<not> ok then
                   (Inr (), report_error ''Send failed'' (''KeyOffer to id='' @ id_text peer_id)
                      (c\<lparr>key_offered_to := key_offered_to c - {peer_id}\<rparr>))
                 else (Inr (), report_info ''Sent KeyOffer'' (''peer_id='' @ id_text peer_id) c))"

definition maybe_send_room_key :: "monocypher \<Rightarrow> u32 \<Rightarrow> client \<Rightarrow> unit res \<times> client" where
  "maybe_send_room_key lib peer_id c =
    (case room_key (key_store c) of
       None \<Rightarrow> (Inr (), c)
     | Some rk \<Rightarrow>
         (case peer_public (key_store c) peer_id of
            None \<Rightarrow> (Inr (), c)
          | Some peer_pk \<Rightarrow>
              (case seal_room_key lib (entropy_left c) (identity_secret (key_store c)) peer_pk rk of
                 (Inl e, E) \<Rightarrow>
                   (Inr (), report_error ''Failed to seal room key''
                      (''peer_id='' @ id_text peer_id @ '' err='' @ what e) (c\<lparr>entropy_left := E\<rparr>))
               | (Inr sealed, E) \<Rightarrow>
                   let c = c\<lparr>entropy_left := E\<rparr> in
                   case build_room_key_offer (me c) peer_id (bytes_string sealed) of
                     Inl e \<Rightarrow> (Inl e, c)
                   | Inr p \<Rightarrow>
                       let (ok, c) = send_message RoomKeyOffer p c
                       in if \<not> ok then (Inr (), report_error ''Send failed'' (''RoomKeyOffer to id='' @ id_text peer_id) c)
                          else (Inr (), report_info ''Sent RoomKeyOffer'' (''peer_id='' @ id_text peer_id) c))))"

definition send_encrypted_chat_by_id :: "monocypher \<Rightarrow> u32 \<Rightarrow> string \<Rightarrow> client \<Rightarrow> unit res \<times> client" where
  "send_encrypted_chat_by_id lib rcpt plaintext c =
    (case peer_public (key_store c) rcpt of
       None \<Rightarrow>
         (Inr (), report_error ''No key for peer'' (''id='' @ id_text rcpt @ '' hint=/key '' @ id_text rcpt) c)
     | Some peer_pk \<Rightarrow>
         (case encrypt_for_peer lib (entropy_left c) (identity_secret (key_store c)) peer_pk plaintext of
            (Inl e, E) \<Rightarrow>
              (Inr (), report_error ''Encrypt failed'' (''id='' @ id_text rcpt @ '' err='' @ what e) (c\<lparr>entropy_left := E\<rparr>))
          | (Inr sealed, E) \<Rightarrow>
              let c = c\<lparr>entropy_left := E\<rparr> in
              case build_chat_by_id (me c) rcpt (bytes_string sealed) of
                Inl e \<Rightarrow> (Inl e, c)
              | Inr p \<Rightarrow>
                  let (ok, c) = send_message Chat p c
                  in if \<not> ok then (Inr (), report_error ''Send failed'' (''Chat to id='' @ id_text rcpt) c)
                     else (Inr (), c)))"

definition send_encrypted_chat_by_nickname :: "monocypher \<Rightarrow> string \<Rightarrow> string \<Rightarrow> client \<Rightarrow> unit res \<times> client" where
  "send_encrypted_chat_by_nickname lib nick plaintext c =
    (case id_of_nickname c nick of
       None \<Rightarrow> (Inr (), report_error ''Unknown nickname'' (''nickname='' @ nick @ '' hint=/users'') c)
     | Some rcpt \<Rightarrow> send_encrypted_chat_by_id lib rcpt plaintext c)"

definition send_encrypted_broadcast :: "monocypher \<Rightarrow> string \<Rightarrow> client \<Rightarrow> unit res \<times> client" where
  "send_encrypted_broadcast lib plaintext c =
    (case room_key (key_store c) of
       None \<Rightarrow> (Inr (), report_error ''No room key yet'' ''wait for RoomKeyOffer or be first client'' c)
     | Some rk \<Rightarrow>
         (case encrypt_with_room_key lib (entropy_left c) rk plaintext of
            (Inl e, E) \<Rightarrow> (Inr (), report_error ''Encrypt broadcast failed'' (what e) (c\<lparr>entropy_left := E\<rparr>))
          | (Inr sealed, E) \<Rightarrow>
              let c = c\<lparr>entropy_left := E\<rparr> in
              case build_chat_broadcast (me c) (bytes_string sealed) of
                Inl e \<Rightarrow> (Inl e, c)
              | Inr p \<Rightarrow>
                  let (ok, c) = send_message Chat p c
                  in if \<not> ok then (Inr (), report_error ''Send failed'' ''Chat broadcast'' c) else (Inr (), c)))"

definition handle_input_command :: "monocypher \<Rightarrow> InputCommand \<Rightarrow> client \<Rightarrow> unit res \<times> client" where
  "handle_input_command lib command c =
    (case cmd_type command of
       CmdListUsers \<Rightarrow>
         let (ok, c) = send_message ListUsers build_list_users c
         in (Inr (), if \<not> ok then report_error ''Send failed'' ''ListUsers'' c else c)
     | CmdExit \<Rightarrow> (Inr (), c\<lparr>client_running := False\<rparr>)
     | CmdKeyOffer \<Rightarrow> send_key_offer (recipient_id command) c
     | CmdChatById \<Rightarrow> send_encrypted_chat_by_id lib (recipient_id command) (cmd_text command) c
     | CmdChatByNickname \<Rightarrow> send_encrypted_chat_by_nickname lib (recipient_nickname command) (cmd_text command) c
     | CmdChatBroadcast \<Rightarrow> send_encrypted_broadcast lib (cmd_text command) c
     | CmdInvalid \<Rightarrow> (Inr (), report_error ''Invalid format'' ''use recipient:text or /users /key /exit'' c))"

text \<open>\<^verbatim>\<open>input_loop\<close> over the lines the user types; the end of the list is the end of the input.\<close>

fun input_loop :: "monocypher \<Rightarrow> string list \<Rightarrow> client \<Rightarrow> unit res \<times> client" where
  "input_loop lib lines c =
    (if \<not> client_running c then (Inr (), c)
     else
       let c = note_event ShowInputPrompt c in
       case lines of
         [] \<Rightarrow> (Inr (), c)
       | line # lines \<Rightarrow>
           if line = '''' then input_loop lib lines c
           else case parse_input_line line (me c) of
               Inl e \<Rightarrow> (Inl e, c)
             | Inr command \<Rightarrow>
                 (case handle_input_command lib command c of
                    (Inl e, c) \<Rightarrow> (Inl e, c)
                  | (Inr _, c) \<Rightarrow> if \<not> client_running c then (Inr (), c) else input_loop lib lines c))"

declare input_loop.simps [simp del]

section \<open>Incoming messages\<close>

text \<open>The text that was sealed for this client by the sender or with the room key, if either opens.\<close>

definition decrypt_deliver :: "monocypher \<Rightarrow> u32 \<Rightarrow> string \<Rightarrow> client \<Rightarrow> string option \<times> client" where
  "decrypt_deliver lib sender body c =
    (let cipher_bytes = string_bytes body;
         by_peer = (case peer_public (key_store c) sender of
             Some peer_pk \<Rightarrow> map_sum what (\<lambda>s. s) (decrypt_from_peer lib (identity_secret (key_store c)) peer_pk cipher_bytes)
           | None \<Rightarrow> Inl ''no peer key'')
     in case by_peer of
          Inr plain \<Rightarrow> (Some plain, c)
        | Inl peer_err \<Rightarrow>
            let by_room = (case room_key (key_store c) of
                Some rk \<Rightarrow> map_sum what (\<lambda>s. s) (decrypt_with_room_key lib rk cipher_bytes)
              | None \<Rightarrow> Inl ''no room key'')
            in case by_room of
                 Inr plain \<Rightarrow> (Some plain, c)
               | Inl room_err \<Rightarrow>
                   (None, note_event (LogError (''decrypt failed from_id='' @ id_text sender @ '' peer=['' @ peer_err @
                      ''] room=['' @ room_err @ '']'')) c))"

fun banned_ids_text :: "u32 list \<Rightarrow> string" where
  "banned_ids_text [] = ''''"
| "banned_ids_text [i] = id_text i"
| "banned_ids_text (i # j # ids) = id_text i @ '','' @ banned_ids_text (j # ids)"

definition note_user :: "u32 \<Rightarrow> string \<Rightarrow> client \<Rightarrow> client" where
  "note_user i nick c =
    (let c = c\<lparr>nickname_of_id := (nickname_of_id c)(i \<mapsto> nick)\<rparr>
     in if nick \<noteq> '''' then c\<lparr>id_of_nickname := (id_of_nickname c)(nick \<mapsto> i)\<rparr> else c)"

definition present_message :: "app_message \<Rightarrow> client \<Rightarrow> unit res \<times> client" where
  "present_message m c =
    (case present m of
       Inl e \<Rightarrow> (Inl e, c)
     | Inr es \<Rightarrow> (Inr (), foldl (\<lambda>c e. note_event e c) c es))"

definition handle_incoming :: "monocypher \<Rightarrow> app_message \<Rightarrow> client \<Rightarrow> unit res \<times> client" where
  "handle_incoming lib message c =
    (case msg_type message of
       Deliver \<Rightarrow>
         (case payload message of
            DeliverPayload sender txt \<Rightarrow>
              (case decrypt_deliver lib sender txt c of
                 (None, c) \<Rightarrow> (Inr (), report_error ''Decrypt failed'' (''from_id='' @ id_text sender) c)
               | (Some plain, c) \<Rightarrow> (Inr (), note_event (ShowDelivered sender plain) c))
          | _ \<Rightarrow> (Inl BadVariantAccess, c))
     | PeerKey \<Rightarrow>
         (case payload message of
            DeliverPayload sender txt \<Rightarrow>
              let failed = (\<lambda>e c. (Inr (), report_error ''Invalid PeerKey'' (''from_id='' @ id_text sender @ '' err='' @ what e) c))
              in (case set_peer_public sender (string_bytes txt) (key_store c) of
                    Inl e \<Rightarrow> failed e c
                  | Inr ks \<Rightarrow>
                      let c = report_info ''Received pubkey'' (''from_id='' @ id_text sender) (c\<lparr>key_store := ks\<rparr>)
                      in case send_key_offer sender c of
                           (Inl e, c) \<Rightarrow> failed e c
                         | (Inr _, c) \<Rightarrow>
                             (case maybe_send_room_key lib sender c of
                                (Inl e, c) \<Rightarrow> failed e c
                              | (Inr _, c) \<Rightarrow> (Inr (), c)))
          | _ \<Rightarrow> (Inl BadVariantAccess, c))
     | RoomKey \<Rightarrow>
         (case payload message of
            DeliverPayload sender txt \<Rightarrow>
              (case peer_public (key_store c) sender of
                 None \<Rightarrow> (Inr (), report_error ''RoomKey from unknown peer'' (''from_id='' @ id_text sender) c)
               | Some peer_pk \<Rightarrow>
                   (case bindr (open_room_key lib (identity_secret (key_store c)) peer_pk (string_bytes txt))
                           (\<lambda>room. set_room_key room (key_store c)) of
                      Inl e \<Rightarrow> (Inr (), report_error ''Failed to open room key'' (what e) c)
                    | Inr ks \<Rightarrow>
                        (Inr (), report_info ''Received room key'' (''from_id='' @ id_text sender) (c\<lparr>key_store := ks\<rparr>))))
          | _ \<Rightarrow> (Inl BadVariantAccess, c))
     | BannedIds \<Rightarrow>
         (case payload message of
            BannedIdsPayload ids \<Rightarrow>
              (Inr (), report_info ''Admin banned ids'' (banned_ids_text ids) (c\<lparr>key_store := erase_peers ids (key_store c)\<rparr>))
          | _ \<Rightarrow> (Inl BadVariantAccess, c))
     | UserJoined \<Rightarrow>
         (case payload message of
            UserJoinedPayload i nick \<Rightarrow>
              (case present_message message (note_user i nick c) of
                 (Inl e, c) \<Rightarrow> (Inl e, c)
               | (Inr _, c) \<Rightarrow> if i \<noteq> me c then send_key_offer i c else (Inr (), c))
          | _ \<Rightarrow> (Inl BadVariantAccess, c))
     | UserLeft \<Rightarrow>
         (case payload message of
            UserLeftPayload i nick \<Rightarrow>
              let c = c\<lparr>nickname_of_id := (nickname_of_id c)(i := None)\<rparr>;
                  c = (if nick \<noteq> '''' then c\<lparr>id_of_nickname := (id_of_nickname c)(nick := None)\<rparr> else c)
              in present_message message c
          | _ \<Rightarrow> (Inl BadVariantAccess, c))
     | UsersList \<Rightarrow>
         (case payload message of
            UsersListPayload users \<Rightarrow>
              present_message message (foldl (\<lambda>c u. note_user (ui_id u) (ui_nickname u) c) c users)
          | _ \<Rightarrow> (Inl BadVariantAccess, c))
     | _ \<Rightarrow> present_message message c)"

text \<open>\<^verbatim>\<open>receive_loop\<close>; \<open>None\<close> when the socket stays silent for ever.\<close>

partial_function (option) receive_loop :: "monocypher \<Rightarrow> client \<Rightarrow> client option" where
  "receive_loop lib c =
    (if \<not> client_running c then Some c
     else case transport_receive (inbox c) of
         None \<Rightarrow> None
       | Some (received, rest) \<Rightarrow>
           (case received of
              Inl e \<Rightarrow> receive_loop lib (report_error ''Decode failed'' (what e) (c\<lparr>inbox := rest\<rparr>))
            | Inr None \<Rightarrow> Some (request_shutdown True (announce_exit True (c\<lparr>inbox := rest\<rparr>)))
            | Inr (Some message) \<Rightarrow>
                (case handle_incoming lib message (c\<lparr>inbox := rest\<rparr>) of
                   (Inl e, c) \<Rightarrow> receive_loop lib (report_error ''Decode failed'' (what e) c)
                 | (Inr _, c) \<Rightarrow> receive_loop lib c)))"

section \<open>Start-up\<close>

text \<open>\<open>conn\<close> is what the connector answers: a descriptor or an exception.\<close>

definition connect_to_server :: "int res \<Rightarrow> client \<Rightarrow> unit res \<times> client" where
  "connect_to_server conn c =
    (let endpoint = server_ip (cfg c) @ '':'' @ to_string (unat (port (cfg c)));
         c = note_event (ShowStatus (''Connecting to '' @ endpoint) 45) c
     in case conn of
          Inl e \<Rightarrow> (Inl e, c)
        | Inr fd \<Rightarrow>
            let c = c\<lparr>session := (session c)\<lparr>socket_fd := fd\<rparr>, live_fd := fd\<rparr>;
                c = note_event (ShowStatus ''TCP connected'' 60) c;
                c = note_event (ShowConnected (server_ip (cfg c)) (port (cfg c))) c
            in (Inr (), note_event (LogInfo (''connected to '' @ endpoint)) c))"

definition receive_assigned_id :: "client \<Rightarrow> (unit res \<times> client) option" where
  "receive_assigned_id c =
    (let c = note_event (ShowStatus ''Waiting for assigned id'' 75) c in
     case transport_receive (inbox c) of
       None \<Rightarrow> None
     | Some (received, rest) \<Rightarrow>
         let c = c\<lparr>inbox := rest\<rparr> in
         (case received of
            Inl e \<Rightarrow> Some (Inl e, c)
          | Inr None \<Rightarrow> Some (Inl (RuntimeError ''Failed to receive assigned id''), c)
          | Inr (Some message) \<Rightarrow>
              if msg_type message \<noteq> AssignId then Some (Inl (RuntimeError ''Failed to receive assigned id''), c)
              else case payload message of
                  AssignIdPayload i create_room \<Rightarrow>
                    let c = c\<lparr>session := (session c)\<lparr>my_id := i\<rparr>\<rparr>;
                        c = note_event (ShowStatus (''Got id='' @ id_text i) 85) c;
                        c = note_event (ShowMyId i) c;
                        c = note_event (LogInfo (''assigned id='' @ id_text i @ '' create_room='' @ (if create_room then ''1'' else ''0''))) c
                    in if create_room \<and> \<not> has_room_key (key_store c) then
                         (case generate_room_key (entropy_left c) of
                            (rk, E) \<Rightarrow>
                              let c = c\<lparr>entropy_left := E\<rparr> in
                              case set_room_key rk (key_store c) of
                                Inl e \<Rightarrow> Some (Inl e, c)
                              | Inr ks \<Rightarrow> Some (Inr (), report_info ''Created room key'' '''' (c\<lparr>key_store := ks\<rparr>)))
                       else Some (Inr (), c)
                | _ \<Rightarrow> Some (Inl BadVariantAccess, c)))"

definition register_nickname :: "client \<Rightarrow> unit res \<times> client" where
  "register_nickname c =
    (if \<not> has_nickname (session c) then (Inr (), c)
     else
       let nick = nickname (cfg c);
           c = note_event (ShowStatus (''Registering nickname='' @ nick) 92) c
       in case encode_register nick of
            Inl e \<Rightarrow> (Inl e, c)
          | Inr p \<Rightarrow>
              let (ok, c) = send_message Register p c
              in (Inr (), if \<not> ok then report_error ''Failed to register nickname'' (''nickname='' @ nick) c else c))"

text \<open>\<^verbatim>\<open>run\<close> up to the start of the receiver thread.\<close>

definition client_startup :: "monocypher \<Rightarrow> bool \<Rightarrow> int res \<Rightarrow> client \<Rightarrow> (unit res \<times> client) option" where
  "client_startup lib log_opens conn c =
    (case load_or_create_identity lib (init_logger log_opens c) of
       (Inl e, c) \<Rightarrow> Some (Inl e, c)
     | (Inr _, c) \<Rightarrow>
         (case connect_to_server conn c of
            (Inl e, c) \<Rightarrow> Some (Inl e, c)
          | (Inr _, c) \<Rightarrow>
              (case receive_assigned_id c of
                 None \<Rightarrow> None
               | Some (Inl e, c) \<Rightarrow> Some (Inl e, c)
               | Some (Inr _, c) \<Rightarrow>
                   (case register_nickname c of
                      (Inl e, c) \<Rightarrow> Some (Inl e, c)
                    | (Inr _, c) \<Rightarrow>
                        Some (Inr (), note_event ShowUsage (note_event ShowInputReady
                          (note_event (ShowStatus ''Startup complete'' 100) c)))))))"

text \<open>\<^verbatim>\<open>run\<close> from there, for the thread of the keyboard.\<close>

definition client_main_loop :: "monocypher \<Rightarrow> string list \<Rightarrow> client \<Rightarrow> unit res \<times> client" where
  "client_main_loop lib lines c =
    (case input_loop lib lines c of
       (Inl e, c) \<Rightarrow> (Inl e, c)
     | (Inr _, c) \<Rightarrow> (Inr (), request_shutdown False (announce_exit False c)))"

end
