(* ===== verification/ClientSafety.thy ===== *)
theory ClientSafety
  imports Client
begin

text \<open>
  What the client can do in any interleaving of its two threads. \<open>client_step\<close> is the transition relation:
  a typed command, a received message, a message that does not decode, the end of a thread, a signal, or a change
  of what the environment will answer. \<open>sealed_send\<close> lists everything that may leave the client.
\<close>

section \<open>The transition relation\<close>

inductive client_step :: "monocypher \<Rightarrow> client \<Rightarrow> client \<Rightarrow> bool" for lib where
  prompt: "client_step lib c (note_event ShowInputPrompt c)"
| command: "client_step lib c (snd (handle_input_command lib cmd c))"
| incoming: "client_step lib c (snd (handle_incoming lib m c))"
| undecodable: "client_step lib c (report_error ''Decode failed'' (what e) c)"
| leave: "client_step lib c (request_shutdown unblock (announce_exit lost c))"
| signal: "client_step lib c (request_shutdown True c)"
| network: "client_step lib c (c\<lparr>inbox := evs, send_results := sends\<rparr>)"

inductive_cases client_stepE: "client_step lib c c'"

abbreviation client_steps :: "monocypher \<Rightarrow> client \<Rightarrow> client \<Rightarrow> bool" where
  "client_steps lib \<equiv> (client_step lib)\<^sup>*\<^sup>*"

section \<open>What leaves the client\<close>

text \<open>The messages a client with id \<open>i\<close> and keys \<open>ks\<close> sends: requests for the list of users, its public key to
  a peer that was not offered it before, the room key sealed for a peer, and chat messages that are
  encrypted for the recipient or with the room key.\<close>

inductive sealed_send :: "monocypher \<Rightarrow> u32 \<Rightarrow> peer_key_store \<Rightarrow> u32 set \<Rightarrow> MsgType \<Rightarrow> bytes \<Rightarrow> bool"
  for lib i ks offered where
  list_users: "sealed_send lib i ks offered ListUsers build_list_users"
| key_offer: "sealed_send lib i ks offered KeyOffer p"
    if "peer \<notin> offered" "peer \<noteq> 0" "peer \<noteq> i" "build_key_offer i peer (bytes_string (identity_public ks)) = Inr p"
| room_key: "sealed_send lib i ks offered RoomKeyOffer p"
    if "room_key ks = Some rk" "peer_public ks peer = Some pk"
      "fst (seal_room_key lib E (identity_secret ks) pk rk) = Inr s"
      "build_room_key_offer i peer (bytes_string s) = Inr p"
| chat: "sealed_send lib i ks offered Chat p"
    if "peer_public ks peer = Some pk" "fst (encrypt_for_peer lib E (identity_secret ks) pk plain) = Inr s"
      "build_chat_by_id i peer (bytes_string s) = Inr p"
| broadcast: "sealed_send lib i ks offered Chat p"
    if "room_key ks = Some rk" "fst (encrypt_with_room_key lib E rk plain) = Inr s"
      "build_chat_broadcast i (bytes_string s) = Inr p"

definition allowed_event :: "monocypher \<Rightarrow> u32 \<Rightarrow> peer_key_store \<Rightarrow> u32 set \<Rightarrow> client_event \<Rightarrow> bool" where
  "allowed_event lib i ks offered e =
    (case e of
       ClientSend t p \<Rightarrow> sealed_send lib i ks offered t p
     | ShowExiting \<Rightarrow> False
     | ShowServerDisconnected \<Rightarrow> False
     | _ \<Rightarrow> True)"

lemma allowed_event_simps [simp]:
  "allowed_event lib i ks off (ClientSend t p) \<longleftrightarrow> sealed_send lib i ks off t p"
  "allowed_event lib i ks off (ShowError s)" "allowed_event lib i ks off (ShowNotice s)"
  "allowed_event lib i ks off (LogInfo s)" "allowed_event lib i ks off (LogError s)"
  "allowed_event lib i ks off (ShowDelivered j s)" "allowed_event lib i ks off ShowInputPrompt"
  "allowed_event lib i ks off (ShowUserJoined j s)" "allowed_event lib i ks off (ShowUserLeft j s)"
  "allowed_event lib i ks off (ShowUsersList us)"
  by (simp_all add: allowed_event_def)

named_theorems appends_intros \<open>how operations append events\<close>

text \<open>\<open>appends P c c'\<close>: the events of \<open>c'\<close> are those of \<open>c\<close> followed by events that satisfy \<open>P\<close>.\<close>

definition appends :: "(client_event \<Rightarrow> bool) \<Rightarrow> client \<Rightarrow> client \<Rightarrow> bool" where
  "appends P c c' \<longleftrightarrow> (\<exists>es. events c' = events c @ es \<and> list_all P es)"

lemma appends_refl [simp, intro]: "appends P c c"
  by (simp add: appends_def)

lemma appends_trans: "appends P c c' \<Longrightarrow> appends P c' c'' \<Longrightarrow> appends P c c''"
  by (auto simp: appends_def)

lemma appends_note [appends_intros]: "appends P c c' \<Longrightarrow> P e \<Longrightarrow> appends P c (note_event e c')"
  by (auto simp: appends_def note_event_def)

lemma appends_mono: "appends P c c' \<Longrightarrow> (\<And>e. P e \<Longrightarrow> Q e) \<Longrightarrow> appends Q c c'"
  by (auto simp: appends_def list_all_iff)

lemma appends_upd [simp]:
  "appends P c (c'\<lparr>key_store := ks\<rparr>) = appends P c c'" "appends P c (c'\<lparr>entropy_left := E\<rparr>) = appends P c c'"
  "appends P c (c'\<lparr>key_offered_to := K\<rparr>) = appends P c c'" "appends P c (c'\<lparr>nickname_of_id := N\<rparr>) = appends P c c'"
  "appends P c (c'\<lparr>id_of_nickname := M\<rparr>) = appends P c c'" "appends P c (c'\<lparr>send_results := f\<rparr>) = appends P c c'"
  "appends P c (c'\<lparr>inbox := evs\<rparr>) = appends P c c'" "appends P c (c'\<lparr>client_running := b\<rparr>) = appends P c c'"
  "appends P c (c'\<lparr>exit_announced := b\<rparr>) = appends P c c'"
  by (simp_all add: appends_def)

section \<open>Frame\<close>

text \<open>The members that no handler of commands or messages changes.\<close>

definition core :: "client \<Rightarrow> client_session \<times> sock_event list \<times> bool \<times> int \<times> files" where
  "core c = (session c, inbox c, exit_announced c, live_fd c, disk_files c)"

lemma core_eqD: "core c' = core c \<Longrightarrow> session c' = session c \<and> inbox c' = inbox c \<and> exit_announced c' = exit_announced c"
  by (simp add: core_def)

lemma note_event_simps [simp]:
  "session (note_event e c) = session c" "key_store (note_event e c) = key_store c"
  "id_of_nickname (note_event e c) = id_of_nickname c" "nickname_of_id (note_event e c) = nickname_of_id c"
  "key_offered_to (note_event e c) = key_offered_to c" "client_running (note_event e c) = client_running c"
  "exit_announced (note_event e c) = exit_announced c" "live_fd (note_event e c) = live_fd c"
  "events (note_event e c) = events c @ [e]" "send_results (note_event e c) = send_results c"
  "inbox (note_event e c) = inbox c" "entropy_left (note_event e c) = entropy_left c"
  "disk_files (note_event e c) = disk_files c" "core (note_event e c) = core c"
  by (simp_all add: note_event_def core_def)

lemma core_upd [simp]:
  "core (c\<lparr>key_store := ks\<rparr>) = core c" "core (c\<lparr>entropy_left := E\<rparr>) = core c" "core (c\<lparr>key_offered_to := K\<rparr>) = core c"
  "core (c\<lparr>nickname_of_id := N\<rparr>) = core c" "core (c\<lparr>id_of_nickname := M\<rparr>) = core c" "core (c\<lparr>send_results := f\<rparr>) = core c"
  "core (c\<lparr>client_running := b\<rparr>) = core c"
  by (simp_all add: core_def)

lemma report_simps [simp]:
  "session (report_error b d c) = session c" "session (report_info b d c) = session c"
  "key_store (report_error b d c) = key_store c" "key_store (report_info b d c) = key_store c"
  "key_offered_to (report_error b d c) = key_offered_to c" "key_offered_to (report_info b d c) = key_offered_to c"
  "id_of_nickname (report_error b d c) = id_of_nickname c" "id_of_nickname (report_info b d c) = id_of_nickname c"
  "client_running (report_error b d c) = client_running c" "client_running (report_info b d c) = client_running c"
  "exit_announced (report_error b d c) = exit_announced c" "exit_announced (report_info b d c) = exit_announced c"
  "inbox (report_error b d c) = inbox c" "inbox (report_info b d c) = inbox c"
  "entropy_left (report_error b d c) = entropy_left c" "entropy_left (report_info b d c) = entropy_left c"
  "core (report_error b d c) = core c" "core (report_info b d c) = core c"
  by (simp_all add: report_error_def report_info_def)

lemma appends_report [appends_intros]:
  "appends P c c' \<Longrightarrow> P (LogError (log_text b d)) \<Longrightarrow> P (ShowError b) \<Longrightarrow> appends P c (report_error b d c')"
  "appends P c c' \<Longrightarrow> P (LogInfo (log_text b d)) \<Longrightarrow> P (ShowNotice b) \<Longrightarrow> appends P c (report_info b d c')"
  by (simp_all add: report_error_def report_info_def appends_note)

lemma send_message_simps [simp]:
  "fst (send_message t p c) = send_results c 0" "session (snd (send_message t p c)) = session c"
  "key_store (snd (send_message t p c)) = key_store c" "key_offered_to (snd (send_message t p c)) = key_offered_to c"
  "client_running (snd (send_message t p c)) = client_running c" "core (snd (send_message t p c)) = core c"
  by (simp_all add: send_message_def)

lemma appends_send [appends_intros]:
  "appends P c' c \<Longrightarrow> P (ClientSend t p) \<Longrightarrow> appends P c' (snd (send_message t p c))"
  by (simp add: send_message_def appends_note)

text \<open>What a sending operation does beside sending.\<close>

lemma send_key_offer_frame:
  "core (snd (send_key_offer i c)) = core c" "key_store (snd (send_key_offer i c)) = key_store c"
  "client_running (snd (send_key_offer i c)) = client_running c"
  "key_offered_to c \<subseteq> key_offered_to (snd (send_key_offer i c))"
  by (auto simp: send_key_offer_def Let_def case_prod_unfold split: sum.split)

lemma send_key_offer_appends:
  "appends (allowed_event lib (me c) (key_store c) (key_offered_to c)) c (snd (send_key_offer i c))"
  by (auto simp: send_key_offer_def Let_def case_prod_unfold split: sum.split intro!: appends_intros intro!: sealed_send.key_offer[where peer = i])

lemma maybe_send_room_key_frame:
  "core (snd (maybe_send_room_key lib i c)) = core c" "key_store (snd (maybe_send_room_key lib i c)) = key_store c"
  "client_running (snd (maybe_send_room_key lib i c)) = client_running c"
  "key_offered_to (snd (maybe_send_room_key lib i c)) = key_offered_to c"
  by (auto simp: maybe_send_room_key_def Let_def case_prod_unfold split: sum.split option.split prod.split)

lemma maybe_send_room_key_appends:
  "appends (allowed_event lib (me c) (key_store c) off) c (snd (maybe_send_room_key lib i c))"
  by (auto simp: maybe_send_room_key_def Let_def case_prod_unfold split: sum.split option.split prod.split
      intro!: appends_intros intro: sealed_send.room_key)

lemma send_chat_frame:
  "core (snd (send_encrypted_chat_by_id lib i s c)) = core c"
  "key_store (snd (send_encrypted_chat_by_id lib i s c)) = key_store c"
  "client_running (snd (send_encrypted_chat_by_id lib i s c)) = client_running c"
  "key_offered_to (snd (send_encrypted_chat_by_id lib i s c)) = key_offered_to c"
  by (auto simp: send_encrypted_chat_by_id_def Let_def case_prod_unfold split: sum.split option.split prod.split)

lemma send_chat_appends:
  "appends (allowed_event lib (me c) (key_store c) off) c (snd (send_encrypted_chat_by_id lib i s c))"
  by (auto simp: send_encrypted_chat_by_id_def Let_def case_prod_unfold split: sum.split option.split prod.split
      intro!: appends_intros intro: sealed_send.chat)

lemma send_broadcast_frame:
  "core (snd (send_encrypted_broadcast lib s c)) = core c"
  "key_store (snd (send_encrypted_broadcast lib s c)) = key_store c"
  "client_running (snd (send_encrypted_broadcast lib s c)) = client_running c"
  "key_offered_to (snd (send_encrypted_broadcast lib s c)) = key_offered_to c"
  by (auto simp: send_encrypted_broadcast_def Let_def case_prod_unfold split: sum.split option.split prod.split)

lemma send_broadcast_appends:
  "appends (allowed_event lib (me c) (key_store c) off) c (snd (send_encrypted_broadcast lib s c))"
  by (auto simp: send_encrypted_broadcast_def Let_def case_prod_unfold split: sum.split option.split prod.split
      intro!: appends_intros intro: sealed_send.broadcast)

lemma note_user_frame [simp]:
  "core (note_user i n c) = core c" "key_store (note_user i n c) = key_store c" "session (note_user i n c) = session c"
  "client_running (note_user i n c) = client_running c" "key_offered_to (note_user i n c) = key_offered_to c"
  "appends P c' (note_user i n c) = appends P c' c"
  by (simp_all add: note_user_def Let_def)

lemma note_users_frame:
  defines "note \<equiv> \<lambda>c u. note_user (ui_id u) (ui_nickname u) c"
  shows "core (foldl note c us) = core c \<and> key_store (foldl note c us) = key_store c \<and>
    client_running (foldl note c us) = client_running c \<and> key_offered_to (foldl note c us) = key_offered_to c \<and>
    appends P c' (foldl note c us) = appends P c' c"
  unfolding note_def by (induction us arbitrary: c) simp_all

lemma foldl_note_event: "foldl (\<lambda>c e. note_event e c) c es = c\<lparr>events := events c @ es\<rparr>"
  by (induction es arbitrary: c) (simp_all add: note_event_def)

lemma present_allowed: "present m = Inr es \<Longrightarrow> list_all (allowed_event lib i ks off) es"
  by (auto simp: present_def split: MsgType.splits AppPayload.splits)

lemma present_message_frame [simp]:
  "core (snd (present_message m c)) = core c" "key_store (snd (present_message m c)) = key_store c"
  "client_running (snd (present_message m c)) = client_running c"
  "key_offered_to (snd (present_message m c)) = key_offered_to c"
  "session (snd (present_message m c)) = session c"
  by (simp_all add: present_message_def foldl_note_event core_def split: sum.split)

lemma present_message_appends [appends_intros]:
  assumes "appends (allowed_event lib i ks off) c' c"
  shows "appends (allowed_event lib i ks off) c' (snd (present_message m c))"
  using assms present_allowed[of m]
  by (auto simp: present_message_def foldl_note_event appends_def split: sum.split)

lemma decrypt_deliver_frame [simp]:
  "core (snd (decrypt_deliver lib i s c)) = core c" "key_store (snd (decrypt_deliver lib i s c)) = key_store c"
  "client_running (snd (decrypt_deliver lib i s c)) = client_running c"
  "key_offered_to (snd (decrypt_deliver lib i s c)) = key_offered_to c"
  by (simp_all add: decrypt_deliver_def Let_def split: sum.split)

lemma decrypt_deliver_appends [appends_intros]:
  "appends (allowed_event lib j ks off) c' c \<Longrightarrow> appends (allowed_event lib j ks off) c' (snd (decrypt_deliver lib i s c))"
  by (auto simp: decrypt_deliver_def Let_def split: sum.split intro!: appends_intros)

lemmas sending_frames = send_key_offer_frame maybe_send_room_key_frame send_chat_frame send_broadcast_frame
lemmas sending_appends = send_key_offer_appends maybe_send_room_key_appends send_chat_appends send_broadcast_appends

text \<open>Commands.\<close>

lemma handle_input_command_frame:
  "core (snd (handle_input_command lib cmd c)) = core c" "key_store (snd (handle_input_command lib cmd c)) = key_store c"
  "key_offered_to c \<subseteq> key_offered_to (snd (handle_input_command lib cmd c))"
  by (simp_all add: handle_input_command_def send_encrypted_chat_by_nickname_def Let_def case_prod_unfold sending_frames
      split: InputCommandType.split option.split)

lemma handle_input_command_appends:
  "appends (allowed_event lib (me c) (key_store c) (key_offered_to c)) c (snd (handle_input_command lib cmd c))"
  by (auto simp: handle_input_command_def send_encrypted_chat_by_nickname_def Let_def case_prod_unfold sending_appends
      split: InputCommandType.split option.split intro!: appends_intros sealed_send.list_users)

text \<open>The one message that is answered with more than one message.\<close>

definition answer_peer_key :: "monocypher \<Rightarrow> u32 \<Rightarrow> client \<Rightarrow> unit res \<times> client" where
  "answer_peer_key lib i c =
    (case send_key_offer i c of
       (Inl e, c) \<Rightarrow> (Inl e, c)
     | (Inr _, c) \<Rightarrow> maybe_send_room_key lib i c)"

lemma answer_peer_key_frame:
  "core (snd (answer_peer_key lib i c)) = core c" "key_store (snd (answer_peer_key lib i c)) = key_store c"
  "client_running (snd (answer_peer_key lib i c)) = client_running c"
  "key_offered_to c \<subseteq> key_offered_to (snd (answer_peer_key lib i c))"
  using send_key_offer_frame[where i = i and c = c]
  by (auto simp: answer_peer_key_def maybe_send_room_key_frame split: prod.split sum.split)

lemma answer_peer_key_appends:
  "appends (allowed_event lib (me c) (key_store c) (key_offered_to c)) c (snd (answer_peer_key lib i c))"
proof -
  obtain r c1 where s: "send_key_offer i c = (r, c1)" by (cases "send_key_offer i c")
  have f: "me c1 = me c" "key_store c1 = key_store c" using send_key_offer_frame[where i = i and c = c] s by (auto dest: core_eqD)
  have a: "appends (allowed_event lib (me c) (key_store c) (key_offered_to c)) c c1"
    using send_key_offer_appends[of lib c i] s by simp
  show ?thesis
  proof (cases r)
    case (Inr u)
    have "appends (allowed_event lib (me c) (key_store c) (key_offered_to c)) c1 (snd (maybe_send_room_key lib i c1))"
      using maybe_send_room_key_appends[of lib c1] f by simp
    then show ?thesis using appends_trans[OF a] s Inr by (simp add: answer_peer_key_def)
  qed (use a s in \<open>simp add: answer_peer_key_def\<close>)
qed

lemma handle_incoming_PeerKey:
  "handle_incoming lib \<lparr>msg_type = PeerKey, payload = DeliverPayload i s\<rparr> c =
    (case set_peer_public i (string_bytes s) (key_store c) of
       Inl e \<Rightarrow> (Inr (), report_error ''Invalid PeerKey'' (''from_id='' @ id_text i @ '' err='' @ what e) c)
     | Inr ks \<Rightarrow>
         (case answer_peer_key lib i (report_info ''Received pubkey'' (''from_id='' @ id_text i) (c\<lparr>key_store := ks\<rparr>)) of
            (Inl e, c) \<Rightarrow> (Inr (), report_error ''Invalid PeerKey'' (''from_id='' @ id_text i @ '' err='' @ what e) c)
          | (Inr _, c) \<Rightarrow> (Inr (), c)))"
  by (simp add: handle_incoming_def answer_peer_key_def Let_def split: sum.split prod.split)

text \<open>What handling a message may change.\<close>

definition tame :: "monocypher \<Rightarrow> client \<Rightarrow> client \<Rightarrow> bool" where
  "tame lib c c' \<longleftrightarrow> core c' = core c \<and> client_running c' = client_running c \<and> key_offered_to c \<subseteq> key_offered_to c' \<and>
    (key_store_inv (key_store c) \<longrightarrow> key_store_inv (key_store c')) \<and>
    appends (allowed_event lib (me c) (key_store c') (key_offered_to c)) c c'"

lemma tameI:
  assumes "core c' = core c" and "client_running c' = client_running c" and "key_offered_to c \<subseteq> key_offered_to c'"
    and "key_store_inv (key_store c) \<Longrightarrow> key_store_inv (key_store c')"
    and "appends (allowed_event lib (me c) (key_store c') (key_offered_to c)) c c'"
  shows "tame lib c c'"
  using assms by (simp add: tame_def)

lemma tame_refl [simp, intro]: "tame lib c c"
  by (simp add: tame_def)

lemma tame_present: "tame lib c (snd (present_message m c))"
  by (rule tameI) (auto intro!: appends_intros)

lemma tame_peer_key: "tame lib c (snd (handle_incoming lib \<lparr>msg_type = PeerKey, payload = DeliverPayload i s\<rparr> c))"
proof (cases "set_peer_public i (string_bytes s) (key_store c)")
  case (Inl e)
  then show ?thesis unfolding handle_incoming_PeerKey by (auto intro!: tameI appends_intros)
next
  case (Inr ks)
  let ?c = "report_info ''Received pubkey'' (''from_id='' @ id_text i) (c\<lparr>key_store := ks\<rparr>)"
  obtain r c1 where a: "answer_peer_key lib i ?c = (r, c1)" by (cases "answer_peer_key lib i ?c")
  have f: "core c1 = core c" "key_store c1 = ks" "client_running c1 = client_running c" "key_offered_to c \<subseteq> key_offered_to c1"
    using answer_peer_key_frame[where lib = lib and i = i and c = ?c] a by simp_all
  have "appends (allowed_event lib (me c) ks (key_offered_to c)) ?c c1"
    using answer_peer_key_appends[of lib ?c i] a by simp
  moreover have "appends (allowed_event lib (me c) ks (key_offered_to c)) c ?c" by (auto intro!: appends_intros)
  ultimately have ap: "appends (allowed_event lib (me c) ks (key_offered_to c)) c c1" by (rule appends_trans[rotated])
  have inv: "key_store_inv (key_store c) \<Longrightarrow> key_store_inv ks" using Inr by (rule key_store_inv_set_peer[rotated])
  show ?thesis
    unfolding handle_incoming_PeerKey using Inr a f ap inv
    by (cases r) (auto intro!: tameI appends_intros)
qed

lemma tame_room_key: "tame lib c (snd (handle_incoming lib \<lparr>msg_type = RoomKey, payload = DeliverPayload i s\<rparr> c))"
  by (auto simp: handle_incoming_def split: option.split sum.split intro!: tameI appends_intros
      intro: key_store_inv_set_room_key)

lemma tame_deliver: "tame lib c (snd (handle_incoming lib \<lparr>msg_type = Deliver, payload = DeliverPayload i s\<rparr> c))"
proof -
  obtain r c1 where d: "decrypt_deliver lib i s c = (r, c1)" by (cases "decrypt_deliver lib i s c")
  have f: "core c1 = core c" "key_store c1 = key_store c" "client_running c1 = client_running c"
    "key_offered_to c1 = key_offered_to c"
    "appends (allowed_event lib (me c) (key_store c) (key_offered_to c)) c c1"
    using decrypt_deliver_frame[of lib i s c] decrypt_deliver_appends[OF appends_refl, of lib _ _ _ c i s] d by simp_all
  then show ?thesis by (cases r) (auto simp: handle_incoming_def d intro!: tameI appends_intros)
qed

lemma tame_joined: "tame lib c (snd (handle_incoming lib \<lparr>msg_type = UserJoined, payload = UserJoinedPayload i n\<rparr> c))"
proof -
  let ?m = "\<lparr>msg_type = UserJoined, payload = UserJoinedPayload i n\<rparr>"
  let ?c = "note_event (ShowUserJoined i n) (note_user i n c)"
  have "handle_incoming lib ?m c = (if i \<noteq> me c then send_key_offer i ?c else (Inr (), ?c))"
    by (simp add: handle_incoming_def present_message_def present_def)
  moreover have "tame lib c ?c" by (rule tameI) (auto intro!: appends_intros)
  moreover have "tame lib c (snd (send_key_offer i ?c))"
  proof (rule tameI)
    have "appends (allowed_event lib (me c) (key_store c) (key_offered_to c)) c ?c" by (auto intro!: appends_intros)
    moreover have "appends (allowed_event lib (me c) (key_store c) (key_offered_to c)) ?c (snd (send_key_offer i ?c))"
      using send_key_offer_appends[of lib ?c i] by simp
    ultimately have "appends (allowed_event lib (me c) (key_store c) (key_offered_to c)) c (snd (send_key_offer i ?c))"
      by (rule appends_trans)
    moreover have ks: "key_store (snd (send_key_offer i ?c)) = key_store c" by (simp add: send_key_offer_frame)
    ultimately show "appends (allowed_event lib (me c) (key_store (snd (send_key_offer i ?c))) (key_offered_to c)) c
        (snd (send_key_offer i ?c))" by simp
    show "key_offered_to c \<subseteq> key_offered_to (snd (send_key_offer i ?c))"
      using send_key_offer_frame(4)[of ?c i] by simp
  qed (simp_all add: send_key_offer_frame(1-3))
  ultimately show ?thesis by (cases "i = me c") simp_all
qed

lemma tame_other:
  "tame lib c (snd (handle_incoming lib \<lparr>msg_type = BannedIds, payload = BannedIdsPayload ids\<rparr> c))"
  "tame lib c (snd (handle_incoming lib \<lparr>msg_type = UserLeft, payload = UserLeftPayload i n\<rparr> c))"
  "tame lib c (snd (handle_incoming lib \<lparr>msg_type = UsersList, payload = UsersListPayload us\<rparr> c))"
proof -
  show "tame lib c (snd (handle_incoming lib \<lparr>msg_type = BannedIds, payload = BannedIdsPayload ids\<rparr> c))"
    by (auto simp: handle_incoming_def key_store_inv_erase_peers intro!: tameI appends_intros)
  show "tame lib c (snd (handle_incoming lib \<lparr>msg_type = UserLeft, payload = UserLeftPayload i n\<rparr> c))"
    by (auto simp: handle_incoming_def Let_def intro!: tameI appends_intros)
  show "tame lib c (snd (handle_incoming lib \<lparr>msg_type = UsersList, payload = UsersListPayload us\<rparr> c))"
    using note_users_frame[of c us] by (auto simp: handle_incoming_def intro!: tameI appends_intros)
qed

lemma handle_incoming_tame: "tame lib c (snd (handle_incoming lib m c))"
proof -
  obtain t p where m: "m = \<lparr>msg_type = t, payload = p\<rparr>" by (cases m)
  show ?thesis
  proof (cases "t \<in> {Deliver, PeerKey, RoomKey, BannedIds, UserJoined, UserLeft, UsersList}")
    case False
    then show ?thesis using tame_present[of lib c m] by (cases t) (auto simp: handle_incoming_def m)
  next
    case True
    show ?thesis
    proof (cases "payload_fits t p")
      case True
      with \<open>t \<in> _\<close> show ?thesis
        using tame_peer_key tame_room_key tame_deliver tame_joined tame_other unfolding m by (cases p) auto
    next
      case False
      with \<open>t \<in> _\<close> have "handle_incoming lib m c = (Inl BadVariantAccess, c)"
        unfolding m handle_incoming_def by (cases p) auto
      then show ?thesis by simp
    qed
  qed
qed

section \<open>Steps\<close>

definition is_exit :: "client_event \<Rightarrow> bool" where
  "is_exit e \<longleftrightarrow> e = ShowExiting \<or> e = ShowServerDisconnected"

definition exits :: "client \<Rightarrow> nat" where
  "exits c = length (filter is_exit (events c))"

lemma allowed_not_exit: "allowed_event lib i ks off e \<Longrightarrow> \<not> is_exit e"
  by (auto simp: is_exit_def allowed_event_def)

lemma appends_exits: "appends (allowed_event lib i ks off) c c' \<Longrightarrow> exits c' = exits c"
  using allowed_not_exit[of lib i ks off] by (fastforce simp: appends_def exits_def list_all_iff filter_empty_conv)

text \<open>Every step appends events; what it sends is sealed, and the table of offered keys only grows.\<close>

lemma client_step_cases:
  assumes "client_step lib c c'"
  obtains (handled) "core c' = core c \<or> (\<exists>evs. core c' = core (c\<lparr>inbox := evs\<rparr>))"
      "appends (allowed_event lib (me c) (key_store c') (key_offered_to c)) c c'"
      "key_offered_to c \<subseteq> key_offered_to c'" "key_store_inv (key_store c) \<longrightarrow> key_store_inv (key_store c')"
  | (left) unblock lost where "c' = request_shutdown unblock (announce_exit lost c)"
  | (signalled) "c' = request_shutdown True c"
  using assms
proof cases
  case (command cmd)
  then show ?thesis
    using handle_input_command_frame[where lib = lib and cmd = cmd and c = c] handle_input_command_appends[of lib c cmd]
    by (intro handled) simp_all
next
  case (incoming m)
  then show ?thesis using handle_incoming_tame[of lib c m] by (intro handled) (simp_all add: tame_def)
next
  case (network evs sends)
  then show ?thesis by (intro handled) (auto simp: core_def)
next
  case prompt
  then show ?thesis by (intro handled) (auto intro!: appends_intros)
next
  case (undecodable e)
  then show ?thesis by (intro handled) (auto intro!: appends_intros)
qed (rule left signalled; assumption)+

lemma leave_simps [simp]:
  "key_store (request_shutdown b c) = key_store c" "key_offered_to (request_shutdown b c) = key_offered_to c"
  "session (request_shutdown b c) = session c" "exit_announced (request_shutdown b c) = exit_announced c"
  "client_running (request_shutdown b c) = False"
  "key_store (announce_exit l c) = key_store c" "key_offered_to (announce_exit l c) = key_offered_to c"
  "session (announce_exit l c) = session c" "exit_announced (announce_exit l c)"
  by (simp_all add: request_shutdown_def announce_exit_def Let_def)

definition not_sent :: "client_event \<Rightarrow> bool" where
  "not_sent e \<longleftrightarrow> (\<forall>t p. e \<noteq> ClientSend t p)"

lemma leave_appends: "appends not_sent c (request_shutdown b (announce_exit l c))"
  by (auto simp: request_shutdown_def announce_exit_def Let_def not_sent_def intro!: appends_intros)

lemma signal_appends: "appends not_sent c (request_shutdown b c)"
  by (auto simp: request_shutdown_def Let_def not_sent_def intro!: appends_intros)

lemma signal_exits: "exits (request_shutdown b c) = exits c"
  by (simp add: request_shutdown_def Let_def exits_def is_exit_def)

lemma leave_exits: "exits (request_shutdown b (announce_exit l c)) = (if exit_announced c then exits c else Suc (exits c))"
  by (simp add: request_shutdown_def announce_exit_def Let_def exits_def is_exit_def)

lemma client_step_inv: "client_step lib c c' \<Longrightarrow> key_store_inv (key_store c) \<Longrightarrow> key_store_inv (key_store c')"
  by (erule client_step_cases) auto

lemma client_step_session: "client_step lib c c' \<Longrightarrow> session c' = session c"
  by (erule client_step_cases) (auto simp: core_def)

lemma client_step_offered: "client_step lib c c' \<Longrightarrow> key_offered_to c \<subseteq> key_offered_to c'"
  by (erule client_step_cases) auto

lemma client_step_exits:
  assumes "client_step lib c c'" and "exits c = (if exit_announced c then 1 else 0)"
  shows "exits c' = (if exit_announced c' then 1 else 0)"
  using assms(1)
proof (cases rule: client_step_cases)
  case handled
  then have "exit_announced c' = exit_announced c" by (auto simp: core_def)
  then show ?thesis using assms(2) appends_exits[OF handled(2)] by simp
next
  case (left unblock lost)
  then show ?thesis using assms(2) by (simp add: leave_exits)
next
  case signalled
  then show ?thesis using assms(2) by (simp add: signal_exits)
qed

lemma client_step_sends:
  assumes "client_step lib c c'"
  obtains es where "events c' = events c @ es"
    "\<And>t p. ClientSend t p \<in> set es \<Longrightarrow> sealed_send lib (me c) (key_store c') (key_offered_to c) t p"
  using assms
proof (cases rule: client_step_cases)
  case handled
  then obtain es where "events c' = events c @ es" "list_all (allowed_event lib (me c) (key_store c') (key_offered_to c)) es"
    by (auto simp: appends_def)
  then show ?thesis by (intro that[of es]) (auto simp: list_all_iff)
next
  case (left unblock lost)
  then obtain es where "events c' = events c @ es" "list_all not_sent es"
    using leave_appends[of c unblock lost] by (auto simp: appends_def)
  then show ?thesis by (intro that[of es]) (auto simp: list_all_iff not_sent_def)
next
  case signalled
  then obtain es where "events c' = events c @ es" "list_all not_sent es"
    using signal_appends[of c True] by (auto simp: appends_def)
  then show ?thesis by (intro that[of es]) (auto simp: list_all_iff not_sent_def)
qed

section \<open>Properties\<close>

text \<open>A client that knows one peer and the room key.\<close>

definition sample_client :: client where
  "sample_client = (new_client \<lparr>server_ip = ''127.0.0.1'', port = 5020, nickname = ''alice'', cfg_keystore_path = '''',
       keystore_password = ''pw'', cfg_log_path = ''''\<rparr> (\<lambda>_. True) [] (toy_entropy 1) Map.empty)
     \<lparr>key_store := sample_store, key_offered_to := {5}\<rparr>"



text \<open>C22: The key store keeps its shape, and the client its id, over every run of the two threads.\<close>

theorem client_keys_well_formed:
  assumes "client_steps lib c c'" and "key_store_inv (key_store c)"
  shows "key_store_inv (key_store c') \<and> session c' = session c"
  using assms by (induction rule: rtranclp_induct) (auto dest: client_step_inv client_step_session)

theorem client_keys_well_formed_witness:
  "key_store_inv (key_store (note_event ShowInputPrompt sample_client))"
proof -
  have "key_store_inv (key_store sample_client)" by (simp add: sample_client_def sample_store_def key_store_inv_def)
  then show ?thesis using client_keys_well_formed[of toy_lib sample_client "note_event ShowInputPrompt sample_client"]
    by (blast intro: client_step.prompt)
qed

text \<open>C23: The user is told once that the session ends, by whichever thread comes first.\<close>

theorem exit_announced_once:
  assumes "client_steps lib (new_client conf sends evs E fs) c"
  shows "exits c = (if exit_announced c then 1 else 0)"
  using assms by (induction rule: rtranclp_induct)
    (simp add: exits_def new_client_def, blast dest: client_step_exits)

theorem exit_announced_once_witness:
  "\<exists>conf. exits (request_shutdown True (announce_exit True (request_shutdown False (announce_exit False
     (new_client conf (\<lambda>_. True) [] (toy_entropy 1) Map.empty))))) = 1"
proof -
  fix conf :: client_config
  let ?c = "new_client conf (\<lambda>_. True) [] (toy_entropy 1) Map.empty"
  let ?d = "request_shutdown False (announce_exit False ?c)"
  have "client_step toy_lib ?c ?d" by (rule client_step.leave)
  moreover have "client_step toy_lib ?d (request_shutdown True (announce_exit True ?d))" by (rule client_step.leave)
  ultimately have "client_steps toy_lib ?c (request_shutdown True (announce_exit True ?d))" by auto
  from exit_announced_once[OF this] show ?thesis by (intro exI[of _ conf]) simp
qed

text \<open>A key offer names its recipient.\<close>

definition offers_key_to :: "u32 \<Rightarrow> bytes \<Rightarrow> bool" where
  "offers_key_to i p \<longleftrightarrow> (\<exists>s body. build_key_offer s i body = Inr p)"

lemma key_offer_recipient: "build_key_offer s i body = Inr p \<Longrightarrow> read_u32_be (drop 5 p) = Inr i"
  by (auto simp: build_key_offer_def)

inductive_cases sealed_key_offerE: "sealed_send lib i ks offered KeyOffer p"

lemma sealed_key_offer_fresh:
  assumes "sealed_send lib j ks offered KeyOffer p" and "i \<in> offered"
  shows "\<not> offers_key_to i p"
proof -
  obtain peer where peer: "peer \<notin> offered" "build_key_offer j peer (bytes_string (identity_public ks)) = Inr p"
    using assms(1) by (rule sealed_key_offerE) auto
  then have "read_u32_be (drop 5 p) = Inr peer" by (intro key_offer_recipient)
  then show ?thesis using peer(1) assms(2) by (auto simp: offers_key_to_def dest!: key_offer_recipient)
qed

text \<open>A peer that was offered the public key is never offered it again, whatever happens in between.\<close>

theorem key_offered_once:
  assumes "client_steps lib c c'" and "i \<in> key_offered_to c"
  shows "i \<in> key_offered_to c' \<and>
    (\<exists>es. events c' = events c @ es \<and> (\<forall>p. ClientSend KeyOffer p \<in> set es \<longrightarrow> \<not> offers_key_to i p))"
  using assms
proof (induction rule: rtranclp_induct)
  case (step c1 c2)
  then obtain es where es: "events c1 = events c @ es" "\<forall>p. ClientSend KeyOffer p \<in> set es \<longrightarrow> \<not> offers_key_to i p"
    and i: "i \<in> key_offered_to c1" by auto
  obtain es' where es': "events c2 = events c1 @ es'"
    and s: "\<And>t p. ClientSend t p \<in> set es' \<Longrightarrow> sealed_send lib (me c1) (key_store c2) (key_offered_to c1) t p"
    using step(2) by (rule client_step_sends) blast
  have "\<forall>p. ClientSend KeyOffer p \<in> set (es @ es') \<longrightarrow> \<not> offers_key_to i p"
    using es(2) sealed_key_offer_fresh[OF s i] by auto
  then show ?case using es(1) es' i client_step_offered[OF step(2)] by (metis append_assoc subsetD)
qed simp

theorem key_offered_once_witness:
  "5 \<in> key_offered_to (snd (handle_input_command toy_lib (default_command\<lparr>cmd_type := CmdKeyOffer, recipient_id := 5\<rparr>) sample_client))"
proof -
  have "5 \<in> key_offered_to sample_client" by (simp add: sample_client_def)
  then show ?thesis
    using key_offered_once[OF r_into_rtranclp[of "client_step toy_lib",
        OF client_step.command[of toy_lib sample_client "default_command\<lparr>cmd_type := CmdKeyOffer, recipient_id := 5\<rparr>"]]]
    by blast
qed

text \<open>The table of offered keys is not cleared when a peer leaves, although the server gives its id to the
  next client: the newcomer is shown, but it is sent no key, and messages to its id are still encrypted
  with the key of the client that left.\<close>

theorem reused_id_not_offered:
  assumes "i \<in> key_offered_to c"
  shows "let c1 = snd (handle_incoming lib \<lparr>msg_type = UserLeft, payload = UserLeftPayload i n\<rparr> c);
             c2 = snd (handle_incoming lib \<lparr>msg_type = UserJoined, payload = UserJoinedPayload i n'\<rparr> c1)
         in events c2 = events c @ [ShowUserLeft i n, ShowUserJoined i n'] \<and> peer_public (key_store c2) i = peer_public (key_store c) i"
  using assms
  by (auto simp: handle_incoming_def present_message_def present_def note_event_def note_user_def send_key_offer_def Let_def)

theorem reused_id_not_offered_witness:
  "let c1 = snd (handle_incoming toy_lib \<lparr>msg_type = UserLeft, payload = UserLeftPayload 5 ''bob''\<rparr> sample_client);
       c2 = snd (handle_incoming toy_lib \<lparr>msg_type = UserJoined, payload = UserJoinedPayload 5 ''carol''\<rparr> c1)
   in events c2 = [ShowUserLeft 5 ''bob'', ShowUserJoined 5 ''carol''] \<and> peer_public (key_store c2) 5 = Some (replicate 32 2)"
proof -
  have "5 \<in> key_offered_to sample_client" "events sample_client = []" "peer_public (key_store sample_client) 5 = Some (replicate 32 2)"
    by (simp_all add: sample_client_def new_client_def sample_store_def peer_public_def)
  then show ?thesis using reused_id_not_offered[of 5 sample_client toy_lib "''bob''" "''carol''"] by (simp add: Let_def)
qed

text \<open>When a peer takes a new nickname, the client keeps the old one as another name of the same peer.\<close>

theorem old_nickname_kept:
  assumes "n \<noteq> ''''" and "n' \<noteq> n"
  shows "let c1 = snd (handle_incoming lib \<lparr>msg_type = UserJoined, payload = UserJoinedPayload i n\<rparr> c);
             c2 = snd (handle_incoming lib \<lparr>msg_type = UserJoined, payload = UserJoinedPayload i n'\<rparr> c1)
         in id_of_nickname c2 n = Some i \<and> nickname_of_id c2 i = Some n'"
proof -
  have k: "id_of_nickname (snd (send_key_offer j d)) = id_of_nickname d" "nickname_of_id (snd (send_key_offer j d)) = nickname_of_id d" for j d
    by (auto simp: send_key_offer_def Let_def case_prod_unfold send_message_def report_error_def report_info_def split: sum.split)
  show ?thesis
    using assms by (simp add: handle_incoming_def present_message_def present_def k note_user_def Let_def)
qed

theorem old_nickname_kept_witness:
  "id_of_nickname (snd (handle_incoming toy_lib \<lparr>msg_type = UserJoined, payload = UserJoinedPayload 7 ''rob''\<rparr>
     (snd (handle_incoming toy_lib \<lparr>msg_type = UserJoined, payload = UserJoinedPayload 7 ''bob''\<rparr> sample_client)))) ''bob'' = Some 7"
  using old_nickname_kept[of "''bob''" "''rob''" toy_lib 7 sample_client] by (simp add: Let_def)

lemma send_key_offer_ok: "length (identity_public (key_store c)) \<le> 65535 \<Longrightarrow> fst (send_key_offer i c) = Inr ()"
  by (auto simp: send_key_offer_def Let_def case_prod_unfold build_key_offer_def build_chat_like_def encode_chat_def encode_string_eq)

lemma present_fits: "payload_fits (msg_type m) (payload m) \<Longrightarrow> fst (present_message m c) = Inr ()"
  by (cases "payload m") (auto simp: present_message_def present_def split: MsgType.splits)



end
