(* ===== verification/ClientRuns.thy ===== *)
theory ClientRuns
  imports ClientSafety
begin

text \<open>
  Whole runs of the client: the two loops consist of steps of \<open>client_step\<close>, the receiving loop ends with
  the connection, start-up and shutdown keep the keys, and what one client seals another one shows.
\<close>

section \<open>The end of a connection\<close>

text \<open>The events of a socket after which nothing more is read.\<close>

definition broken :: "sock_event \<Rightarrow> bool" where
  "broken e \<longleftrightarrow> e \<in> {PollFailed, PollHangup, ReadFailed, Segment []}"

definition waiting :: "sock_event list \<Rightarrow> nat" where
  "waiting evs = sum_list (map (\<lambda>e. case e of Segment bs \<Rightarrow> length bs | _ \<Rightarrow> 0) evs)"

lemma read_exact_broken:
  assumes "\<exists>e \<in> set evs. broken e" and "length buffer \<le> sz"
  shows "\<exists>ok b es. read_exact evs sz buffer = Some (ok, b, es) \<and>
    (ok \<longrightarrow> (\<exists>e \<in> set es. broken e) \<and> waiting es + sz = waiting evs + length buffer)"
  using assms
proof (induction evs arbitrary: buffer)
  case (Cons e evs)
  show ?case
  proof (cases "length buffer < sz \<and> \<not> broken e")
    case False
    then show ?thesis using Cons.prems
      by (cases "length buffer < sz") (auto simp: broken_def)
  next
    case True
    then obtain bs where e: "e = Segment bs" "bs \<noteq> []" by (cases e) (auto simp: broken_def)
    have rest: "\<exists>e \<in> set evs. broken e" using Cons.prems(1) True by auto
    show ?thesis
    proof (cases "length bs \<le> sz - length buffer")
      case fits: True
      then have "length (buffer @ bs) \<le> sz" using True by auto
      then obtain ok b es where "read_exact evs sz (buffer @ bs) = Some (ok, b, es)"
        "ok \<longrightarrow> (\<exists>e \<in> set es. broken e) \<and> waiting es + sz = waiting evs + length (buffer @ bs)"
        using Cons.IH[OF rest] by blast
      then show ?thesis using True fits e by (auto simp: waiting_def)
    next
      case False
      then show ?thesis using True e rest by (auto simp: waiting_def)
    qed
  qed
qed simp

lemma read_frame_broken:
  assumes "\<exists>e \<in> set evs. broken e"
  shows "\<exists>r es. read_frame evs = Some (r, es) \<and> (r = Inr None \<or> (\<exists>e \<in> set es. broken e) \<and> waiting es < waiting evs)"
proof -
  obtain ok header es where h: "read_exact evs 6 [] = Some (ok, header, es)"
    "ok \<longrightarrow> (\<exists>e \<in> set es. broken e) \<and> waiting es + 6 = waiting evs"
    using read_exact_broken[OF assms, of "[]" 6] by auto
  show ?thesis
  proof (cases ok)
    case False
    then show ?thesis using h by (simp add: read_frame_def)
  next
    case True
    have "length header = 6" using read_exact_length[of evs 6 "[]" header es] h True by simp
    then obtain len where l: "modbus_read_u16_be (drop 4 header) = Inr len"
      using read_u16_be_total[of "drop 4 header"] by (auto simp: modbus_read_eq)
    obtain ok' rest es' where r: "read_exact es (unat len) [] = Some (ok', rest, es')"
      "ok' \<longrightarrow> (\<exists>e \<in> set es'. broken e) \<and> waiting es' + unat len = waiting es"
      using read_exact_broken[of es "[]" "unat len"] h True by auto
    show ?thesis using h True l r by (cases "len = 0"; cases ok') (auto simp: read_frame_def Let_def)
  qed
qed

lemma transport_receive_broken:
  assumes "\<exists>e \<in> set evs. broken e"
  shows "\<exists>r es. transport_receive evs = Some (r, es) \<and> (r = Inr None \<or> (\<exists>e \<in> set es. broken e) \<and> waiting es < waiting evs)"
proof -
  obtain r es where r: "read_frame evs = Some (r, es)" "r = Inr None \<or> (\<exists>e \<in> set es. broken e) \<and> waiting es < waiting evs"
    using read_frame_broken[OF assms] by blast
  then consider e where "r = Inl e" | "r = Inr None" | f where "r = Inr (Some f)" by (metis not_Some_eq obj_sumE)
  then show ?thesis using r by cases (auto simp: transport_receive_def)
qed

section \<open>The loops are made of steps\<close>

lemma client_step_inbox: "client_step lib c (c\<lparr>inbox := rest\<rparr>)"
  using client_step.network[where c = c and evs = rest and sends = "send_results c"] by simp

lemma client_steps_incoming: "client_steps lib c (snd (handle_incoming lib m (c\<lparr>inbox := rest\<rparr>)))"
  by (rule rtranclp_trans[OF r_into_rtranclp[of "client_step lib", OF client_step_inbox] r_into_rtranclp[of "client_step lib", OF client_step.incoming]])

lemma client_steps_then_error:
  assumes "client_steps lib c c'"
  shows "client_steps lib c (report_error ''Decode failed'' (what e) c')"
proof -
  have "client_step lib c' (report_error ''Decode failed'' (what e) c')" by (rule client_step.undecodable)
  with assms show ?thesis by (rule rtranclp.rtrancl_into_rtrancl)
qed

lemma receive_loop_steps: "receive_loop lib c = Some c' \<Longrightarrow> client_steps lib c c'"
proof (induction rule: receive_loop.raw_induct[rotated 1, consumes 1, case_names step])
  case (step rl lib c c')
  show ?case
  proof (cases "client_running c")
    case True
    then obtain r rest where t: "transport_receive (inbox c) = Some (r, rest)"
      using step(2) by (auto split: option.splits)
    have i: "client_steps lib c (c\<lparr>inbox := rest\<rparr>)" by (rule r_into_rtranclp) (rule client_step_inbox)
    consider e where "r = Inl e" | "r = Inr None" | m where "r = Inr (Some m)" by (metis not_Some_eq obj_sumE)
    then show ?thesis
    proof cases
      case (1 e)
      then have "rl lib (report_error ''Decode failed'' (what e) (c\<lparr>inbox := rest\<rparr>)) = Some c'"
        using step(2) True t by simp
      from step(1)[OF this] client_steps_then_error[OF i] show ?thesis by (rule rtranclp_trans[rotated])
    next
      case 2
      then have "c' = request_shutdown True (announce_exit True (c\<lparr>inbox := rest\<rparr>))" using step(2) True t by simp
      then have "client_step lib (c\<lparr>inbox := rest\<rparr>) c'" by (simp add: client_step.leave)
      with i show ?thesis by (rule rtranclp.rtrancl_into_rtrancl)
    next
      case (3 m)
      obtain q d where h: "handle_incoming lib m (c\<lparr>inbox := rest\<rparr>) = (q, d)" by (cases "handle_incoming lib m (c\<lparr>inbox := rest\<rparr>)")
      then have d: "client_steps lib c d" using client_steps_incoming[of lib c m rest] by simp
      show ?thesis
      proof (cases q)
        case (Inl e)
        then have "rl lib (report_error ''Decode failed'' (what e) d) = Some c'" using step(2) True t 3 h by simp
        from step(1)[OF this] client_steps_then_error[OF d] show ?thesis by (rule rtranclp_trans[rotated])
      next
        case (Inr u)
        then have "rl lib d = Some c'" using step(2) True t 3 h by simp
        from step(1)[OF this] d show ?thesis by (rule rtranclp_trans[rotated])
      qed
    qed
  qed (use step(2) in simp)
qed

lemma input_loop_steps: "client_steps lib c (snd (input_loop lib lines c))"
proof (induction lines arbitrary: c)
  case Nil
  show ?case by (subst input_loop.simps) (auto intro: client_step.prompt)
next
  case (Cons line lines)
  let ?c = "note_event ShowInputPrompt c"
  have p: "client_steps lib c ?c" by (rule r_into_rtranclp) (rule client_step.prompt)
  show ?case
  proof (cases "client_running c \<and> line \<noteq> ''''")
    case False
    then show ?thesis using rtranclp_trans[OF p Cons.IH] by (subst input_loop.simps) auto
  next
    case True
    show ?thesis
    proof (cases "parse_input_line line (me ?c)")
      case (Inl e)
      then show ?thesis using True p by (subst input_loop.simps) simp
    next
      case (Inr cmd)
      obtain r d where h: "handle_input_command lib cmd ?c = (r, d)" by (cases "handle_input_command lib cmd ?c")
      have "client_step lib ?c d" using client_step.command[of lib ?c cmd] h by simp
      with p have d: "client_steps lib c d" by (rule rtranclp.rtrancl_into_rtrancl)
      show ?thesis
        using True Inr h d rtranclp_trans[OF d Cons.IH]
        by (subst input_loop.simps) (cases r; cases "client_running d"; simp)
    qed
  qed
qed

section \<open>Keys at start-up\<close>

lemma generate_keypair_sizes:
  assumes "x25519_ok lib" and "generate_keypair lib E = (pair, E')"
  shows "length (secret_key pair) = 32 \<and> length (public_key pair) = 32"
proof -
  have "length (secret_key pair) = 32" "public_key pair = crypto_x25519_public_key lib (secret_key pair)"
    using assms(2) by (auto simp: generate_keypair_def fill_random_length split: prod.splits)
  then show ?thesis using assms(1) by (auto simp: x25519_ok_def)
qed

lemma deserialize_identity: "deserialize blob ks = (Inr (), ks') \<Longrightarrow> has_identity ks'"
  by (erule deserialize_cases) (auto simp: has_identity_def)

lemma load_inv:
  assumes "key_store_inv ks" and "load lib path password fs ks = (r, ks')"
  shows "key_store_inv ks' \<and> (r = Inr True \<longrightarrow> has_identity ks')"
proof (cases "\<exists>sealed plain. fs path = Some sealed \<and> sealed \<noteq> [] \<and> decrypt_keystore lib password sealed = Inr plain")
  case True
  then obtain sealed plain where p: "fs path = Some sealed" "sealed \<noteq> []" "decrypt_keystore lib password sealed = Inr plain" by blast
  obtain q ks1 where d: "deserialize plain ks = (q, ks1)" by (cases "deserialize plain ks")
  then have "ks' = ks1" "r = Inr True \<Longrightarrow> q = Inr ()" using assms(2) p by (auto simp: load_def split: sum.splits)
  then show ?thesis using deserialize_inv[OF assms(1) d] d by (auto dest: deserialize_identity)
next
  case False
  then show ?thesis using assms by (auto simp: load_def split: option.splits sum.splits if_splits)
qed

text \<open>The identity after start-up: the stored one, or a new one beside whatever the loading left behind.\<close>

lemma load_or_create_identity_cases:
  assumes "x25519_ok lib" and "load lib (keystore_path c) (keystore_password (cfg c)) (disk_files c) (key_store c) = (r, ks)"
  obtains c' where "load_or_create_identity lib c = (Inr (), c')" "core c' = core c" "key_offered_to c' = key_offered_to c"
    "room_key (key_store c') = room_key ks" "peers (key_store c') = peers ks"
    "r = Inr True \<Longrightarrow> key_store c' = ks"
    "r \<noteq> Inr True \<Longrightarrow> length (identity_secret (key_store c')) = 32 \<and>
       identity_public (key_store c') = crypto_x25519_public_key lib (identity_secret (key_store c'))"
    "r \<noteq> Inr True \<Longrightarrow> length (identity_public (key_store c')) = 32"
    "\<exists>es. events c' = events c @ es \<and> (\<forall>s n. ShowStatus s n \<notin> set es)"
proof -
  define d where "d = (case r of Inl e \<Rightarrow> report_error ''Keystore load failed, creating new keys'' (what e) (c\<lparr>key_store := ks\<rparr>)
    | Inr _ \<Rightarrow> c\<lparr>key_store := ks\<rparr>)"
  have d: "core d = core c" "key_offered_to d = key_offered_to c" "key_store d = ks" "entropy_left d = entropy_left c"
    "\<exists>es. events d = events c @ es \<and> (\<forall>s n. ShowStatus s n \<notin> set es)"
    by (simp_all add: d_def report_error_def split: sum.split)
  obtain pair E where g: "generate_keypair lib (entropy_left c) = (pair, E)" by (cases "generate_keypair lib (entropy_left c)")
  note len = generate_keypair_sizes[OF assms(1) g]
  have pk: "public_key pair = crypto_x25519_public_key lib (secret_key pair)"
    using g by (auto simp: generate_keypair_def split: prod.splits)
  show thesis
  proof (cases "r = Inr True")
    case True
    then show ?thesis
      using assms(2) by (intro that[of "report_info ''Keystore loaded'' (''path='' @ keystore_path c) (c\<lparr>key_store := ks\<rparr>)"])
        (simp_all add: load_or_create_identity_def Let_def report_info_def)
  next
    case False
    let ?ks = "ks\<lparr>identity_secret := secret_key pair, identity_public := public_key pair\<rparr>"
    let ?c = "report_info ''Generated new identity keypair'' (''keystore='' @ keystore_path c) (d\<lparr>entropy_left := E, key_store := ?ks\<rparr>)"
    have "load_or_create_identity lib c = (Inr (), ?c)"
      using assms(2) False g len d
      by (cases r) (auto simp: load_or_create_identity_def Let_def d_def set_identity_def)
    then show ?thesis using False d len pk by (intro that[of ?c]) (auto simp: report_info_def)
  qed
qed

lemma load_or_create_identity_inv:
  assumes "x25519_ok lib" and "key_store_inv (key_store c)"
  obtains c' where "load_or_create_identity lib c = (Inr (), c')" "core c' = core c" "key_offered_to c' = key_offered_to c"
    "key_store_inv (key_store c')" "has_identity (key_store c')"
    "\<exists>es. events c' = events c @ es \<and> (\<forall>s n. ShowStatus s n \<notin> set es)"
proof -
  obtain r ks where l: "load lib (keystore_path c) (keystore_password (cfg c)) (disk_files c) (key_store c) = (r, ks)"
    by (cases "load lib (keystore_path c) (keystore_password (cfg c)) (disk_files c) (key_store c)")
  note i = load_inv[OF assms(2) l]
  from assms(1) l show thesis
  proof (rule load_or_create_identity_cases)
    fix c'
    assume "load_or_create_identity lib c = (Inr (), c')" "core c' = core c" "key_offered_to c' = key_offered_to c"
      and rk: "room_key (key_store c') = room_key ks" "peers (key_store c') = peers ks"
      and old: "r = Inr True \<Longrightarrow> key_store c' = ks"
      and new: "r \<noteq> Inr True \<Longrightarrow> length (identity_secret (key_store c')) = 32 \<and>
        identity_public (key_store c') = crypto_x25519_public_key lib (identity_secret (key_store c'))"
        "r \<noteq> Inr True \<Longrightarrow> length (identity_public (key_store c')) = 32"
      and "\<exists>es. events c' = events c @ es \<and> (\<forall>s n. ShowStatus s n \<notin> set es)"
    moreover have "key_store_inv (key_store c') \<and> has_identity (key_store c')"
    proof (cases "r = Inr True")
      case False
      then show ?thesis using i rk new by (auto simp: key_store_inv_def has_identity_def)
    qed (use i old in auto)
    ultimately show thesis by (intro that[of c']) auto
  qed
qed

text \<open>The progress bar: the percentages shown so far.\<close>

definition statuses :: "client \<Rightarrow> int list" where
  "statuses c = List.map_filter (\<lambda>e. case e of ShowStatus s n \<Rightarrow> Some n | _ \<Rightarrow> None) (events c)"

lemma map_filter_append: "List.map_filter f (xs @ ys) = List.map_filter f xs @ List.map_filter f ys"
  by (simp add: List.map_filter_def)

lemma statuses_note: "statuses (note_event e c) = statuses c @ (case e of ShowStatus s n \<Rightarrow> [n] | _ \<Rightarrow> [])"
  by (simp add: statuses_def map_filter_append List.map_filter_def split: client_event.split)

lemma statuses_upd [simp]:
  "statuses (c\<lparr>inbox := x1\<rparr>) = statuses c" "statuses (c\<lparr>session := x2\<rparr>) = statuses c" "statuses (c\<lparr>live_fd := x3\<rparr>) = statuses c"
  "statuses (c\<lparr>entropy_left := x4\<rparr>) = statuses c" "statuses (c\<lparr>key_store := x5\<rparr>) = statuses c"
  "statuses (c\<lparr>send_results := x6\<rparr>) = statuses c"
  by (simp_all add: statuses_def)

lemma statuses_report [simp]: "statuses (report_error b s c) = statuses c" "statuses (report_info b s c) = statuses c"
  by (simp_all add: report_error_def report_info_def statuses_note)

lemma statuses_quiet: "events c' = events c @ es \<Longrightarrow> \<forall>s n. ShowStatus s n \<notin> set es \<Longrightarrow> statuses c' = statuses c"
proof -
  assume e: "events c' = events c @ es" and n: "\<forall>s n. ShowStatus s n \<notin> set es"
  have "List.map_filter (\<lambda>e. case e of ShowStatus s n \<Rightarrow> Some n | _ \<Rightarrow> None) es = []"
    using n by (auto simp: List.map_filter_def filter_empty_conv split: client_event.splits)
  then show ?thesis by (simp add: statuses_def e map_filter_append)
qed

lemma receive_assigned_id_ok:
  assumes "receive_assigned_id c = Some (Inr (), c')"
  obtains i create rest where
    "transport_receive (inbox c) = Some (Inr (Some \<lparr>msg_type = AssignId, payload = AssignIdPayload i create\<rparr>), rest)"
    "session c' = (session c)\<lparr>my_id := i\<rparr>" "statuses c' = statuses c @ [75, 85]" "key_offered_to c' = key_offered_to c"
    "create \<longrightarrow> has_room_key (key_store c')" "has_identity (key_store c') = has_identity (key_store c)"
    "key_store_inv (key_store c) \<longrightarrow> key_store_inv (key_store c')" "inbox c' = rest"
proof -
  let ?c = "note_event (ShowStatus ''Waiting for assigned id'' 75) c"
  obtain message rest where t: "transport_receive (inbox c) = Some (Inr (Some message), rest)"
    using assms by (auto simp: receive_assigned_id_def Let_def split: option.splits sum.splits)
  obtain i create where m: "message = \<lparr>msg_type = AssignId, payload = AssignIdPayload i create\<rparr>"
    using assms t by (cases message) (auto simp: receive_assigned_id_def Let_def split: if_splits AppPayload.splits)
  obtain rk E where g: "generate_room_key (entropy_left c) = (rk, E)" by (cases "generate_room_key (entropy_left c)")
  have rk: "set_room_key rk ks = Inr (ks\<lparr>room_key := Some rk\<rparr>)" "length rk = 32" for ks
    using g by (auto simp: generate_room_key_def set_room_key_def fill_random_length)
  show thesis
    using assms t m g rk
    by (intro that[of i create rest])
      (auto simp: receive_assigned_id_def Let_def has_room_key_def has_identity_def statuses_note key_store_inv_def split: if_splits)
qed

lemma register_nickname_ok:
  assumes "register_nickname c = (Inr (), c')"
  shows "session c' = session c" "key_store c' = key_store c" "key_offered_to c' = key_offered_to c"
    "statuses c' = statuses c @ (if has_nickname (session c) then [92] else [])"
  using assms
  by (auto simp: register_nickname_def Let_def case_prod_unfold send_message_def statuses_note split: if_splits sum.splits)

lemma statuses_init_logger: "statuses (init_logger b c) = statuses c" "key_store (init_logger b c) = key_store c"
  "key_offered_to (init_logger b c) = key_offered_to c" "core (init_logger b c) = core c"
  by (simp_all add: init_logger_def Let_def statuses_note)

section \<open>Properties\<close>

text \<open>C20: A start-up that succeeds leaves the client with an identity of well-formed keys, with the id that
  the server assigned, with the room key when it is the first client, and with nobody offered its key
  yet; the progress bar has moved forward from 45 to 100.\<close>

theorem startup_outcome:
  assumes "x25519_ok lib" and "client_startup lib log_opens conn (new_client conf sends evs E fs) = Some (Inr (), c)"
  shows "has_identity (key_store c) \<and> key_store_inv (key_store c) \<and> key_offered_to c = {} \<and>
    (\<exists>fd. conn = Inr fd \<and> socket_fd (session c) = fd) \<and>
    statuses c = [45, 60, 75, 85] @ (if nickname conf \<noteq> '''' then [92] else []) @ [100] \<and>
    (\<exists>create rest. transport_receive evs =
       Some (Inr (Some \<lparr>msg_type = AssignId, payload = AssignIdPayload (me c) create\<rparr>), rest) \<and>
       (create \<longrightarrow> has_room_key (key_store c)))"
proof -
  let ?c0 = "init_logger log_opens (new_client conf sends evs E fs)"
  have n: "key_store_inv (key_store ?c0)" "key_offered_to ?c0 = {}" "statuses ?c0 = []"
    "core ?c0 = core (new_client conf sends evs E fs)"
    by (simp_all add: statuses_init_logger) (simp_all add: new_client_def key_store_inv_empty statuses_def List.map_filter_def)
  obtain c1 where l: "load_or_create_identity lib ?c0 = (Inr (), c1)" "core c1 = core ?c0" "key_offered_to c1 = key_offered_to ?c0"
    "key_store_inv (key_store c1)" "has_identity (key_store c1)"
    "\<exists>es. events c1 = events ?c0 @ es \<and> (\<forall>s n. ShowStatus s n \<notin> set es)"
    using assms(1) n(1) by (rule load_or_create_identity_inv)
  have s1: "statuses c1 = []" "inbox c1 = evs" "session c1 = \<lparr>config = conf, socket_fd = -1, my_id = 0\<rparr>"
    using l(2,6) n by (auto dest: statuses_quiet simp: core_def new_client_def)
  obtain c2 where k: "connect_to_server conn c1 = (Inr (), c2)"
    using assms(2) l(1) by (auto simp: client_startup_def split: prod.splits sum.splits option.splits)
  then obtain fd where fd: "conn = Inr fd" "session c2 = (session c1)\<lparr>socket_fd := fd\<rparr>" "key_store c2 = key_store c1"
    "key_offered_to c2 = key_offered_to c1" "inbox c2 = inbox c1" "statuses c2 = [45, 60]"
    using s1 by (auto simp: connect_to_server_def Let_def statuses_note split: sum.splits)
  obtain c3 where a: "receive_assigned_id c2 = Some (Inr (), c3)"
    using assms(2) l(1) k by (auto simp: client_startup_def split: prod.splits sum.splits option.splits)
  obtain i create rest where a': "transport_receive evs = Some (Inr (Some \<lparr>msg_type = AssignId, payload = AssignIdPayload i create\<rparr>), rest)"
    "session c3 = (session c2)\<lparr>my_id := i\<rparr>" "statuses c3 = statuses c2 @ [75, 85]" "key_offered_to c3 = key_offered_to c2"
    "create \<longrightarrow> has_room_key (key_store c3)" "has_identity (key_store c3) = has_identity (key_store c2)"
    "key_store_inv (key_store c2) \<longrightarrow> key_store_inv (key_store c3)"
    using receive_assigned_id_ok[OF a] fd(5) s1(2) by metis
  obtain c4 where r: "register_nickname c3 = (Inr (), c4)"
    using assms(2) l(1) k a by (auto simp: client_startup_def split: prod.splits sum.splits option.splits)
  have c: "c = note_event ShowUsage (note_event ShowInputReady (note_event (ShowStatus ''Startup complete'' 100) c4))"
    using assms(2) l(1) k a r by (simp add: client_startup_def)
  note r' = register_nickname_ok[OF r]
  show ?thesis using l n s1 fd a' r' by (simp add: c statuses_note has_nickname_def)
qed

definition sample_config :: client_config where
  "sample_config = \<lparr>server_ip = ''127.0.0.1'', port = 5020, nickname = '''', cfg_keystore_path = '''',
     keystore_password = ''pw'', cfg_log_path = ''''\<rparr>"

text \<open>The first client of a server: id 1, and it is to create the room key.\<close>

definition first_message :: "sock_event list" where
  "first_message = [Segment (encode (make_frame AssignId (encode_assign_id 1 True) 0))]"

lemma receive_first_message:
  "\<exists>rest. transport_receive first_message =
     Some (Inr (Some \<lparr>msg_type = AssignId, payload = AssignIdPayload 1 True\<rparr>), rest)"
proof -
  let ?p = "encode_assign_id 1 True"
  have "decode_payload AssignId ?p = Inr (AssignIdPayload 1 True)"
    using decode_encode_payload[of AssignId "AssignIdPayload 1 True" ?p] by simp
  moreover have "length (pdu (make_frame AssignId ?p 0)) < 65535" by (simp add: make_frame_def encode_assign_id_def)
  moreover have "encode (make_frame AssignId ?p 0) \<noteq> []" by (simp add: encode_def)
  ultimately show ?thesis
    using read_frame_segments[of "[encode (make_frame AssignId ?p 0)]" "make_frame AssignId ?p 0" "[]" "[]"]
    by (auto simp: first_message_def transport_receive_def)
qed

lemma first_startup:
  assumes "nickname conf = ''''"
  shows "\<exists>c. client_startup toy_lib True (Inr 7) (new_client conf (\<lambda>_. True) first_message (toy_entropy 1) Map.empty) =
     Some (Inr (), c)"
proof -
  let ?c0 = "init_logger True (new_client conf (\<lambda>_. True) first_message (toy_entropy 1) Map.empty)"
  have n: "key_store_inv (key_store ?c0)" "session ?c0 = \<lparr>config = conf, socket_fd = -1, my_id = 0\<rparr>" "inbox ?c0 = first_message"
    by (simp_all add: init_logger_def new_client_def key_store_inv_empty Let_def)
  obtain c1 where l: "load_or_create_identity toy_lib ?c0 = (Inr (), c1)" "core c1 = core ?c0"
    using toy_lib_ok(1) n(1) by (rule load_or_create_identity_inv)
  then have s: "session c1 = \<lparr>config = conf, socket_fd = -1, my_id = 0\<rparr>" "inbox c1 = first_message"
    using n by (simp_all add: core_def)
  obtain c2 where k: "connect_to_server (Inr 7) c1 = (Inr (), c2)" "inbox c2 = first_message" "cfg c2 = conf"
    using s by (simp add: connect_to_server_def Let_def)
  obtain rest where t: "transport_receive first_message =
      Some (Inr (Some \<lparr>msg_type = AssignId, payload = AssignIdPayload 1 True\<rparr>), rest)" using receive_first_message by blast
  obtain rk E where g: "generate_room_key (entropy_left c2) = (rk, E)" by (cases "generate_room_key (entropy_left c2)")
  have rk: "set_room_key rk ks = Inr (ks\<lparr>room_key := Some rk\<rparr>)" for ks
    using g by (auto simp: generate_room_key_def set_room_key_def fill_random_length)
  have "\<exists>c3. receive_assigned_id c2 = Some (Inr (), c3) \<and> cfg c3 = conf"
    using k(2,3) t g rk by (cases "has_room_key (key_store c2)") (simp_all add: receive_assigned_id_def Let_def)
  then obtain c3 where a: "receive_assigned_id c2 = Some (Inr (), c3)" "cfg c3 = conf" by blast
  have "register_nickname c3 = (Inr (), c3)" using a(2) by (simp add: register_nickname_def has_nickname_def assms)
  then show ?thesis using l(1) k(1) a(1) by (simp add: client_startup_def)
qed

theorem startup_outcome_witness:
  "\<exists>c. client_startup toy_lib True (Inr 7) (new_client sample_config (\<lambda>_. True) first_message (toy_entropy 1) Map.empty) =
     Some (Inr (), c) \<and> has_identity (key_store c) \<and> statuses c = [45, 60, 75, 85, 100]"
proof -
  obtain c where "client_startup toy_lib True (Inr 7) (new_client sample_config (\<lambda>_. True) first_message (toy_entropy 1) Map.empty) =
      Some (Inr (), c)" using first_startup[of sample_config] by (auto simp: sample_config_def)
  from startup_outcome[OF toy_lib_ok(1) this] this show ?thesis by (simp add: sample_config_def)
qed

text \<open>C17: The receiving thread ends with the connection: once the socket fails, hangs up or reaches its
  end, \<^verbatim>\<open>receive_loop\<close> returns, whatever bytes came before, and it has told the user and stopped the
  client.\<close>

theorem receive_loop_ends:
  assumes "\<exists>e \<in> set (inbox c). broken e" and "client_running c"
  shows "\<exists>c'. receive_loop lib c = Some c' \<and> \<not> client_running c' \<and> exit_announced c'"
  using assms
proof (induction "waiting (inbox c)" arbitrary: c rule: less_induct)
  case less
  obtain r rest where t: "transport_receive (inbox c) = Some (r, rest)"
    "r = Inr None \<or> (\<exists>e \<in> set rest. broken e) \<and> waiting rest < waiting (inbox c)"
    using transport_receive_broken[OF less.prems(1)] by blast
  have next_round: "\<exists>c'. receive_loop lib d = Some c' \<and> \<not> client_running c' \<and> exit_announced c'"
    if "r \<noteq> Inr None" "inbox d = rest" "client_running d" for d
    using less.hyps[of d] that t(2) by simp
  consider e where "r = Inl e" | "r = Inr None" | m where "r = Inr (Some m)" by (metis not_Some_eq obj_sumE)
  then show ?case
  proof cases
    case (1 e)
    then show ?thesis using less.prems(2) t(1) next_round by (subst receive_loop.simps) simp
  next
    case 2
    then show ?thesis using less.prems(2) t(1) by (subst receive_loop.simps) simp
  next
    case (3 m)
    obtain q d where h: "handle_incoming lib m (c\<lparr>inbox := rest\<rparr>) = (q, d)" by (cases "handle_incoming lib m (c\<lparr>inbox := rest\<rparr>)")
    then have "inbox d = rest" "client_running d"
      using handle_incoming_tame[of lib "c\<lparr>inbox := rest\<rparr>" m] less.prems(2) by (auto simp: tame_def core_def)
    then show ?thesis using less.prems(2) t(1) 3 h next_round by (subst receive_loop.simps) (cases q; simp)
  qed
qed

theorem receive_loop_ends_witness:
  "\<exists>c'. receive_loop toy_lib (sample_client\<lparr>inbox := [Segment [1, 2, 3, 4, 0, 2], Segment [9, 9, 9], PollHangup]\<rparr>) = Some c' \<and>
     exit_announced c'"
  using receive_loop_ends[of "sample_client\<lparr>inbox := [Segment [1, 2, 3, 4, 0, 2], Segment [9, 9, 9], PollHangup]\<rparr>" toy_lib]
  by (auto simp: broken_def sample_client_def new_client_def)

text \<open>C13: Both threads are runs of the transition system: what the receiving loop returns and what the
  loop of the keyboard leaves behind is reached by steps.\<close>

theorem client_loops_refine:
  "(\<forall>c'. receive_loop lib c = Some c' \<longrightarrow> client_steps lib c c') \<and> client_steps lib c (snd (client_main_loop lib lines c))"
proof -
  obtain r d where i: "input_loop lib lines c = (r, d)" by (cases "input_loop lib lines c")
  then have d: "client_steps lib c d" using input_loop_steps[of lib c lines] by simp
  have "client_step lib d (request_shutdown False (announce_exit False d))" by (rule client_step.leave)
  with d have "client_steps lib c (request_shutdown False (announce_exit False d))" by (rule rtranclp.rtrancl_into_rtrancl)
  then show ?thesis using d i receive_loop_steps by (cases r) (simp_all add: client_main_loop_def)
qed

theorem client_loops_refine_witness:
  "client_steps toy_lib sample_client (snd (client_main_loop toy_lib [''/users'', ''/exit''] sample_client)) \<and>
   receive_loop toy_lib (sample_client\<lparr>client_running := False\<rparr>) = Some (sample_client\<lparr>client_running := False\<rparr>)"
proof -
  have "receive_loop toy_lib (sample_client\<lparr>client_running := False\<rparr>) = Some (sample_client\<lparr>client_running := False\<rparr>)"
    by (subst receive_loop.simps) simp
  then show ?thesis using client_loops_refine[of toy_lib sample_client "[''/users'', ''/exit'']"] by simp
qed

text \<open>C19: The keys survive a restart: what a client holds when it shuts down, on a disk that keeps what is
  written, is what the next client with the same settings starts with.\<close>

theorem keys_survive_restart:
  assumes "x25519_ok lib" and "aead_ok lib" and "blake2b_ok lib"
    and "key_store_inv (key_store c)" and "has_identity (key_store c)" and "length (peers (key_store c)) \<le> 65535"
    and "open_ok d" and "write_ok d" and "disk d = (\<lambda>bs. bs)"
    and "c1 = new_client (cfg c) sends evs E (disk_files (client_shutdown lib d c))"
  shows "\<exists>c2. load_or_create_identity lib c1 = (Inr (), c2) \<and>
    identity_secret (key_store c2) = identity_secret (key_store c) \<and> identity_public (key_store c2) = identity_public (key_store c) \<and>
    room_key (key_store c2) = room_key (key_store c) \<and> peer_public (key_store c2) = peer_public (key_store c)"
proof -
  let ?c = "request_shutdown False c"
  have same: "keystore_path ?c = keystore_path c" "entropy_left ?c = entropy_left c" "disk_files ?c = disk_files c"
    by (simp_all add: keystore_path_def request_shutdown_def Let_def)
  obtain E' fs' ks' where s: "save lib d (keystore_path c) (keystore_password (cfg c)) (key_store c) (entropy_left c) (disk_files c) =
      (Inr (), E', fs')"
    and l: "load lib (keystore_path c) (keystore_password (cfg c)) fs' (key_store c1) = (Inr True, ks')"
    and k: "identity_secret ks' = identity_secret (key_store c)" "identity_public ks' = identity_public (key_store c)"
      "room_key ks' = room_key (key_store c)" "peer_public ks' = peer_public (key_store c)"
    using save_load[OF assms(2-9), of "keystore_path c" "keystore_password (cfg c)" "entropy_left c" "disk_files c" "key_store c1"]
    by metis
  have "disk_files (client_shutdown lib d c) = fs'"
    using s assms(5) same by (simp add: client_shutdown_def save_keystore_def Let_def)
  moreover have "keystore_path c1 = keystore_path c" "cfg c1 = cfg c"
    using assms(10) by (simp_all add: new_client_def keystore_path_def)
  ultimately have "load lib (keystore_path c1) (keystore_password (cfg c1)) (disk_files c1) (key_store c1) = (Inr True, ks')"
    using l assms(10) by (simp add: new_client_def)
  then show ?thesis using k by (auto elim: load_or_create_identity_cases[OF assms(1)])
qed

theorem keys_survive_restart_witness:
  "\<exists>c2. load_or_create_identity toy_lib (new_client (cfg sample_client) (\<lambda>_. True) [] (toy_entropy 2)
       (disk_files (client_shutdown toy_lib \<lparr>open_ok = True, write_ok = True, disk = (\<lambda>bs. bs)\<rparr> sample_client))) = (Inr (), c2) \<and>
     room_key (key_store c2) = Some (replicate 32 1)"
proof -
  let ?d = "\<lparr>open_ok = True, write_ok = True, disk = (\<lambda>bs. bs)\<rparr>"
  have k: "key_store_inv (key_store sample_client)" "has_identity (key_store sample_client)"
    "length (peers (key_store sample_client)) \<le> 65535" "room_key (key_store sample_client) = Some (replicate 32 1)"
    by (simp_all add: sample_client_def sample_store_def key_store_inv_def has_identity_def)
  show ?thesis
    using keys_survive_restart[OF toy_lib_ok k(1-3) _ _ _ refl, where d = ?d and sends = "\<lambda>_. True" and evs = "[]" and E = "toy_entropy 2"] k(4)
    by auto
qed

text \<open>A key file that fails to load is not ignored: the client makes a new identity, but it keeps the room
  key and the peers that were read before the failure, and uses them.\<close>

theorem failed_load_keeps_keys:
  assumes "x25519_ok lib" and "load lib (keystore_path c) (keystore_password (cfg c)) (disk_files c) (key_store c) = (Inl e, ks)"
  shows "\<exists>c'. load_or_create_identity lib c = (Inr (), c') \<and> room_key (key_store c') = room_key ks \<and>
    peers (key_store c') = peers ks \<and> length (identity_secret (key_store c')) = 32"
  using assms by (auto elim!: load_or_create_identity_cases)

text \<open>A file that announces two peers and holds one.\<close>

definition damaged_blob :: bytes where
  "damaged_blob = 1 # replicate 64 8 @ [1] @ replicate 32 6 @ [0, 2] @ [0, 0, 0, 5] @ replicate 32 3"

theorem failed_load_keeps_keys_witness:
  "\<exists>sealed c'. load_or_create_identity toy_lib (new_client sample_config (\<lambda>_. True) [] (toy_entropy 1) [''client.keys'' \<mapsto> sealed]) = (Inr (), c') \<and>
     room_key (key_store c') = Some (replicate 32 6) \<and> peers (key_store c') = [(5, replicate 32 3)]"
proof -
  obtain sealed E where "encrypt_keystore toy_lib (toy_entropy 4) ''pw'' damaged_blob = (sealed, E)"
    by (cases "encrypt_keystore toy_lib (toy_entropy 4) ''pw'' damaged_blob")
  then have s: "decrypt_keystore toy_lib ''pw'' sealed = Inr damaged_blob" "sealed \<noteq> []"
    using key_file_channel.opens[where k = "(toy_lib, ''pw'')" and l = "(toy_lib, ''pw'')" and m = damaged_blob and E = "toy_entropy 4"]
      toy_lib_ok(2,3) by auto
  have len: "length damaged_blob = 136" and v: "damaged_blob ! 0 = 1" and f: "damaged_blob ! 65 = 1"
    and rk: "take 32 (drop 66 damaged_blob) = replicate 32 6" and cnt: "drop 98 damaged_blob = [0, 2, 0, 0, 0, 5] @ replicate 32 3"
    by (simp_all add: damaged_blob_def nth_append)
  have e: "drop 100 damaged_blob = [0, 0, 0, 5] @ replicate 32 3" "drop 104 damaged_blob = replicate 32 3"
    by (simp_all add: damaged_blob_def)
  have d1: "decode_peer damaged_blob 100 = Inr ((5, replicate 32 3), 136)"
    and d2: "decode_peer damaged_blob 136 = Inl (RuntimeError ''truncated peer entry in keystore'')"
    by (simp_all add: decode_peer_def len e)
  have "read_peers 2 damaged_blob 100 [] = (Inl (RuntimeError ''truncated peer entry in keystore''), [(5, replicate 32 3)])"
    unfolding numeral_2_eq_2 by (simp only: read_peers.simps d1 d2 sum.case prod.case) simp
  then have d: "deserialize damaged_blob empty_key_store = (Inl (RuntimeError ''truncated peer entry in keystore''),
      \<lparr>identity_secret = take 32 (drop 1 damaged_blob), identity_public = take 32 (drop 33 damaged_blob),
       room_key = Some (replicate 32 6), peers = [(5, replicate 32 3)]\<rparr>)"
    by (simp add: deserialize_def len v f rk cnt empty_key_store_def)
  let ?c = "new_client sample_config (\<lambda>_. True) [] (toy_entropy 1) [''client.keys'' \<mapsto> sealed]"
  have "\<exists>ks. load toy_lib (keystore_path ?c) (keystore_password (cfg ?c)) (disk_files ?c) (key_store ?c) =
      (Inl (RuntimeError ''truncated peer entry in keystore''), ks) \<and> room_key ks = Some (replicate 32 6) \<and> peers ks = [(5, replicate 32 3)]"
    by (simp add: load_def new_client_def sample_config_def keystore_path_def default_keystore_name_def s d)
  then show ?thesis using failed_load_keeps_keys[OF toy_lib_ok(1)] by metis
qed

text \<open>A typed message of more than 65495 bytes does not fit into a protocol string once it is encrypted. The
  exception is not caught where it arises: the command fails and the client ends.\<close>

theorem long_message_throws:
  assumes "x25519_ok lib" and "aead_ok lib" and "matching_keys lib (identity_secret (key_store c)) pk sk' pk'"
    and "peer_public (key_store c) i = Some pk" and "65495 < length txt"
    and "cmd_type cmd = CmdChatById" and "recipient_id cmd = i" and "cmd_text cmd = txt"
  shows "fst (handle_input_command lib cmd c) = Inl (RuntimeError ''String too long'')"
proof -
  obtain s E where "encrypt_for_peer lib (entropy_left c) (identity_secret (key_store c)) pk txt = (Inr s, E)" "length s = 40 + length txt"
    using peer_channel.opens[where k = "(lib, identity_secret (key_store c), pk)" and l = "(lib, sk', pk')" and m = "txt" and E = "entropy_left c"]
      assms(1-3) by auto
  then show ?thesis
    using assms(4-8)
    by (simp add: handle_input_command_def send_encrypted_chat_by_id_def build_chat_by_id_def build_chat_like_def encode_chat_def encode_string_eq)
qed

theorem long_message_throws_witness:
  "fst (handle_input_command toy_lib
     (default_command\<lparr>cmd_type := CmdChatById, recipient_id := 5, cmd_text := replicate 70000 (CHR ''x'')\<rparr>) sample_client) =
   Inl (RuntimeError ''String too long'')"
proof -
  have "matching_keys toy_lib (identity_secret (key_store sample_client)) (replicate 32 2) (replicate 32 2) (replicate 32 7)"
    "peer_public (key_store sample_client) 5 = Some (replicate 32 2)"
    by (simp_all add: matching_keys_def toy_lib_def sample_client_def sample_store_def peer_public_def)
  then show ?thesis by (intro long_message_throws[OF toy_lib_ok(1,2)]) simp_all
qed

end
