(* ===== verification/EndToEnd.thy ===== *)
theory EndToEnd
  imports ServerLoop ClientRuns
begin

text \<open>
  The way of a message from one client through the server to another one: the payload that the sending
  client builds, the frame in arbitrary segments on the server's socket, the relay, and the frame that
  the receiving client handles.
\<close>

section \<open>Through the server\<close>

text \<open>The socket \<open>fd\<close> belongs to the client \<open>i\<close>, which is not banned.\<close>

definition connected :: "server \<Rightarrow> int \<Rightarrow> u32 \<Rightarrow> bool" where
  "connected s fd i \<longleftrightarrow> (\<exists>c. find_by_fd (srv_registry s) fd = Some c \<and> cr_id c = i) \<and> i \<notin> srv_banned s"

text \<open>
  \<open>relays s fd t p fd' m\<close>: when the frame of type \<open>t\<close> with payload \<open>p\<close> arrives at \<open>fd\<close>, cut in any way, the server
  sends one frame, to \<open>fd'\<close>, which decodes to \<open>m\<close>. Beside that it writes one line to its console, and
  the clients and bans stay as they were.
\<close>

definition relays :: "server \<Rightarrow> int \<Rightarrow> MsgType \<Rightarrow> bytes \<Rightarrow> int \<Rightarrow> app_message \<Rightarrow> bool" where
  "relays s fd t p fd' m \<longleftrightarrow>
    (\<forall>cs. [] \<notin> set cs \<and> concat cs = encode (make_frame t p 0) \<longrightarrow>
      (\<exists>s' q i label kind. handle_client_data fd (s\<lparr>sockets := (sockets s)(fd := map Segment cs)\<rparr>) = Some (Inr (), s') \<and>
         srv_trace s' = srv_trace s @ [ShowChat i label kind, Send fd' (msg_type m) q] \<and>
         srv_registry s' = srv_registry s \<and> srv_banned s' = srv_banned s \<and>
         decode_app_message (make_frame (msg_type m) q 0) = Inr m))"

lemma relays_unicast:
  assumes inv: "registry_inv (srv_registry s)" and c: "connected s fd i" and d: "connected s fd' j"
    and k: "(req, del, lab) \<in> set relay_kinds" and b: "build_chat_like i' 1 (encode_u32_be j) txt = Inr p"
    and fits: "fits_frame p"
  shows "relays s fd req p fd' \<lparr>msg_type = del, payload = DeliverPayload i txt\<rparr>"
  unfolding relays_def
proof (intro allI impI)
  fix cs
  assume cs: "[] \<notin> set cs \<and> concat cs = encode (make_frame req p 0)"
  let ?chat = "\<lparr>chat_from_id = i', recipient_tag = 1, recipient_data = encode_u32_be j, chat_text = txt\<rparr>"
  let ?s = "s\<lparr>sockets := (sockets s)(fd := map Segment cs)\<rparr>"
  have t: "req \<in> {Chat, KeyOffer, RoomKeyOffer}" "del \<in> {Deliver, PeerKey, RoomKey}" using k by (auto simp: relay_kinds_def)
  have "decode_app_message (make_frame req p 0) = Inr \<lparr>msg_type = req, payload = ChatPayload ?chat\<rparr>"
    using b t(1) by (rule decode_built_chat) simp
  then obtain cs' where rcv: "transport_receive (map Segment cs) =
      Some (Inr (Some \<lparr>msg_type = req, payload = ChatPayload ?chat\<rparr>), map Segment cs')"
    using transport_receive_segments[of cs req p 0 "[]" "[]"] cs fits by auto
  obtain ca cb where r: "find_by_fd (srv_registry s) fd = Some ca" "cr_id ca = i" "i \<notin> srv_banned s"
    "find_by_fd (srv_registry s) fd' = Some cb" "cr_id cb = j" "j \<notin> srv_banned s"
    using c d by (auto simp: connected_def)
  have len: "length txt \<le> 65535" using b by simp
  let ?q = "encode_u32_be i @ string_field txt"
  have q: "encode_deliver i txt = Inr ?q" using len by (simp add: encode_deliver_def encode_u32_be_def)
  have dec: "decode_app_message (make_frame del ?q 0) = Inr \<lparr>msg_type = del, payload = DeliverPayload i txt\<rparr>"
    using decode_encode_payload[of del "DeliverPayload i txt" ?q] q t(2) by auto
  let ?s1 = "s\<lparr>sockets := (sockets s)(fd := map Segment cs')\<rparr>"
  obtain label where dsp: "dispatch create_message_dispatcher fd \<lparr>msg_type = req, payload = ChatPayload ?chat\<rparr> (srv_context s) =
      (Inr (), (srv_context s)\<lparr>trace := srv_trace s @ [ShowChat i label lab, Send fd' del ?q]\<rparr>)"
    using relay_unicast[OF inv k r(1) _ r(4), of ?chat ?q] r q by auto
  have "try_client_data fd ?s = Some (in_context (dispatch create_message_dispatcher fd \<lparr>msg_type = req, payload = ChatPayload ?chat\<rparr>) ?s1)"
    using r rcv by (simp add: try_client_data_def is_banned_def)
  then have "handle_client_data fd ?s =
      Some (Inr (), ?s1\<lparr>srv_context := (srv_context s)\<lparr>trace := srv_trace s @ [ShowChat i label lab, Send fd' del ?q]\<rparr>\<rparr>)"
    by (simp add: handle_client_data_def in_context_def dsp)
  then show "\<exists>s' q ia labela kind. handle_client_data fd ?s = Some (Inr (), s') \<and>
      srv_trace s' = srv_trace s @ [ShowChat ia labela kind, Send fd' (msg_type \<lparr>msg_type = del, payload = DeliverPayload i txt\<rparr>) q] \<and>
      srv_registry s' = srv_registry s \<and> srv_banned s' = srv_banned s \<and>
      decode_app_message (make_frame (msg_type \<lparr>msg_type = del, payload = DeliverPayload i txt\<rparr>) q 0) =
        Inr \<lparr>msg_type = del, payload = DeliverPayload i txt\<rparr>"
    using dec by auto
qed

section \<open>The clients\<close>

text \<open>Two clients that hold each other's public keys.\<close>

definition know_each_other :: "monocypher \<Rightarrow> client \<Rightarrow> client \<Rightarrow> bool" where
  "know_each_other lib a b \<longleftrightarrow>
    (\<exists>pk pk'. peer_public (key_store a) (me b) = Some pk \<and> peer_public (key_store b) (me a) = Some pk' \<and>
      matching_keys lib (identity_secret (key_store a)) pk (identity_secret (key_store b)) pk')"

lemma chat_sent:
  assumes "x25519_ok lib" and "aead_ok lib" and "know_each_other lib a b" and "length txt \<le> 65000" and "send_results a 0"
  obtains body p where "build_chat_like (me a) 1 (encode_u32_be (me b)) body = Inr p" "fits_frame p"
    "fst (send_encrypted_chat_by_id lib (me b) txt a) = Inr ()"
    "events (snd (send_encrypted_chat_by_id lib (me b) txt a)) = events a @ [ClientSend Chat p]"
    "fst (decrypt_deliver lib (me a) body b) = Some txt" "snd (decrypt_deliver lib (me a) body b) = b"
proof -
  obtain pk pk' where k: "peer_public (key_store a) (me b) = Some pk" "peer_public (key_store b) (me a) = Some pk'"
    "matching_keys lib (identity_secret (key_store a)) pk (identity_secret (key_store b)) pk'"
    using assms(3) by (auto simp: know_each_other_def)
  obtain s E where s: "encrypt_for_peer lib (entropy_left a) (identity_secret (key_store a)) pk txt = (Inr s, E)"
    "decrypt_from_peer lib (identity_secret (key_store b)) pk' s = Inr txt" "length s = 40 + length txt"
    using peer_channel.opens[where k = "(lib, identity_secret (key_store a), pk)" and l = "(lib, identity_secret (key_store b), pk')"
        and m = "txt" and E = "entropy_left a"] assms(1,2) k(3) by auto
  let ?p = "encode_u32_be (me a) @ 1 # encode_u32_be (me b) @ string_field (bytes_string s)"
  show thesis
  proof (rule that[of "bytes_string s" ?p])
    show p: "build_chat_like (me a) 1 (encode_u32_be (me b)) (bytes_string s) = Inr ?p" using s(3) assms(4) by simp
    show "fits_frame ?p" using s(3) assms(4) by (simp add: fits_frame_def)
    show "fst (send_encrypted_chat_by_id lib (me b) txt a) = Inr ()"
      "events (snd (send_encrypted_chat_by_id lib (me b) txt a)) = events a @ [ClientSend Chat ?p]"
      using k(1) s p assms(5) unfolding send_encrypted_chat_by_id_def build_chat_by_id_def
      by (simp_all add: send_message_def del: build_chat_like_Inr)
    show "fst (decrypt_deliver lib (me a) (bytes_string s) b) = Some txt" "snd (decrypt_deliver lib (me a) (bytes_string s) b) = b"
      using k(2) s(2) by (simp_all add: decrypt_deliver_def Let_def)
  qed
qed

text \<open>A client whose public key belongs to its secret key and whose sends succeed.\<close>

definition ready :: "monocypher \<Rightarrow> client \<Rightarrow> bool" where
  "ready lib c \<longleftrightarrow> length (identity_secret (key_store c)) = 32 \<and> (\<forall>n. send_results c n) \<and>
    identity_public (key_store c) = crypto_x25519_public_key lib (identity_secret (key_store c))"

lemma ready_public: "x25519_ok lib \<Longrightarrow> ready lib c \<Longrightarrow> length (identity_public (key_store c)) = 32"
  by (auto simp: ready_def x25519_ok_def)

lemma ready_report [simp]: "ready lib (report_info x y c) = ready lib c"
  by (simp add: ready_def report_info_def)

lemma key_offer_sent:
  assumes "x25519_ok lib" and "ready lib c" and "i \<notin> key_offered_to c" and "i \<noteq> 0" and "i \<noteq> me c"
  obtains p c' where "send_key_offer i c = (Inr (), c')" "ClientSend KeyOffer p \<in> set (events c')" "ready lib c'"
    "build_chat_like (me c) 1 (encode_u32_be i) (bytes_string (identity_public (key_store c))) = Inr p" "fits_frame p"
    "key_store c' = key_store c" "me c' = me c" "key_offered_to c' = insert i (key_offered_to c)"
proof -
  let ?body = "bytes_string (identity_public (key_store c))"
  let ?p = "encode_u32_be (me c) @ 1 # encode_u32_be i @ string_field ?body"
  have len: "length ?body = 32" using ready_public[OF assms(1,2)] by simp
  have b: "build_chat_like (me c) 1 (encode_u32_be i) ?body = Inr ?p" using len by simp
  show thesis
  proof (rule that[of "snd (send_key_offer i c)" ?p])
    show "build_chat_like (me c) 1 (encode_u32_be i) ?body = Inr ?p" by (rule b)
    show "fits_frame ?p" using len by (simp add: fits_frame_def)
  qed (use assms b in \<open>simp_all add: send_key_offer_def build_key_offer_def ready_def send_message_def report_info_def
        del: build_chat_like_Inr\<close>)
qed

lemma room_key_sent:
  assumes "x25519_ok lib" and "aead_ok lib" and "room_key (key_store c) = Some rk" and "length rk = 32"
    and "peer_public (key_store c) i = Some pk" and "matching_keys lib (identity_secret (key_store c)) pk sk' pk'"
  obtains p c' body where "maybe_send_room_key lib i c = (Inr (), c')" "ClientSend RoomKeyOffer p \<in> set (events c')"
    "build_chat_like (me c) 1 (encode_u32_be i) body = Inr p" "fits_frame p" "key_store c' = key_store c" "me c' = me c"
    "open_room_key lib sk' pk' (string_bytes body) = Inr rk"
proof -
  obtain s E where s: "seal_room_key lib (entropy_left c) (identity_secret (key_store c)) pk rk = (Inr s, E)"
    "open_room_key lib sk' pk' s = Inr rk" "length s = 72"
    using room_key_channel.opens[where k = "(lib, identity_secret (key_store c), pk)" and l = "(lib, sk', pk')"
        and m = rk and E = "entropy_left c"] assms(1,2,4,6) by auto
  let ?p = "encode_u32_be (me c) @ 1 # encode_u32_be i @ string_field (bytes_string s)"
  have b: "build_chat_like (me c) 1 (encode_u32_be i) (bytes_string s) = Inr ?p" using s(3) by simp
  have m: "core (snd (maybe_send_room_key lib i c)) = core c" "key_store (snd (maybe_send_room_key lib i c)) = key_store c"
    by (rule maybe_send_room_key_frame)+
  show thesis
  proof (rule that[of "snd (maybe_send_room_key lib i c)" ?p "bytes_string s"])
    show "build_chat_like (me c) 1 (encode_u32_be i) (bytes_string s) = Inr ?p" by (rule b)
    show "fits_frame ?p" using s(3) by (simp add: fits_frame_def)
    show "ClientSend RoomKeyOffer ?p \<in> set (events (snd (maybe_send_room_key lib i c)))"
      "maybe_send_room_key lib i c = (Inr (), snd (maybe_send_room_key lib i c))"
      using assms(3,5) s b
      by (simp_all add: maybe_send_room_key_def build_room_key_offer_def send_message_def report_info_def report_error_def Let_def
          del: build_chat_like_Inr)
  qed (use m s(2) in \<open>auto dest: core_eqD\<close>)
qed

text \<open>Receiving a public key.\<close>

lemma peer_key_received:
  assumes "length pk = 32"
  shows "\<exists>c1. key_store c1 = (key_store c)\<lparr>peers := AList.update i pk (peers (key_store c))\<rparr> \<and> session c1 = session c \<and>
    key_offered_to c1 = key_offered_to c \<and> (ready lib c1 \<longleftrightarrow> ready lib c) \<and>
    snd (handle_incoming lib \<lparr>msg_type = PeerKey, payload = DeliverPayload i (bytes_string pk)\<rparr> c) =
      (case answer_peer_key lib i c1 of
         (Inl e, d) \<Rightarrow> report_error ''Invalid PeerKey'' (''from_id='' @ id_text i @ '' err='' @ what e) d
       | (Inr _, d) \<Rightarrow> d)"
proof -
  let ?ks = "(key_store c)\<lparr>peers := AList.update i pk (peers (key_store c))\<rparr>"
  let ?c1 = "report_info ''Received pubkey'' (''from_id='' @ id_text i) (c\<lparr>key_store := ?ks\<rparr>)"
  have "set_peer_public i (string_bytes (bytes_string pk)) (key_store c) = Inr ?ks" using assms by (simp add: set_peer_public_def)
  then have "snd (handle_incoming lib \<lparr>msg_type = PeerKey, payload = DeliverPayload i (bytes_string pk)\<rparr> c) =
      (case answer_peer_key lib i ?c1 of
         (Inl e, d) \<Rightarrow> report_error ''Invalid PeerKey'' (''from_id='' @ id_text i @ '' err='' @ what e) d
       | (Inr _, d) \<Rightarrow> d)"
    unfolding handle_incoming_PeerKey by (simp split: prod.split sum.split)
  then show ?thesis by (intro exI[of _ ?c1]) (simp add: ready_def report_info_def)
qed

lemma peer_public_update: "peer_public (ks\<lparr>peers := AList.update i pk (peers ks)\<rparr>) = (peer_public ks)(i \<mapsto> pk)"
  by (simp add: peer_public_def update_conv' fun_eq_iff)

lemma know_each_otherI:
  assumes "ready lib a" and "ready lib b" and "peer_public (key_store a) (me b) = Some (identity_public (key_store b))"
    and "peer_public (key_store b) (me a) = Some (identity_public (key_store a))"
  shows "know_each_other lib a b"
  using assms by (auto simp: know_each_other_def ready_def matching_keys_def)

section \<open>The hops of the key exchange\<close>

lemma hop_offer:
  assumes "x25519_ok lib" and "ready lib a" and "i \<notin> key_offered_to a" and "i \<noteq> 0" and "i \<noteq> me a"
  obtains p a' where "a' = snd (handle_incoming lib \<lparr>msg_type = UserJoined, payload = UserJoinedPayload i n\<rparr> a)"
    "ClientSend KeyOffer p \<in> set (events a')"
    "build_chat_like (me a) 1 (encode_u32_be i) (bytes_string (identity_public (key_store a))) = Inr p" "fits_frame p"
    "key_store a' = key_store a" "me a' = me a" "ready lib a'" "i \<in> key_offered_to a'"
proof -
  let ?a = "note_event (ShowUserJoined i n) (note_user i n a)"
  have a: "me ?a = me a" "key_store ?a = key_store a" "i \<notin> key_offered_to ?a" "ready lib ?a"
    using assms(2,3) by (simp_all add: ready_def note_user_def Let_def)
  have "i \<noteq> me ?a" using a(1) assms(5) by simp
  from assms(1) a(4,3) assms(4) this show thesis
  proof (rule key_offer_sent)
    fix p c'
    assume o: "send_key_offer i ?a = (Inr (), c')" "ClientSend KeyOffer p \<in> set (events c')" "ready lib c'"
      "build_chat_like (me ?a) 1 (encode_u32_be i) (bytes_string (identity_public (key_store ?a))) = Inr p" "fits_frame p"
      "key_store c' = key_store ?a" "me c' = me ?a" "key_offered_to c' = insert i (key_offered_to ?a)"
    have "c' = snd (handle_incoming lib \<lparr>msg_type = UserJoined, payload = UserJoinedPayload i n\<rparr> a)"
      using o(1) assms(5) by (simp add: handle_incoming_def present_message_def present_def)
    then show thesis using o a by (intro that[of c' p]) (simp_all del: build_chat_like_Inr)
  qed
qed

lemma hop_answer:
  assumes "x25519_ok lib" and "ready lib b" and "i \<notin> key_offered_to b" and "i \<noteq> 0" and "i \<noteq> me b"
    and "room_key (key_store b) = None" and "length pk = 32"
  obtains p b' where "b' = snd (handle_incoming lib \<lparr>msg_type = PeerKey, payload = DeliverPayload i (bytes_string pk)\<rparr> b)"
    "ClientSend KeyOffer p \<in> set (events b')"
    "build_chat_like (me b) 1 (encode_u32_be i) (bytes_string (identity_public (key_store b))) = Inr p" "fits_frame p"
    "me b' = me b" "ready lib b'" "key_store b' = (key_store b)\<lparr>peers := AList.update i pk (peers (key_store b))\<rparr>"
proof -
  obtain c where c: "key_store c = (key_store b)\<lparr>peers := AList.update i pk (peers (key_store b))\<rparr>" "session c = session b"
    "key_offered_to c = key_offered_to b" "ready lib c \<longleftrightarrow> ready lib b"
    "snd (handle_incoming lib \<lparr>msg_type = PeerKey, payload = DeliverPayload i (bytes_string pk)\<rparr> b) =
      (case answer_peer_key lib i c of
         (Inl e, d) \<Rightarrow> report_error ''Invalid PeerKey'' (''from_id='' @ id_text i @ '' err='' @ what e) d
       | (Inr _, d) \<Rightarrow> d)"
    using peer_key_received[OF assms(7), where c = b and i = i and lib = lib] by blast
  have "ready lib c" "i \<notin> key_offered_to c" "i \<noteq> me c" using c assms(2,3,5) by simp_all
  from assms(1) this(1,2) assms(4) this(3) show thesis
  proof (rule key_offer_sent)
    fix p c'
    assume o: "send_key_offer i c = (Inr (), c')" "ClientSend KeyOffer p \<in> set (events c')" "ready lib c'"
      "build_chat_like (me c) 1 (encode_u32_be i) (bytes_string (identity_public (key_store c))) = Inr p" "fits_frame p"
      "key_store c' = key_store c" "me c' = me c" "key_offered_to c' = insert i (key_offered_to c)"
    have "maybe_send_room_key lib i c' = (Inr (), c')" using o(6) c(1) assms(6) by (simp add: maybe_send_room_key_def)
    then have "answer_peer_key lib i c = (Inr (), c')" using o(1) by (simp add: answer_peer_key_def)
    then show thesis using o c by (intro that[of c' p]) (simp_all del: build_chat_like_Inr)
  qed
qed

lemma hop_room:
  assumes "x25519_ok lib" and "aead_ok lib" and "room_key (key_store a) = Some rk" and "length rk = 32"
    and "i \<in> key_offered_to a" and "length pk = 32"
    and "matching_keys lib (identity_secret (key_store a)) pk sk' pk'"
  obtains p a' body where "a' = snd (handle_incoming lib \<lparr>msg_type = PeerKey, payload = DeliverPayload i (bytes_string pk)\<rparr> a)"
    "ClientSend RoomKeyOffer p \<in> set (events a')" "build_chat_like (me a) 1 (encode_u32_be i) body = Inr p" "fits_frame p"
    "me a' = me a" "key_store a' = (key_store a)\<lparr>peers := AList.update i pk (peers (key_store a))\<rparr>"
    "open_room_key lib sk' pk' (string_bytes body) = Inr rk"
proof -
  obtain c where c: "key_store c = (key_store a)\<lparr>peers := AList.update i pk (peers (key_store a))\<rparr>" "session c = session a"
    "key_offered_to c = key_offered_to a"
    "snd (handle_incoming lib \<lparr>msg_type = PeerKey, payload = DeliverPayload i (bytes_string pk)\<rparr> a) =
      (case answer_peer_key lib i c of
         (Inl e, d) \<Rightarrow> report_error ''Invalid PeerKey'' (''from_id='' @ id_text i @ '' err='' @ what e) d
       | (Inr _, d) \<Rightarrow> d)"
    using peer_key_received[OF assms(6), where c = a and i = i and lib = lib] by blast
  have k: "room_key (key_store c) = Some rk" "peer_public (key_store c) i = Some pk"
    "matching_keys lib (identity_secret (key_store c)) pk sk' pk'"
    using c(1) assms(3,7) by (simp_all add: peer_public_update)
  have s: "send_key_offer i c = (Inr (), c)" using c(3) assms(5) by (simp add: send_key_offer_def)
  from assms(1,2) k(1) assms(4) k(2,3) show thesis
  proof (rule room_key_sent)
    fix p c' body
    assume o: "maybe_send_room_key lib i c = (Inr (), c')" "ClientSend RoomKeyOffer p \<in> set (events c')"
      "build_chat_like (me c) 1 (encode_u32_be i) body = Inr p" "fits_frame p" "key_store c' = key_store c" "me c' = me c"
      "open_room_key lib sk' pk' (string_bytes body) = Inr rk"
    have "answer_peer_key lib i c = (Inr (), c')" using s o(1) by (simp add: answer_peer_key_def)
    then show thesis using o c by (intro that[of c' p body]) (simp_all del: build_chat_like_Inr)
  qed
qed

lemma hop_store:
  assumes "peer_public (key_store b) i = Some pk" and "open_room_key lib (identity_secret (key_store b)) pk (string_bytes body) = Inr rk"
    and "length rk = 32"
  shows "key_store (snd (handle_incoming lib \<lparr>msg_type = RoomKey, payload = DeliverPayload i body\<rparr> b)) = (key_store b)\<lparr>room_key := Some rk\<rparr>"
    "me (snd (handle_incoming lib \<lparr>msg_type = RoomKey, payload = DeliverPayload i body\<rparr> b)) = me b"
  using assms by (simp_all add: handle_incoming_def set_room_key_def)

end
