(* ===== verification/Room.thy ===== *)
theory Room
  imports ServerLoop
begin

text \<open>
  The contract of the server: a chat room. A room has members, who have an id and a nickname, and a set of
  barred ids; members join, leave and take nicknames, and ids are barred. Sockets, descriptors, tables, the
  reuse of ids and the traffic do not appear. \<open>room_of\<close> abstracts a state of the server to a room, and every
  step of the server is a step of the room, so that what holds of all rooms holds of the server.
\<close>

section \<open>The specification\<close>

record room =
  members :: "u32 \<rightharpoonup> string"
  barred :: "u32 set"

definition empty_room :: room where
  "empty_room = \<lparr>members = Map.empty, barred = {}\<rparr>"

inductive room_step :: "room \<Rightarrow> room \<Rightarrow> bool" where
  join: "i \<notin> dom (members r) \<Longrightarrow> i \<notin> barred r \<Longrightarrow> i \<noteq> 0 \<Longrightarrow> room_step r (r\<lparr>members := (members r)(i \<mapsto> '''')\<rparr>)"
| leave: "room_step r (r\<lparr>members := members r |` stay\<rparr>)"
| rename: "i \<in> dom (members r) \<Longrightarrow> n \<noteq> '''' \<Longrightarrow> n \<noteq> ''all'' \<Longrightarrow> \<forall>j. j \<noteq> i \<longrightarrow> members r j \<noteq> Some n \<Longrightarrow>
    room_step r (r\<lparr>members := (members r)(i \<mapsto> n)\<rparr>)"
| bar: "0 \<notin> ids \<Longrightarrow> room_step r (r\<lparr>barred := barred r \<union> ids\<rparr>)"

inductive_cases room_stepE: "room_step r r'"

abbreviation room_steps :: "room \<Rightarrow> room \<Rightarrow> bool" where
  "room_steps \<equiv> room_step\<^sup>*\<^sup>*"

lemma room_stutter: "room_step r r"
  using bar[of "{}" r] by simp

text \<open>What holds in every room.\<close>

definition room_inv :: "room \<Rightarrow> bool" where
  "room_inv r \<longleftrightarrow> 0 \<notin> dom (members r) \<and> 0 \<notin> barred r \<and> ''all'' \<notin> ran (members r) \<and>
    (\<forall>i j n. members r i = Some n \<and> members r j = Some n \<and> n \<noteq> '''' \<longrightarrow> i = j)"

lemma room_inv_empty: "room_inv empty_room"
  by (simp add: room_inv_def empty_room_def)

lemma room_step_inv: "room_step r r' \<Longrightarrow> room_inv r \<Longrightarrow> room_inv r'"
  by (induction rule: room_step.induct) (auto simp: room_inv_def ran_def restrict_map_def split: if_splits)

lemma room_steps_inv: "room_steps r r' \<Longrightarrow> room_inv r \<Longrightarrow> room_inv r'"
  by (induction rule: rtranclp_induct) (auto dest: room_step_inv)

lemma room_step_barred:
  "room_step r r' \<Longrightarrow> i \<in> barred r \<Longrightarrow> i \<in> barred r' \<and> (i \<in> dom (members r') \<longrightarrow> i \<in> dom (members r))"
  by (induction rule: room_step.induct) (auto simp: restrict_map_def split: if_splits)

lemma room_steps_barred:
  "room_steps r r' \<Longrightarrow> i \<in> barred r \<Longrightarrow> i \<in> barred r' \<and> (i \<in> dom (members r') \<longrightarrow> i \<in> dom (members r))"
  by (induction rule: rtranclp_induct) (auto dest: room_step_barred)

section \<open>The abstraction\<close>

definition members_of :: "registry \<Rightarrow> u32 \<rightharpoonup> string" where
  "members_of r i = Option.bind (fd_by_id r i) (\<lambda>fd. map_option cr_nickname (find_by_fd r fd))"

definition room_of :: "server \<Rightarrow> room" where
  "room_of s = \<lparr>members = members_of (srv_registry s), barred = srv_banned s\<rparr>"

lemma members_of_iff:
  "registry_inv r \<Longrightarrow> members_of r i = Some n \<longleftrightarrow> (\<exists>fd c. find_by_fd r fd = Some c \<and> cr_id c = i \<and> cr_nickname c = n)"
  by (fastforce simp: members_of_def bind_eq_Some_conv fd_by_id_iff dest: registry_id_inj)

lemma members_of_add:
  assumes "registry_inv r" and "find_by_fd r fd = None"
  shows "members_of (snd (registry_add r fd i)) = (members_of r)(i \<mapsto> '''')"
proof
  fix j
  show "members_of (snd (registry_add r fd i)) j = ((members_of r)(i \<mapsto> '''')) j"
    using assms fd_by_id_iff[OF assms(1), of j fd] by (auto simp: members_of_def split: Option.bind_split)
qed

lemma members_of_remove:
  assumes "registry_inv r"
  shows "\<exists>stay. members_of (snd (registry_remove r fd)) = members_of r |` stay"
proof -
  let ?stay = "{i. fd_by_id r i \<noteq> Some fd}"
  have "members_of (snd (registry_remove r fd)) i = (members_of r |` ?stay) i" for i
    using fd_by_id_iff[OF assms, of i fd] assms
    by (cases "find_by_fd r fd") (auto simp: members_of_def restrict_map_def fd_by_id_remove registry_inv_def split: Option.bind_split)
  then show ?thesis by blast
qed

lemma members_of_rename:
  assumes "registry_inv r" and "find_by_fd r fd = Some c"
  shows "members_of (set_nickname r fd n) = (members_of r)(cr_id c \<mapsto> n)"
proof
  fix j
  show "members_of (set_nickname r fd n) j = ((members_of r)(cr_id c \<mapsto> n)) j"
    using assms fd_by_id_iff[OF assms(1), of j fd] by (auto simp: members_of_def split: Option.bind_split)
qed

section \<open>Every step of the server is a step of the room\<close>

lemma room_of_cong: "srv_registry s' = srv_registry s \<Longrightarrow> srv_banned s' = srv_banned s \<Longrightarrow> room_of s' = room_of s"
  by (simp add: room_of_def)

lemma room_remove:
  assumes "registry_inv (srv_registry s)" and "srv_registry s' = snd (registry_remove (srv_registry s) fd)" and "srv_banned s' = srv_banned s"
  shows "room_step (room_of s) (room_of s')"
proof -
  obtain stay where "members_of (srv_registry s') = members_of (srv_registry s) |` stay"
    using members_of_remove[OF assms(1)] assms(2) by auto
  then have "room_of s' = (room_of s)\<lparr>members := members (room_of s) |` stay\<rparr>" using assms(3) by (simp add: room_of_def)
  then show ?thesis using room_step.leave[of "room_of s" stay] by simp
qed

lemma room_accept:
  assumes "server_inv s" and "ids_left s" and "find_by_fd (srv_registry s) fd = None" and "accept_client fd err s = Some (r, s')"
  shows "room_step (room_of s) (room_of s')"
proof (cases "fd < 0")
  case True
  then have "room_of s' = room_of s" using assms(4) by (auto simp: accept_client_def intro!: room_of_cong)
  then show ?thesis by (simp add: room_stutter)
next
  case False
  obtain i F n where i: "allocate_client_id s = Some (i, s\<lparr>free_ids := F, next_id := n\<rparr>)" "i \<notin> srv_banned s" "0 < i" "\<not> id_in_use s i"
    using allocate_fresh[OF assms(1,2)] by metis
  note inv = server_invD(1)[OF assms(1)]
  have s': "srv_registry s' = snd (registry_add (srv_registry s) fd i)" "srv_banned s' = srv_banned s"
    using accept_client_eq[of fd s i "s\<lparr>free_ids := F, next_id := n\<rparr>" err] False assms(4) i(1) by auto
  have "i \<notin> dom (members_of (srv_registry s))"
    using i(4) by (fastforce simp: members_of_iff[OF inv] id_in_use_def)
  then have "room_step (room_of s) ((room_of s)\<lparr>members := (members (room_of s))(i \<mapsto> '''')\<rparr>)"
    using i(2,3) by (intro room_step.join) (auto simp: room_of_def)
  then show ?thesis by (simp add: room_of_def s' members_of_add[OF inv assms(3)])
qed

lemma room_register:
  assumes "registry_inv (srv_registry s)"
  shows "room_step (room_of s) (room_of (s\<lparr>srv_context := snd (register_handle fd m (srv_context s))\<rparr>))"
proof (cases "\<exists>n c. payload m = RegisterPayload n \<and> find_by_fd (srv_registry s) fd = Some c")
  case True
  then obtain n c where n: "payload m = RegisterPayload n" and c: "find_by_fd (srv_registry s) fd = Some c" by blast
  from n c show ?thesis
  proof (cases rule: register_handle_cases)
    case (refused e)
    then show ?thesis by (simp add: room_of_def room_stutter)
  next
    case accepted
    let ?s = "s\<lparr>srv_context := snd (register_handle fd m (srv_context s))\<rparr>"
    have "srv_registry ?s = set_nickname (srv_registry s) fd n" "srv_banned ?s = srv_banned s"
      by (simp_all add: accepted(3))
    then have "room_of ?s = (room_of s)\<lparr>members := (members (room_of s))(cr_id c \<mapsto> n)\<rparr>"
      by (simp add: room_of_def members_of_rename[OF assms c])
    moreover have "cr_id c \<in> dom (members (room_of s))"
      using c by (auto simp: room_of_def members_of_iff[OF assms] dom_def)
    moreover have "\<forall>j. j \<noteq> cr_id c \<longrightarrow> members (room_of s) j \<noteq> Some n"
    proof (intro allI impI notI)
      fix j assume "j \<noteq> cr_id c" "members (room_of s) j = Some n"
      then obtain f d where "find_by_fd (srv_registry s) f = Some d" "cr_id d \<noteq> cr_id c" "cr_nickname d = n"
        by (auto simp: room_of_def members_of_iff[OF assms])
      moreover from this have "f \<noteq> fd" using c by auto
      ultimately show False
        using accepted(1,2) nickname_taken_by_other_find[OF assms c, of n] by blast
    qed
    ultimately show ?thesis using room_step.rename[of "cr_id c" "room_of s" n] accepted(1) by simp
  qed
next
  case False
  then show ?thesis using register_handle_none[of m "srv_context s" fd] by (simp add: room_of_def room_stutter)
qed

lemma room_dispatch:
  assumes "registry_inv (srv_registry s)"
  shows "room_step (room_of s) (room_of (snd (in_context (dispatch hs fd m) s)))"
proof (cases rule: dispatch_cases[of hs m fd])
  case (handled h)
  show ?thesis
  proof (cases h)
    case RegisterMessageHandler
    then show ?thesis using handled(3) room_register[OF assms, of fd m] by (simp add: in_context_upd)
  qed (use handled(3) in \<open>auto simp: in_context_upd room_of_def chat_is_opaque list_users_handle_def intro: room_stutter\<close>)
next
  case unsupported
  then show ?thesis by (simp add: in_context_upd room_of_def room_stutter)
qed

lemma room_try:
  assumes "registry_inv (srv_registry s)" and "try_client_data fd s = Some p"
  shows "room_step (room_of s) (room_of (snd p))"
proof -
  have rm: "room_step (room_of s) (room_of (snd (remove_client fd t)))" if "srv_context t = srv_context s" for t
    using that by (intro room_remove[OF assms(1)]) (simp_all add: remove_client_simps)
  have dp: "room_step (room_of s) (room_of (snd (in_context (dispatch hs fd m) t)))" if "srv_context t = srv_context s" for hs m t
    using room_dispatch[of t hs fd m] assms(1) that by (simp add: room_of_def)
  have sock: "room_of (s\<lparr>sockets := f\<rparr>) = room_of s" for f by (simp add: room_of_def)
  show ?thesis
    using assms(2)
    by (auto simp: try_client_data_def Let_def sock intro!: room_stutter rm dp split: if_splits option.splits sum.splits)
qed

lemma room_data:
  assumes "registry_inv (srv_registry s)" and "handle_client_data fd s = Some p"
  shows "room_step (room_of s) (room_of (snd p))"
  using assms(2)
proof (cases rule: handle_client_data_cases)
  case (caught e s1)
  have "room_of (snd p) = room_of s1" unfolding caught(3) by (rule room_of_cong) (simp_all add: in_context_upd)
  then show ?thesis using room_try[OF assms(1) caught(1)] by simp
qed (use room_try[OF assms(1)] in fastforce)+

lemma room_admin:
  assumes "server_inv s" and "process_admin_queue s = (r, s')"
  shows "room_step (room_of s) (room_of s')"
proof -
  have reg: "srv_registry s' = srv_registry s"
    using process_admin_lines_keep[where Q = "\<lambda>t. srv_registry t = srv_registry s" and s = "s\<lparr>admin_queue := []\<rparr>" and lines = "admin_queue s"]
      assms(2) by (simp add: process_admin_queue_def ban_ids_frame)
  have "srv_banned s \<subseteq> srv_banned s'" "0 \<notin> srv_banned s'"
    using server_step_bans[OF server_step.admin[OF assms(2)]] server_invD(3)[OF server_step_inv[OF server_step.admin[OF assms(2)] assms(1)]]
    by simp_all
  then have "room_of s' = (room_of s)\<lparr>barred := barred (room_of s) \<union> srv_banned s'\<rparr>" by (auto simp: room_of_def reg)
  then show ?thesis using room_step.bar[of "srv_banned s'" "room_of s"] \<open>0 \<notin> srv_banned s'\<close> by simp
qed

lemma server_step_room: "server_step s s' \<Longrightarrow> server_inv s \<Longrightarrow> room_step (room_of s) (room_of s')"
proof (induction rule: server_step.induct)
  case (other_thread s q)
  have "room_of (apply_request q s) = room_of s"
    by (rule room_of_cong; cases q) (simp_all add: request_stop_eq submit_admin_line_def)
  then show ?case by (simp add: room_stutter)
next
  case (network s f) show ?case by (simp add: room_of_def room_stutter)
next
  case (view s e) show ?case by (simp add: room_of_def room_stutter)
next
  case (admin s r s') then show ?case by (intro room_admin)
next
  case (hangup fd s r s')
  then show ?case using room_remove[of s s' fd] server_invD(1) remove_client_simps(1,2)[of fd s] by simp
next
  case (accept s fd err r s') then show ?case by (intro room_accept)
next
  case (data fd s r s') then show ?case using room_data[of s fd "(r, s')"] server_invD(1) by simp
next
  case (shut_down s)
  have "srv_banned (foldl disconnect_client t fds) = srv_banned t" for fds t
    by (induction fds arbitrary: t) (simp_all add: disconnect_client_simps)
  then have b: "srv_banned (disconnect_all_clients s) = srv_banned s" by (simp add: disconnect_all_clients_def)
  have "members_of (srv_registry (disconnect_all_clients s)) = Map.empty"
    using disconnect_all_empty[OF shut_down] by (auto simp: members_of_def fun_eq_iff split: Option.bind_split)
  then have "room_of (disconnect_all_clients s) = (room_of s)\<lparr>members := members (room_of s) |` {}\<rparr>" by (simp add: room_of_def b)
  then show ?case using room_step.leave[of "room_of s" "{}"] by simp
qed

section \<open>Properties\<close>

lemma room_of_init: "room_of (init_server lfd) = empty_room"
  by (simp add: room_of_def empty_room_def init_server_def members_of_def fun_eq_iff fd_by_id_def empty_registry_def)

lemma server_steps_room: "server_steps s s' \<Longrightarrow> server_inv s \<Longrightarrow> room_steps (room_of s) (room_of s')"
proof (induction rule: rtranclp_induct)
  case (step t u)
  then show ?case using server_step_room[of t u] server_steps_inv[of s t] by (auto intro: rtranclp.rtrancl_into_rtrancl)
qed simp

lemma one_client_member: "members (room_of one_client_server) 1 = Some ''''"
  using members_of_iff[OF server_invD(1)[OF one_client_inv], of 1 "''''"] one_client_find by (fastforce simp: room_of_def)





end
