(* ===== verification/Sockets.thy ===== *)
theory Sockets
  imports Config
begin

text \<open>
  The sockets of the server (\<^verbatim>\<open>server/transport/TcpListenSocket.cpp\<close>) and of the client
  (\<^verbatim>\<open>client/transport/TcpClientConnector.cpp\<close>). What the system calls answer is an argument, and the set of
  open descriptors of the process is the state, so that the lemmas say which paths leave a descriptor
  behind. \<^verbatim>\<open>inet_pton\<close> is the predicate \<open>address_ok\<close>.
\<close>

section \<open>The listening socket\<close>

record listen_answers =
  listen_socket_fd :: int
  reuse_ok :: bool
  address_ok :: "string \<Rightarrow> bool"
  bind_error :: "string option"
  listen_ok :: bool
  bound_port :: "u16 option"

record listen_socket =
  ls_config :: server_config
  ls_fd :: int

definition new_listen_socket :: "server_config \<Rightarrow> listen_socket" where
  "new_listen_socket conf = \<lparr>ls_config = conf, ls_fd = -1\<rparr>"

definition listen_open :: "listen_answers \<Rightarrow> listen_socket \<Rightarrow> int set \<Rightarrow> unit res \<times> listen_socket \<times> int set" where
  "listen_open a s fds =
    (let fd = listen_socket_fd a;
         s = s\<lparr>ls_fd := fd\<rparr>
     in if fd < 0 then (Inl (RuntimeError ''Failed to create listen socket''), s, fds)
        else
          let fds = insert fd fds in
          if \<not> reuse_ok a then (Inl (RuntimeError ''setsockopt failed''), s, fds)
          else if \<not> address_ok a (bind_ip (ls_config s)) then
            (Inl (RuntimeError (''Invalid bind_ip: '' @ bind_ip (ls_config s))), s, fds)
          else case bind_error a of
              Some err \<Rightarrow> (Inl (RuntimeError (''bind failed: '' @ err)), s, fds)
            | None \<Rightarrow>
                if \<not> listen_ok a then (Inl (RuntimeError ''listen failed''), s, fds)
                else case bound_port a of
                    Some p \<Rightarrow> (Inr (), s\<lparr>ls_config := (ls_config s)\<lparr>server_port := p\<rparr>\<rparr>, fds)
                  | None \<Rightarrow> (Inr (), s, fds))"

definition listen_close :: "listen_socket \<Rightarrow> int set \<Rightarrow> listen_socket \<times> int set" where
  "listen_close s fds = (if 0 \<le> ls_fd s then (s\<lparr>ls_fd := -1\<rparr>, fds - {ls_fd s}) else (s, fds))"

definition listen_is_open :: "listen_socket \<Rightarrow> bool" where
  "listen_is_open s \<longleftrightarrow> 0 \<le> ls_fd s"

definition listen_port :: "listen_socket \<Rightarrow> u16" where
  "listen_port s = server_port (ls_config s)"

section \<open>The client's connector\<close>

record connect_answers =
  connect_socket_fd :: int
  server_address_ok :: "string \<Rightarrow> bool"
  connect_error :: "string option"

definition tcp_connect :: "connect_answers \<Rightarrow> client_config \<Rightarrow> int set \<Rightarrow> int res \<times> int set" where
  "tcp_connect a conf fds =
    (let fd = connect_socket_fd a in
     if fd < 0 then (Inl (RuntimeError ''Failed to create socket''), fds)
     else
       let fds = insert fd fds in
       if \<not> server_address_ok a (server_ip conf) then
         (Inl (RuntimeError (''Invalid server_ip: '' @ server_ip conf)), fds - {fd})
       else case connect_error a of
           Some err \<Rightarrow> (Inl (RuntimeError (''connect failed: '' @ err)), fds - {fd})
         | None \<Rightarrow> (Inr fd, fds))"

section \<open>Properties\<close>

text \<open>Connecting leaves no descriptor behind: it either succeeds, and then exactly the new descriptor is
  open in addition, or it throws, and then the open descriptors are those from before.\<close>

theorem tcp_connect_no_leak:
  assumes "connect_socket_fd a \<notin> fds"
  shows "case tcp_connect a conf fds of
      (Inl e, fds') \<Rightarrow> fds' = fds \<and>
        (connect_socket_fd a < 0 \<or> \<not> server_address_ok a (server_ip conf) \<or> connect_error a \<noteq> None)
    | (Inr fd, fds') \<Rightarrow> fd = connect_socket_fd a \<and> 0 \<le> fd \<and> fds' = insert fd fds \<and>
        server_address_ok a (server_ip conf) \<and> connect_error a = None"
  using assms by (auto simp: tcp_connect_def Let_def split: option.splits)

text \<open>A listening socket that was opened, with success or not, and then closed leaves no descriptor
  behind. When \<^verbatim>\<open>open\<close> succeeds the socket is open and its port is the one the kernel chose; when it fails
  after the descriptor was made, \<^verbatim>\<open>is_open\<close> still says that the socket is open.\<close>

theorem listen_open_outcome:
  assumes "listen_socket_fd a \<notin> fds" and "listen_open a (new_listen_socket conf) fds = (r, s, fds')"
  shows "snd (listen_close s fds') = fds \<and> \<not> listen_is_open (fst (listen_close s fds')) \<and>
    (listen_is_open s \<longleftrightarrow> 0 \<le> listen_socket_fd a) \<and>
    (r = Inr () \<longrightarrow> listen_is_open s \<and> fds' = insert (ls_fd s) fds \<and>
      listen_port s = (case bound_port a of Some p \<Rightarrow> p | None \<Rightarrow> server_port conf))"
  using assms
  by (auto simp: listen_open_def listen_close_def listen_is_open_def listen_port_def new_listen_socket_def Let_def
      split: if_splits option.splits)

end
