(* ===== verification/Executor.thy ===== *)
theory Executor
  imports Prelude
begin

text \<open>
  The queue of commands (\<^verbatim>\<open>common/concurrency/QueuedCommandExecutor.hpp\<close>): any thread posts commands, one
  dispatcher thread executes them against the target. The template parameter and the virtual
  \<^verbatim>\<open>ICommand::execute\<close> are the argument \<open>execute\<close>.

  Each of the program's critical sections, and each execution of a command outside the lock, is one
  action, and a schedule is a list of actions. The locale \<open>work_queue\<close> is the contract of such a queue; the
  log file's queue meets it, too.
\<close>

section \<open>Queues with one worker\<close>

text \<open>What the threads do with a queue: a client posts an item or asks the worker to stop; the worker
  takes an item, or leaves its loop, and works on the item it took.\<close>

datatype 'c action = Post 'c | RequestStop | Take | Work

primrec run_schedule :: "('c action \<Rightarrow> 's \<Rightarrow> 's option) \<Rightarrow> 'c action list \<Rightarrow> 's \<Rightarrow> 's option" where
  "run_schedule act [] s = Some s"
| "run_schedule act (a # as) s = Option.bind (act a s) (run_schedule act as)"

lemma run_schedule_append: "run_schedule act (as @ bs) s = Option.bind (run_schedule act as s) (run_schedule act bs)"
  by (induction as arbitrary: s) (auto split: Option.bind_split)

text \<open>The items that are posted before the first request to stop.\<close>

fun before_stop :: "'c action list \<Rightarrow> 'c list" where
  "before_stop [] = []"
| "before_stop (Post c # as) = c # before_stop as"
| "before_stop (RequestStop # as) = []"
| "before_stop (_ # as) = before_stop as"

definition item_list :: "'c option \<Rightarrow> 'c list" where
  "item_list x = (case x of None \<Rightarrow> [] | Some c \<Rightarrow> [c])"

lemma item_list_simps [simp]: "item_list None = []" "item_list (Some c) = [c]"
  by (simp_all add: item_list_def)

locale work_queue =
  fixes act :: "'c action \<Rightarrow> 's \<Rightarrow> 's option"
    and pending :: "'s \<Rightarrow> 'c list"
    and open_for_work :: "'s \<Rightarrow> bool"
    and result :: "'s \<Rightarrow> 'r"
    and work :: "'c \<Rightarrow> 'r \<Rightarrow> 'r"
    and inv :: "'s \<Rightarrow> bool"
    and finished :: "'s \<Rightarrow> bool"
  assumes keeps_inv: "inv s \<Longrightarrow> act a s = Some s' \<Longrightarrow> inv s'"
    and posted: "inv s \<Longrightarrow> \<exists>s'. act (Post c) s = Some s' \<and> result s' = result s \<and>
      open_for_work s' = open_for_work s \<and> pending s' = pending s @ (if open_for_work s then [c] else [])"
    and stopped: "inv s \<Longrightarrow> \<exists>s'. act RequestStop s = Some s' \<and> result s' = result s \<and>
      \<not> open_for_work s' \<and> pending s' = pending s"
    and taken: "inv s \<Longrightarrow> act Take s = Some s' \<Longrightarrow> result s' = result s \<and>
      open_for_work s' = open_for_work s \<and> pending s' = pending s"
    and worked: "inv s \<Longrightarrow> act Work s = Some s' \<Longrightarrow> \<exists>c. pending s = c # pending s' \<and>
      result s' = work c (result s) \<and> open_for_work s' = open_for_work s"
    and finished_idle: "inv s \<Longrightarrow> finished s \<Longrightarrow> pending s = [] \<and> \<not> open_for_work s"
    and not_stuck: "inv s \<Longrightarrow> \<not> open_for_work s \<Longrightarrow> \<not> finished s \<Longrightarrow>
      \<exists>a s'. (a = Take \<or> a = Work) \<and> act a s = Some s' \<and>
        (a = Take \<longrightarrow> finished s' \<or> (\<exists>s''. act Work s' = Some s''))"
begin

lemma run_keeps_inv: "inv s \<Longrightarrow> run_schedule act as s = Some s' \<Longrightarrow> inv s'"
  by (induction as arbitrary: s) (auto simp: bind_eq_Some_conv dest: keeps_inv)

text \<open>The items are worked on in the order in which they were posted, each once, whatever the schedule.\<close>

lemma serialises:
  assumes "inv s" and "run_schedule act as s = Some s'"
  shows "\<exists>ran. pending s @ (if open_for_work s then before_stop as else []) = ran @ pending s' \<and>
    result s' = fold work ran (result s)"
  using assms
proof (induction as arbitrary: s)
  case Nil
  then show ?case by simp
next
  case (Cons a as)
  then obtain s1 where a: "act a s = Some s1" and run: "run_schedule act as s1 = Some s'"
    by (auto simp: bind_eq_Some_conv)
  note step = keeps_inv[OF Cons.prems(1) a]
  obtain ran where ran: "pending s1 @ (if open_for_work s1 then before_stop as else []) = ran @ pending s'"
    "result s' = fold work ran (result s1)"
    using Cons.IH[OF step run] by blast
  show ?case
  proof (cases a)
    case (Post c)
    then show ?thesis using posted[OF Cons.prems(1), of c] a ran by (intro exI[of _ ran]) auto
  next
    case RequestStop
    then show ?thesis using stopped[OF Cons.prems(1)] a ran by (intro exI[of _ ran]) auto
  next
    case Take
    then show ?thesis using taken[OF Cons.prems(1)] a ran by (intro exI[of _ ran]) auto
  next
    case Work
    then obtain c where "pending s = c # pending s1" "result s1 = work c (result s)" "open_for_work s1 = open_for_work s"
      using worked[OF Cons.prems(1)] a by blast
    then show ?thesis using ran Work by (intro exI[of _ "c # ran"]) auto
  qed
qed

text \<open>When the worker has left, everything that was posted before the request to stop is done.\<close>

lemma finished_drained:
  assumes "inv s" and "run_schedule act as s = Some s'" and "finished s'"
  shows "result s' = fold work (pending s @ (if open_for_work s then before_stop as else [])) (result s)"
proof -
  obtain ran where "pending s @ (if open_for_work s then before_stop as else []) = ran @ pending s'"
    "result s' = fold work ran (result s)"
    using serialises[OF assms(1,2)] by blast
  then show ?thesis using finished_idle[OF run_keeps_inv[OF assms(1,2)] assms(3)] by simp
qed

text \<open>After a request to stop the worker can always reach the end of its loop.\<close>

lemma can_finish:
  assumes "inv s" and "\<not> open_for_work s"
  shows "\<exists>as s'. set as \<subseteq> {Take, Work} \<and> run_schedule act as s = Some s' \<and> finished s'"
  using assms
proof (induction "length (pending s)" arbitrary: s rule: less_induct)
  case less
  have work_then: ?case if w: "act Work t = Some t'" and t: "run_schedule act as0 s = Some t" "set as0 \<subseteq> {Take, Work}"
      "inv t" "\<not> open_for_work t" "pending t = pending s" for t t' as0
  proof -
    have "length (pending t') < length (pending s)" "\<not> open_for_work t'" "inv t'"
      using worked[OF \<open>inv t\<close> w] keeps_inv[OF \<open>inv t\<close> w] t(4,5) by auto
    then obtain as s' where "set as \<subseteq> {Take, Work}" "run_schedule act as t' = Some s'" "finished s'"
      using less.hyps by blast
    then show ?thesis
      using t(1,2) w by (intro exI[of _ "as0 @ Work # as"] exI[of _ s']) (auto simp: run_schedule_append)
  qed
  show ?case
  proof (cases "finished s")
    case True
    then show ?thesis by (intro exI[of _ "[]"]) simp
  next
    case False
    then obtain a s1 where a: "a = Take \<or> a = Work" "act a s = Some s1"
      "a = Take \<longrightarrow> finished s1 \<or> (\<exists>s2. act Work s1 = Some s2)"
      using not_stuck[OF less.prems] by blast
    show ?thesis
    proof (cases "a = Take")
      case True
      note tk = taken[OF less.prems(1) a(2)[unfolded True]] keeps_inv[OF less.prems(1) a(2)]
      show ?thesis
      proof (cases "finished s1")
        case True
        then show ?thesis using a \<open>a = Take\<close> by (intro exI[of _ "[Take]"] exI[of _ s1]) simp
      next
        case False
        then obtain s2 where "act Work s1 = Some s2" using a \<open>a = Take\<close> by blast
        then show ?thesis by (rule work_then[of _ _ "[Take]"]) (use a \<open>a = Take\<close> tk less.prems in auto)
      qed
    next
      case False
      then show ?thesis using a by (intro work_then[of s s1 "[]"]) (use less.prems in auto)
    qed
  qed
qed

end

section \<open>The executor\<close>

text \<open>\<open>in_hand\<close> is the local \<^verbatim>\<open>command\<close> of the dispatcher between the lock and its execution;
  \<open>dispatcher_returned\<close> is what \<^verbatim>\<open>join\<close> waits for.\<close>

record ('c, 't) executor =
  command_queue :: "'c list"
  executor_running :: bool
  in_hand :: "'c option"
  dispatcher_returned :: bool
  target :: 't

definition new_executor :: "'t \<Rightarrow> ('c, 't) executor" where
  "new_executor t = \<lparr>command_queue = [], executor_running = True, in_hand = None, dispatcher_returned = False, target = t\<rparr>"

text \<open>A null pointer is \<open>None\<close>.\<close>

definition post :: "'c option \<Rightarrow> ('c, 't) executor \<Rightarrow> ('c, 't) executor" where
  "post command e =
    (case command of
       None \<Rightarrow> e
     | Some c \<Rightarrow> if \<not> executor_running e then e else e\<lparr>command_queue := command_queue e @ [c]\<rparr>)"

text \<open>The critical section of \<^verbatim>\<open>dispatcher_loop\<close>; \<open>None\<close> while the condition variable waits, while a command
  is being executed and when the loop was left.\<close>

definition take_command :: "('c, 't) executor \<Rightarrow> ('c, 't) executor option" where
  "take_command e =
    (if dispatcher_returned e \<or> in_hand e \<noteq> None then None
     else case command_queue e of
         [] \<Rightarrow> if executor_running e then None else Some (e\<lparr>dispatcher_returned := True\<rparr>)
       | c # cs \<Rightarrow> Some (e\<lparr>command_queue := cs, in_hand := Some c\<rparr>))"

definition execute_command :: "('c \<Rightarrow> 't \<Rightarrow> 't) \<Rightarrow> ('c, 't) executor \<Rightarrow> ('c, 't) executor option" where
  "execute_command execute e =
    (case in_hand e of
       None \<Rightarrow> None
     | Some c \<Rightarrow> Some (e\<lparr>in_hand := None, target := execute c (target e)\<rparr>))"

text \<open>\<^verbatim>\<open>dispatcher_loop\<close> with no other thread in between; \<open>None\<close> when it waits for ever.\<close>

partial_function (option) dispatcher_loop :: "('c \<Rightarrow> 't \<Rightarrow> 't) \<Rightarrow> ('c, 't) executor \<Rightarrow> ('c, 't) executor option" where
  "dispatcher_loop execute e =
    (if dispatcher_returned e then Some e
     else case in_hand e of
         Some _ \<Rightarrow> Option.bind (execute_command execute e) (dispatcher_loop execute)
       | None \<Rightarrow> Option.bind (take_command e) (dispatcher_loop execute))"

text \<open>\<^verbatim>\<open>stop\<close>: the flag, and the join.\<close>

definition stop :: "('c \<Rightarrow> 't \<Rightarrow> 't) \<Rightarrow> ('c, 't) executor \<Rightarrow> ('c, 't) executor option" where
  "stop execute e = dispatcher_loop execute (e\<lparr>executor_running := False\<rparr>)"

fun executor_act :: "('c \<Rightarrow> 't \<Rightarrow> 't) \<Rightarrow> 'c action \<Rightarrow> ('c, 't) executor \<Rightarrow> ('c, 't) executor option" where
  "executor_act execute (Post c) e = Some (post (Some c) e)"
| "executor_act execute RequestStop e = Some (e\<lparr>executor_running := False\<rparr>)"
| "executor_act execute Take e = take_command e"
| "executor_act execute Work e = execute_command execute e"

abbreviation waiting_commands :: "('c, 't) executor \<Rightarrow> 'c list" where
  "waiting_commands e \<equiv> item_list (in_hand e) @ command_queue e"

definition executor_inv :: "('c, 't) executor \<Rightarrow> bool" where
  "executor_inv e \<longleftrightarrow> (dispatcher_returned e \<longrightarrow> in_hand e = None \<and> command_queue e = [] \<and> \<not> executor_running e)"

lemma executor_inv_new [simp]: "executor_inv (new_executor t)"
  by (simp add: executor_inv_def new_executor_def)

lemma take_command_inv: "executor_inv e \<Longrightarrow> take_command e = Some e' \<Longrightarrow>
    executor_inv e' \<and> target e' = target e \<and> executor_running e' = executor_running e \<and> waiting_commands e' = waiting_commands e"
  by (auto simp: take_command_def executor_inv_def split: list.splits if_splits)

lemma execute_command_inv: "executor_inv e \<Longrightarrow> execute_command execute e = Some e' \<Longrightarrow>
    executor_inv e' \<and> executor_running e' = executor_running e \<and>
    (\<exists>c. waiting_commands e = c # waiting_commands e' \<and> target e' = execute c (target e))"
  by (auto simp: execute_command_def executor_inv_def split: option.splits)

lemma executor_not_stuck:
  assumes "\<not> executor_running e" and "\<not> dispatcher_returned e"
  shows "\<exists>a s'. (a = Take \<or> a = Work) \<and> executor_act execute a e = Some s' \<and>
      (a = Take \<longrightarrow> dispatcher_returned s' \<or> (\<exists>s''. executor_act execute Work s' = Some s''))"
proof (cases "in_hand e")
  case None
  then show ?thesis
    using assms by (intro exI[of _ Take]) (auto simp: take_command_def execute_command_def split: list.splits)
next
  case (Some c)
  then show ?thesis by (intro exI[of _ Work]) (simp add: execute_command_def)
qed

lemma executor_act_inv:
  assumes "executor_inv e" and "executor_act execute a e = Some e'"
  shows "executor_inv e'"
proof (cases a)
  case Take
  then show ?thesis using take_command_inv[OF assms(1)] assms(2) by simp
next
  case Work
  then show ?thesis using execute_command_inv[OF assms(1)] assms(2) by simp
qed (use assms in \<open>auto simp: executor_inv_def post_def split: if_splits\<close>)

interpretation ex: work_queue "executor_act execute" waiting_commands executor_running target execute executor_inv dispatcher_returned
  for execute :: "'c \<Rightarrow> 't \<Rightarrow> 't"
proof
  fix e e' :: "('c, 't) executor" and a :: "'c action" and c :: 'c
  assume inv: "executor_inv e"
  show "executor_act execute a e = Some e' \<Longrightarrow> executor_inv e'"
    using inv by (rule executor_act_inv)
  show "\<exists>s'. executor_act execute (Post c) e = Some s' \<and> target s' = target e \<and> executor_running s' = executor_running e \<and>
      waiting_commands s' = waiting_commands e @ (if executor_running e then [c] else [])"
    by (simp add: post_def)
  show "\<exists>s'. executor_act execute RequestStop e = Some s' \<and> target s' = target e \<and> \<not> executor_running s' \<and>
      waiting_commands s' = waiting_commands e"
    by simp
  show "executor_act execute Take e = Some e' \<Longrightarrow>
      target e' = target e \<and> executor_running e' = executor_running e \<and> waiting_commands e' = waiting_commands e"
    using take_command_inv[OF inv] by auto
  show "executor_act execute Work e = Some e' \<Longrightarrow> \<exists>c. waiting_commands e = c # waiting_commands e' \<and>
      target e' = execute c (target e) \<and> executor_running e' = executor_running e"
    using execute_command_inv[OF inv] by auto
  show "dispatcher_returned e \<Longrightarrow> waiting_commands e = [] \<and> \<not> executor_running e"
    using inv by (auto simp: executor_inv_def)
  show "\<exists>a s'. (a = Take \<or> a = Work) \<and> executor_act execute a e = Some s' \<and>
      (a = Take \<longrightarrow> dispatcher_returned s' \<or> (\<exists>s''. executor_act execute Work s' = Some s''))"
    if "\<not> executor_running e" and "\<not> dispatcher_returned e"
    using executor_not_stuck[OF that] .
qed

section \<open>What the executor promises\<close>

text \<open>The dispatcher on its own follows any schedule of its actions to the end.\<close>

lemma dispatcher_loop_run:
  assumes "executor_inv e" and "run_schedule (executor_act execute) as e = Some e'" and "set as \<subseteq> {Take, Work}"
    and "dispatcher_returned e'"
  shows "dispatcher_loop execute e = Some e'"
  using assms
proof (induction as arbitrary: e)
  case Nil
  then show ?case by (subst dispatcher_loop.simps) simp
next
  case (Cons a as)
  then obtain e1 where e1: "executor_act execute a e = Some e1" "run_schedule (executor_act execute) as e1 = Some e'"
    by (auto simp: bind_eq_Some_conv)
  then have "dispatcher_loop execute e1 = Some e'"
    using Cons executor_act_inv[OF Cons.prems(1) e1(1)] by simp
  moreover have "dispatcher_loop execute e = dispatcher_loop execute e1"
  proof (cases a)
    case Take
    then have "take_command e = Some e1" "\<not> dispatcher_returned e" "in_hand e = None"
      using e1 by (auto simp: take_command_def split: if_splits)
    then show ?thesis by (subst dispatcher_loop.simps) simp
  next
    case Work
    then obtain c where "execute_command execute e = Some e1" "in_hand e = Some c"
      using e1 by (auto simp: execute_command_def split: option.splits)
    moreover from this have "\<not> dispatcher_returned e" using Cons.prems(1) by (auto simp: executor_inv_def)
    ultimately show ?thesis by (subst dispatcher_loop.simps) simp
  qed (use Cons.prems(3) in auto)
  ultimately show ?case by simp
qed

lemma dispatcher_loop_drains:
  assumes "executor_inv e" and "\<not> executor_running e"
  shows "\<exists>e'. dispatcher_loop execute e = Some e' \<and> executor_inv e' \<and> dispatcher_returned e' \<and>
    target e' = fold execute (waiting_commands e) (target e)"
proof -
  obtain as e' where run: "set as \<subseteq> {Take, Work}" "run_schedule (executor_act execute) as e = Some e'" "dispatcher_returned e'"
    using ex.can_finish[OF assms] by blast
  then show ?thesis
    using dispatcher_loop_run[OF assms(1) run(2,1,3)] ex.finished_drained[OF assms(1) run(2,3)]
      ex.run_keeps_inv[OF assms(1) run(2)] assms(2) by simp
qed

lemma executor_run_inv: "run_schedule (executor_act execute) as (new_executor t) = Some e \<Longrightarrow> executor_inv e"
  by (rule ex.run_keeps_inv[of "new_executor t"]) simp_all

lemma executor_stopped:
  assumes "run_schedule (executor_act execute) as (new_executor t) = Some e"
  shows "\<exists>e'. stop execute e = Some e' \<and> executor_inv e' \<and> dispatcher_returned e' \<and> target e' = fold execute (before_stop as) t"
proof -
  obtain ran where ran: "before_stop as = ran @ waiting_commands e" "target e = fold execute ran t"
    using ex.serialises[OF executor_inv_new assms] by (auto simp: new_executor_def)
  have "executor_inv (e\<lparr>executor_running := False\<rparr>)"
    using executor_run_inv[OF assms] by (simp add: executor_inv_def)
  then obtain e' where "stop execute e = Some e'" "executor_inv e'" "dispatcher_returned e'"
    "target e' = fold execute (waiting_commands e) (target e)"
    using dispatcher_loop_drains[of "e\<lparr>executor_running := False\<rparr>" execute] by (auto simp: stop_def)
  then show ?thesis using ran by simp
qed

text \<open>However the threads interleave, the commands posted before the stop are executed one at a time,
  in the order in which they were posted, each once; commands posted later are dropped. \<^verbatim>\<open>stop\<close> returns,
  and then all of them are executed.\<close>

theorem commands_run_in_order:
  assumes "run_schedule (executor_act execute) as (new_executor t) = Some e"
  shows "(\<exists>ran. before_stop as = ran @ waiting_commands e \<and> target e = fold execute ran t) \<and>
    (\<exists>e'. stop execute e = Some e' \<and> dispatcher_returned e' \<and> target e' = fold execute (before_stop as) t \<and>
      (\<forall>c. post c e' = e'))"
  using ex.serialises[OF executor_inv_new assms] executor_stopped[OF assms]
  by (auto simp: new_executor_def executor_inv_def post_def split: option.splits)

theorem commands_run_in_order_witness:
  "\<exists>e e' :: (nat, nat list) executor.
    run_schedule (executor_act (\<lambda>c xs. xs @ [c])) [Post 1, Take, Post 2, Work, RequestStop, Post 3, Take] (new_executor []) = Some e \<and>
    target e = [1] \<and> in_hand e = Some 2 \<and> stop (\<lambda>c xs. xs @ [c]) e = Some e' \<and> target e' = [1, 2]"
proof -
  let ?run = "run_schedule (executor_act (\<lambda>c xs. xs @ [c])) [Post 1, Take, Post 2, Work, RequestStop, Post 3, Take]
    (new_executor [] :: (nat, nat list) executor)"
  have run: "?run = Some \<lparr>command_queue = [], executor_running = False, in_hand = Some 2, dispatcher_returned = False, target = [1]\<rparr>"
    by (simp add: new_executor_def post_def take_command_def execute_command_def)
  show ?thesis unfolding run using commands_run_in_order[OF run] by auto
qed

end
