(* ===== verification/Output.thy ===== *)
theory Output
  imports Executor ClientInput Handlers
begin

text \<open>
  What the user sees: the console of the client (\<^verbatim>\<open>client/view/ConsoleClientView.cpp\<close>), the commands that carry
  the calls of the view (\<^verbatim>\<open>client/view/ClientOutputCommands.hpp\<close>), the view that queues them
  (\<^verbatim>\<open>client/view/QueuedClientOutputView.cpp\<close>), and the console of the server (\<^verbatim>\<open>server/view/ServerLogView.cpp\<close>).

  The interface \<^verbatim>\<open>IClientOutputView\<close> is a record of its methods over the state \<open>'v\<close> of a view; the console is
  one such record, and the queue in front of another view is one, too. A terminal is the text written to
  its two streams.
\<close>

section \<open>The interface of the view\<close>

record 'v output_view =
  show_status :: "string \<Rightarrow> int \<Rightarrow> 'v \<Rightarrow> 'v"
  show_input_ready :: "'v \<Rightarrow> 'v"
  show_input_prompt :: "'v \<Rightarrow> 'v"
  show_connected :: "string \<Rightarrow> u16 \<Rightarrow> 'v \<Rightarrow> 'v"
  show_my_id :: "u32 \<Rightarrow> 'v \<Rightarrow> 'v"
  show_usage :: "'v \<Rightarrow> 'v"
  show_delivered :: "u32 \<Rightarrow> string \<Rightarrow> 'v \<Rightarrow> 'v"
  show_user_joined :: "u32 \<Rightarrow> string \<Rightarrow> 'v \<Rightarrow> 'v"
  show_user_left :: "u32 \<Rightarrow> string \<Rightarrow> 'v \<Rightarrow> 'v"
  show_users_list :: "user_info list \<Rightarrow> 'v \<Rightarrow> 'v"
  show_error :: "string \<Rightarrow> 'v \<Rightarrow> 'v"
  show_notice :: "string \<Rightarrow> 'v \<Rightarrow> 'v"
  show_send_failed :: "'v \<Rightarrow> 'v"
  show_invalid_format :: "'v \<Rightarrow> 'v"
  show_decode_error :: "string \<Rightarrow> 'v \<Rightarrow> 'v"
  show_exiting :: "'v \<Rightarrow> 'v"
  show_server_disconnected :: "'v \<Rightarrow> 'v"

text \<open>The call of the view that an event of the client's view model stands for; the other events are calls of
  the logger, the transport and the sockets.\<close>

fun show_event :: "'v output_view \<Rightarrow> client_event \<Rightarrow> 'v \<Rightarrow> 'v" where
  "show_event V (ShowStatus step percent) = show_status V step percent"
| "show_event V ShowInputReady = show_input_ready V"
| "show_event V ShowInputPrompt = show_input_prompt V"
| "show_event V (ShowConnected ip p) = show_connected V ip p"
| "show_event V (ShowMyId i) = show_my_id V i"
| "show_event V ShowUsage = show_usage V"
| "show_event V (ShowDelivered i s) = show_delivered V i s"
| "show_event V (ShowUserJoined i n) = show_user_joined V i n"
| "show_event V (ShowUserLeft i n) = show_user_left V i n"
| "show_event V (ShowUsersList us) = show_users_list V us"
| "show_event V (ShowError s) = show_error V s"
| "show_event V (ShowNotice s) = show_notice V s"
| "show_event V ShowExiting = show_exiting V"
| "show_event V ShowServerDisconnected = show_server_disconnected V"
| "show_event V _ = (\<lambda>v. v)"

section \<open>The console\<close>

record console =
  cout :: string
  cerr :: string

definition to_cout :: "string \<Rightarrow> console \<Rightarrow> console" where
  "to_cout s c = c\<lparr>cout := cout c @ s\<rparr>"

definition to_cerr :: "string \<Rightarrow> console \<Rightarrow> console" where
  "to_cerr s c = c\<lparr>cerr := cerr c @ s\<rparr>"

abbreviation newline :: string where
  "newline \<equiv> [CHR 0x0A]"

abbreviation dec :: "'a::len word \<Rightarrow> string" where
  "dec w \<equiv> to_string (unat w)"

text \<open>The dash of the source, in UTF-8.\<close>

definition em_dash :: string where
  "em_dash = [CHR 0xE2, CHR 0x80, CHR 0x94]"

definition int_text :: "int \<Rightarrow> string" where
  "int_text i = (if i < 0 then ''-'' @ to_string (nat (- i)) else to_string (nat i))"

definition console_show_status :: "string \<Rightarrow> int \<Rightarrow> console \<Rightarrow> console" where
  "console_show_status step percent =
    (let clamped = (if percent < 0 then 0 else if percent > 100 then 100 else percent)
     in to_cout (''[startup '' @ int_text clamped @ ''%] '' @ step @ newline))"

definition console_show_input_ready :: "console \<Rightarrow> console" where
  "console_show_input_ready = to_cout (newline @
    ''============================================================'' @ newline @
    ''  CHAT READY '' @ em_dash @ '' type your message below'' @ newline @
    ''------------------------------------------------------------'' @ newline @
    ''  Format:   <who>:<text>'' @ newline @
    ''  who   =   nickname  or  numeric id'' @ newline @
    ''  text  =   message body'' @ newline @
    ''------------------------------------------------------------'' @ newline @
    ''  Examples:  bob:hello'' @ newline @
    ''             2:hello'' @ newline @
    ''             all:hello'' @ newline @
    ''  Commands:  /users   /key <id>   /exit'' @ newline @
    ''============================================================'' @ newline)"

definition console_show_input_prompt :: "console \<Rightarrow> console" where
  "console_show_input_prompt = to_cout (newline @
    ''[INPUT] who:message  (example: bob:hello | all:hello)  |  /users  |  /key id  |  /exit'' @ newline @ ''>>> '')"

definition console_show_usage :: "console \<Rightarrow> console" where
  "console_show_usage c = c"

definition console_show_connected :: "string \<Rightarrow> u16 \<Rightarrow> console \<Rightarrow> console" where
  "console_show_connected server_ip p = to_cout (''Connected to '' @ server_ip @ '':'' @ dec p @ newline)"

definition console_show_my_id :: "u32 \<Rightarrow> console \<Rightarrow> console" where
  "console_show_my_id i = to_cout (''My id='' @ dec i @ newline)"

definition console_show_delivered :: "u32 \<Rightarrow> string \<Rightarrow> console \<Rightarrow> console" where
  "console_show_delivered i s = to_cout (''[from '' @ dec i @ ''] '' @ s @ newline)"

definition nickname_suffix :: "string \<Rightarrow> string" where
  "nickname_suffix nick = (if nick \<noteq> '''' then '' nickname='' @ nick else '''')"

definition console_show_user_joined :: "u32 \<Rightarrow> string \<Rightarrow> console \<Rightarrow> console" where
  "console_show_user_joined i nick = to_cout (''[presence] User joined: id='' @ dec i @ nickname_suffix nick @ newline)"

definition console_show_user_left :: "u32 \<Rightarrow> string \<Rightarrow> console \<Rightarrow> console" where
  "console_show_user_left i nick = to_cout (''[presence] User left: id='' @ dec i @ nickname_suffix nick @ newline)"

definition console_show_users_list :: "user_info list \<Rightarrow> console \<Rightarrow> console" where
  "console_show_users_list users c =
    foldl (\<lambda>c u. to_cout (''  id='' @ dec (ui_id u) @ nickname_suffix (ui_nickname u) @ newline) c)
      (to_cout (''Connected users ('' @ to_string (length users) @ ''):'' @ newline) c) users"

definition console_show_error :: "string \<Rightarrow> console \<Rightarrow> console" where
  "console_show_error s = to_cerr (''Server error: '' @ s @ newline)"

definition console_show_notice :: "string \<Rightarrow> console \<Rightarrow> console" where
  "console_show_notice s = to_cout (''[notice] '' @ s @ newline)"

definition console_show_send_failed :: "console \<Rightarrow> console" where
  "console_show_send_failed = to_cerr (''Failed to send message'' @ newline)"

definition console_show_invalid_format :: "console \<Rightarrow> console" where
  "console_show_invalid_format = to_cerr (''Invalid format, use recipient:text'' @ newline)"

definition console_show_decode_error :: "string \<Rightarrow> console \<Rightarrow> console" where
  "console_show_decode_error s = to_cerr (''Failed to decode message: '' @ s @ newline)"

definition console_show_exiting :: "console \<Rightarrow> console" where
  "console_show_exiting = to_cout (''Leaving chat '' @ em_dash @ '' notifying others and closing connection...'' @ newline)"

definition console_show_server_disconnected :: "console \<Rightarrow> console" where
  "console_show_server_disconnected = to_cout (''Server closed the connection '' @ em_dash @ '' exiting...'' @ newline)"

definition console_view :: "console output_view" where
  "console_view = \<lparr>
     show_status = console_show_status,
     show_input_ready = console_show_input_ready,
     show_input_prompt = console_show_input_prompt,
     show_connected = console_show_connected,
     show_my_id = console_show_my_id,
     show_usage = console_show_usage,
     show_delivered = console_show_delivered,
     show_user_joined = console_show_user_joined,
     show_user_left = console_show_user_left,
     show_users_list = console_show_users_list,
     show_error = console_show_error,
     show_notice = console_show_notice,
     show_send_failed = console_show_send_failed,
     show_invalid_format = console_show_invalid_format,
     show_decode_error = console_show_decode_error,
     show_exiting = console_show_exiting,
     show_server_disconnected = console_show_server_disconnected\<rparr>"

text \<open>\<^verbatim>\<open>read_line\<close> on what is left of the standard input.\<close>

definition read_line :: "string \<Rightarrow> string option \<times> string" where
  "read_line input =
    (if input = '''' then (None, '''')
     else case split_first (CHR 0x0A) input of
         None \<Rightarrow> (Some input, '''')
       | Some (line, rest) \<Rightarrow> (Some line, rest))"

section \<open>Commands and the queued view\<close>

datatype output_command =
    ShowConnectedCommand string u16
  | ShowMyIdCommand u32
  | ShowUsageCommand
  | ShowDeliveredCommand u32 string
  | ShowUserJoinedCommand u32 string
  | ShowUserLeftCommand u32 string
  | ShowUsersListCommand "user_info list"
  | ShowErrorCommand string
  | ShowNoticeCommand string
  | ShowSendFailedCommand
  | ShowInvalidFormatCommand
  | ShowDecodeErrorCommand string
  | ShowStatusCommand string int
  | ShowInputReadyCommand
  | ShowInputPromptCommand
  | ShowExitingCommand
  | ShowServerDisconnectedCommand

fun execute :: "'v output_view \<Rightarrow> output_command \<Rightarrow> 'v \<Rightarrow> 'v" where
  "execute view (ShowConnectedCommand ip p) = show_connected view ip p"
| "execute view (ShowMyIdCommand i) = show_my_id view i"
| "execute view ShowUsageCommand = show_usage view"
| "execute view (ShowDeliveredCommand i s) = show_delivered view i s"
| "execute view (ShowUserJoinedCommand i n) = show_user_joined view i n"
| "execute view (ShowUserLeftCommand i n) = show_user_left view i n"
| "execute view (ShowUsersListCommand us) = show_users_list view us"
| "execute view (ShowErrorCommand s) = show_error view s"
| "execute view (ShowNoticeCommand s) = show_notice view s"
| "execute view ShowSendFailedCommand = show_send_failed view"
| "execute view ShowInvalidFormatCommand = show_invalid_format view"
| "execute view (ShowDecodeErrorCommand s) = show_decode_error view s"
| "execute view (ShowStatusCommand step percent) = show_status view step percent"
| "execute view ShowInputReadyCommand = show_input_ready view"
| "execute view ShowInputPromptCommand = show_input_prompt view"
| "execute view ShowExitingCommand = show_exiting view"
| "execute view ShowServerDisconnectedCommand = show_server_disconnected view"

definition queued_view :: "(output_command, 'v) executor output_view" where
  "queued_view = \<lparr>
     show_status = (\<lambda>step percent. post (Some (ShowStatusCommand step percent))),
     show_input_ready = post (Some ShowInputReadyCommand),
     show_input_prompt = post (Some ShowInputPromptCommand),
     show_connected = (\<lambda>ip p. post (Some (ShowConnectedCommand ip p))),
     show_my_id = (\<lambda>i. post (Some (ShowMyIdCommand i))),
     show_usage = post (Some ShowUsageCommand),
     show_delivered = (\<lambda>i s. post (Some (ShowDeliveredCommand i s))),
     show_user_joined = (\<lambda>i n. post (Some (ShowUserJoinedCommand i n))),
     show_user_left = (\<lambda>i n. post (Some (ShowUserLeftCommand i n))),
     show_users_list = (\<lambda>us. post (Some (ShowUsersListCommand us))),
     show_error = (\<lambda>s. post (Some (ShowErrorCommand s))),
     show_notice = (\<lambda>s. post (Some (ShowNoticeCommand s))),
     show_send_failed = post (Some ShowSendFailedCommand),
     show_invalid_format = post (Some ShowInvalidFormatCommand),
     show_decode_error = (\<lambda>s. post (Some (ShowDecodeErrorCommand s))),
     show_exiting = post (Some ShowExitingCommand),
     show_server_disconnected = post (Some ShowServerDisconnectedCommand)\<rparr>"

section \<open>The console of the server\<close>

fun server_log_view :: "effect \<Rightarrow> console \<Rightarrow> console" where
  "server_log_view (ShowListening ip p) =
     to_cout (''Server listening on '' @ ip @ '':'' @ dec p @ newline @ ''Admin: '' @ ''ban:1,2,3'' @ newline)"
| "server_log_view (ShowAcceptFailed e) = to_cerr (''accept failed: '' @ e @ newline)"
| "server_log_view (ShowClientConnected i) = to_cout (''Client connected, assigned id='' @ dec i @ newline)"
| "server_log_view (ShowClientDisconnected i nick) =
     to_cout (''Client disconnected id='' @ dec i @ nickname_suffix nick @ newline)"
| "server_log_view (ShowClientRegistered i nick) =
     to_cout (''Client id='' @ dec i @ '' registered nickname='' @ nick @ newline)"
| "server_log_view (ShowChat i to_label kind) =
     to_cout (kind @ '' from id='' @ dec i @ '' to '' @ to_label @ newline)"
| "server_log_view (ShowDecodeError e) = to_cerr (''Failed to decode message: '' @ e @ newline)"
| "server_log_view (ShowAdminMessage s) = to_cout (''[admin] '' @ s @ newline)"
| "server_log_view _ = (\<lambda>c. c)"

section \<open>The queue is invisible\<close>

definition commands_of :: "client_event \<Rightarrow> output_command list" where
  "commands_of e =
    (case e of
       ShowStatus step percent \<Rightarrow> [ShowStatusCommand step percent]
     | ShowInputReady \<Rightarrow> [ShowInputReadyCommand]
     | ShowInputPrompt \<Rightarrow> [ShowInputPromptCommand]
     | ShowConnected ip p \<Rightarrow> [ShowConnectedCommand ip p]
     | ShowMyId i \<Rightarrow> [ShowMyIdCommand i]
     | ShowUsage \<Rightarrow> [ShowUsageCommand]
     | ShowDelivered i s \<Rightarrow> [ShowDeliveredCommand i s]
     | ShowUserJoined i n \<Rightarrow> [ShowUserJoinedCommand i n]
     | ShowUserLeft i n \<Rightarrow> [ShowUserLeftCommand i n]
     | ShowUsersList us \<Rightarrow> [ShowUsersListCommand us]
     | ShowError s \<Rightarrow> [ShowErrorCommand s]
     | ShowNotice s \<Rightarrow> [ShowNoticeCommand s]
     | ShowExiting \<Rightarrow> [ShowExitingCommand]
     | ShowServerDisconnected \<Rightarrow> [ShowServerDisconnectedCommand]
     | _ \<Rightarrow> [])"

lemma execute_commands_of: "fold (execute V) (commands_of e) = show_event V e"
  by (cases e) (simp_all add: commands_of_def fun_eq_iff)

lemma queued_show_event: "show_event queued_view e q = fold (\<lambda>c. post (Some c)) (commands_of e) q"
  by (cases e) (simp_all add: commands_of_def queued_view_def)

text \<open>The threads of the program call the queued view, and its dispatcher runs.\<close>

fun queued_act :: "'v output_view \<Rightarrow> client_event action \<Rightarrow> (output_command, 'v) executor \<Rightarrow> (output_command, 'v) executor option" where
  "queued_act V (Post e) q = Some (show_event queued_view e q)"
| "queued_act V RequestStop q = executor_act (execute V) RequestStop q"
| "queued_act V Take q = executor_act (execute V) Take q"
| "queued_act V Work q = executor_act (execute V) Work q"

fun command_actions :: "client_event action \<Rightarrow> output_command action list" where
  "command_actions (Post e) = map Post (commands_of e)"
| "command_actions RequestStop = [RequestStop]"
| "command_actions Take = [Take]"
| "command_actions Work = [Work]"

lemma run_posts: "run_schedule (executor_act ex) (map Post cs) q = Some (fold (\<lambda>c. post (Some c)) cs q)"
  by (induction cs arbitrary: q) simp_all

lemma queued_act_commands: "queued_act V a q = run_schedule (executor_act (execute V)) (command_actions a) q"
  by (cases a) (auto simp: queued_show_event run_posts split: Option.bind_split)

lemma queued_run_commands:
  "run_schedule (queued_act V) as q = run_schedule (executor_act (execute V)) (concat (map command_actions as)) q"
  by (induction as arbitrary: q) (auto simp: run_schedule_append queued_act_commands split: Option.bind_split)

lemma accepted_posts: "before_stop (map Post cs @ as) = cs @ before_stop as"
  by (induction cs) simp_all

lemma accepted_commands: "before_stop (concat (map command_actions as)) = concat (map commands_of (before_stop as))"
  by (induction as rule: before_stop.induct) (simp_all add: accepted_posts)

lemma fold_commands: "fold (execute V) (concat (map commands_of es)) v = fold (show_event V) es v"
  by (induction es arbitrary: v) (simp_all add: execute_commands_of)

text \<open>C33: The queue in front of the console is invisible to the user. Whichever threads call the queued view
  and whenever its dispatcher runs, once the queue is stopped the console has seen the calls that were made
  before the stop, in their order, as if they had been made directly.\<close>

theorem queued_output_transparent:
  assumes "run_schedule (queued_act V) as (new_executor v) = Some q"
  shows "\<exists>q'. stop (execute V) q = Some q' \<and> target q' = fold (show_event V) (before_stop as) v"
  using executor_stopped[OF assms[unfolded queued_run_commands]] by (auto simp: accepted_commands fold_commands)

theorem queued_output_transparent_witness:
  "\<exists>q q' :: (output_command, console) executor.
    run_schedule (queued_act console_view) [Post (ShowMyId 7), Post (LogInfo ''x''), Take, Post (ShowNotice ''hi''), RequestStop, Post ShowExiting]
      (new_executor \<lparr>cout = '''', cerr = ''''\<rparr>) = Some q \<and>
    cout (target q) = '''' \<and> stop (execute console_view) q = Some q' \<and>
    cout (target q') = ''My id='' @ dec (7 :: u32) @ newline @ ''[notice] hi'' @ newline"
proof -
  let ?q = "\<lparr>command_queue = [ShowNoticeCommand ''hi''], executor_running = False, in_hand = Some (ShowMyIdCommand 7),
    dispatcher_returned = False, target = \<lparr>cout = '''', cerr = ''''\<rparr>\<rparr>"
  have run: "run_schedule (queued_act console_view)
      [Post (ShowMyId 7), Post (LogInfo ''x''), Take, Post (ShowNotice ''hi''), RequestStop, Post ShowExiting]
      (new_executor \<lparr>cout = '''', cerr = ''''\<rparr>) = Some ?q"
    by (simp add: queued_view_def new_executor_def post_def take_command_def)
  obtain q' where "stop (execute console_view) ?q = Some q'"
    "cout (target q') = ''My id='' @ dec (7 :: u32) @ newline @ ''[notice] hi'' @ newline"
    using queued_output_transparent[OF run]
    by (auto simp: console_view_def console_show_my_id_def console_show_notice_def to_cout_def)
  moreover have "cout (target ?q) = ''''" by simp
  ultimately show ?thesis using run by blast
qed

section \<open>What the consoles show\<close>

text \<open>A message is shown as it is. One whose text has a line break and the marker of another sender looks
  like two messages, the second from a client that never wrote it.\<close>

theorem delivered_text_forges_sender:
  "show_event console_view (ShowDelivered i (s @ newline @ ''[from '' @ dec j @ ''] '' @ t)) c =
   show_event console_view (ShowDelivered j t) (show_event console_view (ShowDelivered i s) c)"
  by (simp add: console_view_def console_show_delivered_def to_cout_def)

lemma server_log_view_blank: "server_log_view (Handlers.blank e) = server_log_view e"
  by (cases e) auto

lemma fold_server_log_blank: "map Handlers.blank es = map Handlers.blank es' \<Longrightarrow> fold server_log_view es c = fold server_log_view es' c"
proof (induction es es' arbitrary: c rule: list_induct2')
  case (4 e es e' es')
  then show ?case using server_log_view_blank[of e] server_log_view_blank[of e'] by simp
qed simp_all

text \<open>C37: The operator of the server does not see what the clients write: the console of the server does not
  depend on the text of a chat, of a key offer or of a room key offer.\<close>

theorem server_console_blind:
  assumes "(req, del, lab) \<in> set relay_kinds" and "length s \<le> 65535" and "length s' \<le> 65535"
  shows "fold server_log_view (trace (snd (dispatch create_message_dispatcher fd
        \<lparr>msg_type = req, payload = ChatPayload (chat\<lparr>chat_text := s\<rparr>)\<rparr> ctx))) c =
    fold server_log_view (trace (snd (dispatch create_message_dispatcher fd
        \<lparr>msg_type = req, payload = ChatPayload (chat\<lparr>chat_text := s'\<rparr>)\<rparr> ctx))) c"
  by (rule fold_server_log_blank) (rule relay_blind[OF assms])

theorem server_console_blind_witness:
  "fold server_log_view (trace (snd (dispatch create_message_dispatcher 7
      \<lparr>msg_type = KeyOffer, payload = ChatPayload \<lparr>chat_from_id = 0, recipient_tag = 3, recipient_data = [], chat_text = ''a''\<rparr>\<rparr> sample_context)))
      \<lparr>cout = '''', cerr = ''''\<rparr> =
   fold server_log_view (trace (snd (dispatch create_message_dispatcher 7
      \<lparr>msg_type = KeyOffer, payload = ChatPayload \<lparr>chat_from_id = 0, recipient_tag = 3, recipient_data = [], chat_text = ''bc''\<rparr>\<rparr> sample_context)))
      \<lparr>cout = '''', cerr = ''''\<rparr>"
  using server_console_blind[of KeyOffer PeerKey "''KeyOffer''" "''a''" "''bc''" 7
      "\<lparr>chat_from_id = 0, recipient_tag = 3, recipient_data = [], chat_text = ''a''\<rparr>" sample_context "\<lparr>cout = '''', cerr = ''''\<rparr>"]
  by (simp add: relay_kinds_def)

text \<open>Reading line by line until the end of the input gives its lines.\<close>

fun read_lines :: "nat \<Rightarrow> string \<Rightarrow> string list" where
  "read_lines 0 input = []"
| "read_lines (Suc n) input = (case read_line input of (None, _) \<Rightarrow> [] | (Some line, rest) \<Rightarrow> line # read_lines n rest)"

lemma read_lines_Nil: "read_lines n '''' = []"
  by (cases n) (simp_all add: read_line_def)

lemma read_lines_getlines: "length input \<le> n \<Longrightarrow> read_lines n input = getlines (CHR 0x0A) input"
proof (induction n arbitrary: input)
  case (Suc n)
  show ?case
  proof (cases input)
    case (Cons c cs)
    have "length rest < length input" if "split_first (CHR 0x0A) input = Some (line, rest)" for line rest
      using split_first_SomeD[OF that] by simp
    then show ?thesis using Suc Cons by (auto simp: read_line_def read_lines_Nil split: option.splits)
  qed (simp add: read_line_def)
qed simp

end
