(* ===== verification/Startup.thy ===== *)
theory Startup
  imports ServerLoop ClientRuns Sockets Output
begin

text \<open>
  The two programs (\<^verbatim>\<open>client/main.cpp\<close> and \<^verbatim>\<open>server/main.cpp\<close>): finding and reading the configuration, making
  the socket, starting the view model, the signal handlers, and the exit code. \<open>read_file\<close> gives the contents
  of the file at a path.
\<close>

section \<open>The client\<close>

text \<open>What the loading of the configuration shows: also the reports of a file whose port is then refused.\<close>

definition load_client_config ::
  "string \<Rightarrow> string \<Rightarrow> string \<Rightarrow> (string \<Rightarrow> string option) \<Rightarrow> client_config res \<times> client_event list" where
  "load_client_config exe argv0 override_path read_file =
    (let config_path = resolve_config_path exe argv0 ''client.conf'' override_path;
         reports = (case config_load True config_path (read_file config_path) of Inl _ \<Rightarrow> [] | Inr (_, reports) \<Rightarrow> reports)
     in (client_config_from_file True config_path (read_file config_path),
         [ShowStatus ''Resolving config path'' 5, ShowStatus (''Reading '' @ config_path) 10] @
         map (\<lambda>(file_percent, msg). ShowStatus msg (map_config_file_percent file_percent)) reports))"

text \<open>\<^verbatim>\<open>main\<close> up to the loops of the threads: the outcome, and all that was shown and logged on the way.\<close>

definition client_boot ::
  "monocypher \<Rightarrow> string \<Rightarrow> string \<Rightarrow> string \<Rightarrow> (string \<Rightarrow> string option) \<Rightarrow> bool \<Rightarrow> connect_answers \<Rightarrow>
   (nat \<Rightarrow> bool) \<Rightarrow> sock_event list \<Rightarrow> entropy \<Rightarrow> files \<Rightarrow> (unit res \<times> client_event list) option" where
  "client_boot lib exe argv0 override_path read_file log_opens answers sends evs E fs =
    (case load_client_config exe argv0 override_path read_file of
       (Inl e, es) \<Rightarrow> Some (Inl e, es)
     | (Inr conf, es) \<Rightarrow>
         (case client_startup lib log_opens (fst (tcp_connect answers conf {})) (new_client conf sends evs E fs) of
            None \<Rightarrow> None
          | Some (r, c) \<Rightarrow> Some (r, es @ [ShowStatus ''Config ready'' 40] @ events c)))"

text \<open>The \<^verbatim>\<open>catch\<close> of \<^verbatim>\<open>main\<close>, and its exit code.\<close>

definition client_exit :: "unit res \<Rightarrow> console \<Rightarrow> nat \<times> console" where
  "client_exit r c = (case r of Inr _ \<Rightarrow> (0, c) | Inl e \<Rightarrow> (1, to_cerr (''Client error: '' @ what e @ newline) c))"

definition on_client_signal :: "client option \<Rightarrow> client option" where
  "on_client_signal vm = map_option (request_shutdown True) vm"

section \<open>The server\<close>

definition on_server_signal :: "server option \<Rightarrow> server option" where
  "on_server_signal srv = map_option request_stop srv"

text \<open>The admin thread, over what is left of the standard input, while the server exists.\<close>

definition admin_input_loop :: "string \<Rightarrow> server \<Rightarrow> server" where
  "admin_input_loop input s = foldl (\<lambda>s line. submit_admin_line line s) s (getlines (CHR 0x0A) input)"

text \<open>\<^verbatim>\<open>main\<close>: the exit code, if the process ends, the text on the standard error stream, and the server.\<close>

definition server_main ::
  "string \<Rightarrow> string \<Rightarrow> string \<Rightarrow> (string \<Rightarrow> string option) \<Rightarrow> listen_answers \<Rightarrow> round_input list \<Rightarrow> nat option \<times> string" where
  "server_main exe argv0 override_path read_file answers inps =
    (let config_path = resolve_config_path exe argv0 ''server.conf'' override_path;
         failed = (\<lambda>e. (Some 1, ''Server error: '' @ what e @ newline))
     in case server_config_from_file False config_path (read_file config_path) of
          Inl e \<Rightarrow> failed e
        | Inr conf \<Rightarrow>
            (case listen_open answers (new_listen_socket conf) {} of
               (Inl e, _) \<Rightarrow> failed e
             | (Inr _, ls, _) \<Rightarrow>
                 (case server_run (bind_ip conf) (listen_port ls) inps (init_server (ls_fd ls)) of
                    Returned _ \<Rightarrow> (Some 0, '''')
                  | Threw e _ \<Rightarrow> failed e
                  | _ \<Rightarrow> (None, ''''))))"

section \<open>The progress bar\<close>

definition percents :: "client_event list \<Rightarrow> int list" where
  "percents es = List.map_filter (\<lambda>e. case e of ShowStatus s n \<Rightarrow> Some n | _ \<Rightarrow> None) es"

lemma percents_simps [simp]:
  "percents [] = []" "percents (ShowStatus s n # es) = n # percents es" "percents (es @ es') = percents es @ percents es'"
  by (simp_all add: percents_def List.map_filter_def)

lemma percents_events: "percents (events c) = statuses c"
  by (simp add: percents_def statuses_def)

lemma percents_reports: "percents (map (\<lambda>(p, m). ShowStatus m (f p)) rs) = map (\<lambda>(p, m). f p) rs"
  by (induction rs) auto

lemma connect_statuses:
  "connect_to_server conn c = (r, c') \<Longrightarrow> statuses c' = statuses c @ (case r of Inl _ \<Rightarrow> [45] | Inr _ \<Rightarrow> [45, 60])"
  by (auto simp: connect_to_server_def Let_def statuses_note split: sum.splits)

lemma register_statuses:
  "register_nickname c = (r, c') \<Longrightarrow>
    statuses c' = statuses c @ [92] \<or> statuses c' = statuses c \<and> r = Inr ()"
  by (auto simp: register_nickname_def Let_def case_prod_unfold send_message_def statuses_note split: if_splits sum.splits)

lemma receive_failed_statuses:
  assumes "receive_assigned_id c = Some (Inl e, c')"
  shows "statuses c' = statuses c @ [75]"
proof -
  obtain received rest where t: "transport_receive (inbox c) = Some (received, rest)"
    using assms by (auto simp: receive_assigned_id_def Let_def split: option.splits)
  obtain rk E where g: "generate_room_key (entropy_left c) = (rk, E)" by (cases "generate_room_key (entropy_left c)")
  have rk: "set_room_key rk ks = Inr (ks\<lparr>room_key := Some rk\<rparr>)" for ks
    using g by (auto simp: generate_room_key_def set_room_key_def fill_random_length)
  show ?thesis
    using assms t g rk
    by (auto simp: receive_assigned_id_def Let_def statuses_note split: sum.splits option.splits if_splits AppPayload.splits)
qed

text \<open>The bar of the view model moves forward, whichever way the start-up ends, and reaches 100 only when it
  succeeds.\<close>

lemma startup_statuses:
  assumes "x25519_ok lib" and "client_startup lib log_opens conn (new_client conf sends evs E fs) = Some (r, c)"
  shows "sorted (statuses c) \<and> (\<forall>n \<in> set (statuses c). 45 \<le> n \<and> n \<le> 100) \<and> (100 \<in> set (statuses c) \<longleftrightarrow> r = Inr ())"
proof -
  let ?c0 = "init_logger log_opens (new_client conf sends evs E fs)"
  have n: "key_store_inv (key_store ?c0)" "statuses ?c0 = []"
    by (simp_all add: statuses_init_logger) (simp_all add: new_client_def key_store_inv_empty statuses_def List.map_filter_def)
  obtain c1 where l: "load_or_create_identity lib ?c0 = (Inr (), c1)"
    "\<exists>es. events c1 = events ?c0 @ es \<and> (\<forall>s n. ShowStatus s n \<notin> set es)"
    using load_or_create_identity_inv[OF assms(1) n(1)] by metis
  have s1: "statuses c1 = []" using l(2) n(2) by (auto dest: statuses_quiet)
  obtain r2 c2 where k: "connect_to_server conn c1 = (r2, c2)" by fastforce
  note s2 = connect_statuses[OF k, unfolded s1]
  show ?thesis
  proof (cases r2)
    case (Inl e)
    then show ?thesis using assms(2) l(1) k s2 by (auto simp: client_startup_def)
  next
    case (Inr u)
    note ok2 = this
    obtain r3 c3 where a: "receive_assigned_id c2 = Some (r3, c3)"
      using assms(2) l(1) k Inr by (cases "receive_assigned_id c2") (auto simp: client_startup_def)
    show ?thesis
    proof (cases r3)
      case (Inl e)
      then show ?thesis using assms(2) l(1) k ok2 a s2 receive_failed_statuses by (auto simp: client_startup_def)
    next
      case (Inr u')
      then have s3: "statuses c3 = [45, 60, 75, 85]"
        using receive_assigned_id_ok[of c2 c3] a s2 ok2 by (metis append_Nil append_Cons old.sum.simps(6) unit.exhaust)
      obtain r4 c4 where g: "register_nickname c3 = (r4, c4)" by fastforce
      note s4 = register_statuses[OF g, unfolded s3]
      show ?thesis
      proof (cases r4)
        case (Inl e)
        then show ?thesis using assms(2) l(1) k ok2 a Inr g s4 by (auto simp: client_startup_def \<open>r3 = Inr u'\<close>)
      next
        case (Inr u'')
        then show ?thesis using assms(2) l(1) k ok2 a g s4 by (auto simp: client_startup_def \<open>r3 = Inr u'\<close> statuses_note)
      qed
    qed
  qed
qed

lemma load_client_config_percents:
  assumes "load_client_config exe argv0 override_path read_file = (r, es)"
  shows "sorted (percents es) \<and> (\<forall>n \<in> set (percents es). 5 \<le> n \<and> n \<le> 35)"
proof -
  let ?path = "resolve_config_path exe argv0 ''client.conf'' override_path"
  define reports where "reports = (case config_load True ?path (read_file ?path) of Inl _ \<Rightarrow> [] | Inr (_, reports) \<Rightarrow> reports)"
  have p: "percents es = [5, 10] @ map (\<lambda>(p, m). map_config_file_percent p) reports"
    using assms by (auto simp: load_client_config_def Let_def reports_def percents_reports)
  have r: "sorted (map fst reports) \<and> (\<forall>(p, msg) \<in> set reports. 10 \<le> map_config_file_percent p \<and> map_config_file_percent p \<le> 35)"
  proof (cases "config_load True ?path (read_file ?path)")
    case (Inr vr)
    then obtain contents vals where "config_load True ?path (Some contents) = Inr (vals, reports)"
      by (cases "read_file ?path"; cases vr) (auto simp: reports_def config_load_def)
    then show ?thesis using load_progress_monotone by fastforce
  qed (simp add: reports_def)
  have "sorted (map map_config_file_percent xs)" if "sorted xs" for xs
    using that by (induction xs) (auto simp: map_config_file_percent_def intro: zdiv_mono1)
  then have "sorted (map map_config_file_percent (map fst reports))" using r by blast
  then show ?thesis using r p by (auto simp: case_prod_unfold comp_def)
qed

text \<open>C35: The progress bar of the whole start-up never goes back and never leaves the range from 0 to 100,
  whatever fails on the way, and it reaches 100 exactly when the start-up succeeds.\<close>

theorem startup_progress_bar:
  assumes "x25519_ok lib"
    and "client_boot lib exe argv0 override_path read_file log_opens answers sends evs E fs = Some (r, es)"
  shows "sorted (percents es) \<and> (\<forall>n \<in> set (percents es). 0 \<le> n \<and> n \<le> 100) \<and> (100 \<in> set (percents es) \<longleftrightarrow> r = Inr ())"
proof -
  obtain lr les where l: "load_client_config exe argv0 override_path read_file = (lr, les)" by fastforce
  note bar = load_client_config_percents[OF l]
  show ?thesis
  proof (cases lr)
    case (Inl e)
    then show ?thesis using assms(2) l bar by (auto simp: client_boot_def)
  next
    case (Inr conf)
    then obtain c where c: "client_startup lib log_opens (fst (tcp_connect answers conf {})) (new_client conf sends evs E fs) = Some (r, c)"
      "es = les @ [ShowStatus ''Config ready'' 40] @ events c"
      using assms(2) l by (auto simp: client_boot_def split: option.splits)
    have p: "percents es = percents les @ [40] @ statuses c" by (simp add: c(2) percents_events)
    note s = startup_statuses[OF assms(1) c(1)]
    have "sorted (percents es)"
      using bar s unfolding p by (auto simp: sorted_append) force+
    then show ?thesis using bar s p by fastforce
  qed
qed

theorem startup_progress_bar_witness:
  "\<exists>es. client_boot toy_lib ''/opt/chat/client'' '''' '''' (\<lambda>_. Some '''') True
      \<lparr>connect_socket_fd = 7, server_address_ok = (\<lambda>_. True), connect_error = None\<rparr> (\<lambda>_. True) first_message (toy_entropy 1) Map.empty =
    Some (Inr (), es) \<and> sorted (percents es) \<and> 100 \<in> set (percents es)"
proof -
  let ?answers = "\<lparr>connect_socket_fd = 7, server_address_ok = (\<lambda>_. True), connect_error = None\<rparr>"
  obtain conf es where l: "load_client_config ''/opt/chat/client'' '''' '''' (\<lambda>_. Some '''') = (Inr conf, es)" "nickname conf = ''''"
    by (simp add: load_client_config_def client_config_from_file_def config_load_def config_get_def Let_def)
  have "fst (tcp_connect ?answers conf {}) = Inr 7" by (simp add: tcp_connect_def)
  then obtain es' where "client_boot toy_lib ''/opt/chat/client'' '''' '''' (\<lambda>_. Some '''') True ?answers (\<lambda>_. True)
      first_message (toy_entropy 1) Map.empty = Some (Inr (), es')"
    using first_startup[OF l(2)] l(1) by (auto simp: client_boot_def)
  from startup_progress_bar[OF toy_lib_ok(1) this] this show ?thesis by blast
qed

section \<open>How the server ends\<close>



section \<open>Other threads\<close>

text \<open>A signal to the client is a step of its relation; what the admin thread reads is submitted line by line
  and stops nothing.\<close>

lemma client_signal_step: "on_client_signal (Some c) = Some c' \<Longrightarrow> client_step lib c c'"
  by (auto simp: on_client_signal_def intro: client_step.signal)

lemma admin_input_submits: "admin_input_loop input s = s\<lparr>admin_queue := admin_queue s @ getlines (CHR 0x0A) input\<rparr>"
proof -
  have "foldl (\<lambda>s line. submit_admin_line line s) s ls = s\<lparr>admin_queue := admin_queue s @ ls\<rparr>" for ls
    by (induction ls arbitrary: s) (simp_all add: submit_admin_line_def)
  then show ?thesis by (simp add: admin_input_loop_def)
qed

end
