(* ===== verification/Logger.thy ===== *)
theory Logger
  imports Executor Text
begin

text \<open>
  The log file (\<^verbatim>\<open>common/logging/FileLogger.cpp\<close>): time stamps, the queue of entries with its writer thread,
  opening, flushing and stopping. Like in the executor each critical section is one action, and so is each
  write outside the lock. The file system is part of the state and takes every write; \<open>clock\<close> yields the
  times, in seconds, at which the next entries are written.
\<close>

section \<open>Time stamps\<close>

text \<open>\<^verbatim>\<open>gmtime_r\<close>: the years since 1970 and the months of the year are counted off from the number of days.
  A \<^verbatim>\<open>time_t\<close> is a number of seconds since then, and the clock is not set to a time before.\<close>

definition leap_year :: "nat \<Rightarrow> bool" where
  "leap_year y \<longleftrightarrow> y mod 4 = 0 \<and> (y mod 100 \<noteq> 0 \<or> y mod 400 = 0)"

definition year_days :: "nat \<Rightarrow> nat" where
  "year_days y = (if leap_year y then 366 else 365)"

definition month_lengths :: "nat \<Rightarrow> nat list" where
  "month_lengths y = [31, if leap_year y then 29 else 28, 31, 30, 31, 30, 31, 31, 30, 31, 30, 31]"

function year_of_day :: "nat \<Rightarrow> nat \<Rightarrow> nat \<times> nat" where
  "year_of_day y d = (if d < year_days y then (y, d) else year_of_day (Suc y) (d - year_days y))"
  by pat_completeness auto
termination by (relation "measure snd") (auto simp: year_days_def split: if_splits)

declare year_of_day.simps [simp del]

fun month_of_day :: "nat list \<Rightarrow> nat \<Rightarrow> nat \<Rightarrow> nat \<times> nat" where
  "month_of_day [] m d = (m, d + 1)"
| "month_of_day (n # ns) m d = (if d < n then (m, d + 1) else month_of_day ns (m + 1) (d - n))"

text \<open>The formats \<^verbatim>\<open>%m\<close>, \<^verbatim>\<open>%d\<close>, \<^verbatim>\<open>%H\<close>, \<^verbatim>\<open>%M\<close> and \<^verbatim>\<open>%S\<close>.\<close>

definition two_digits :: "nat \<Rightarrow> string" where
  "two_digits n = [digit_char (n div 10), digit_char (n mod 10)]"

definition utc_timestamp :: "nat \<Rightarrow> string" where
  "utc_timestamp t =
    (let (y, day) = year_of_day 1970 (t div 86400);
         (m, d) = month_of_day (month_lengths y) 1 day;
         s = t mod 86400
     in to_string y @ ''-'' @ two_digits m @ ''-'' @ two_digits d @ ''T'' @
        two_digits (s div 3600) @ '':'' @ two_digits (s mod 3600 div 60) @ '':'' @ two_digits (s mod 60) @ ''Z'')"

section \<open>The logger\<close>

record log_entry =
  entry_level :: string
  entry_message :: string

text \<open>The writer thread: not started, or at the head of its loop, or about to write the entry it took, or
  at its end but not joined.\<close>

datatype writer = NoWriter | AtWait | Writing log_entry | AtEnd

record logger =
  logger_path :: string
  stream_open :: bool
  log_queue :: "log_entry list"
  logger_running :: bool
  logger_open :: bool
  writer :: writer
  log_files :: "string \<Rightarrow> string"
  clock :: "nat \<Rightarrow> nat"

definition new_logger :: "(string \<Rightarrow> string) \<Rightarrow> (nat \<Rightarrow> nat) \<Rightarrow> logger" where
  "new_logger fs clk = \<lparr>logger_path = '''', stream_open = False, log_queue = [], logger_running = False,
     logger_open = False, writer = NoWriter, log_files = fs, clock = clk\<rparr>"

definition enqueue :: "string \<Rightarrow> string \<Rightarrow> logger \<Rightarrow> logger" where
  "enqueue level message l =
    (if \<not> logger_running l \<or> \<not> logger_open l then l
     else l\<lparr>log_queue := log_queue l @ [\<lparr>entry_level = level, entry_message = message\<rparr>]\<rparr>)"

definition log_info :: "string \<Rightarrow> logger \<Rightarrow> logger" where
  "log_info = enqueue ''INFO''"

definition log_warn :: "string \<Rightarrow> logger \<Rightarrow> logger" where
  "log_warn = enqueue ''WARN''"

definition log_error :: "string \<Rightarrow> logger \<Rightarrow> logger" where
  "log_error = enqueue ''ERROR''"

text \<open>\<^verbatim>\<open>flush\<close> returns as soon as its condition holds.\<close>

definition flush_returns :: "logger \<Rightarrow> bool" where
  "flush_returns l \<longleftrightarrow> log_queue l = []"

definition log_line :: "nat \<Rightarrow> log_entry \<Rightarrow> string" where
  "log_line t e = utc_timestamp t @ '' '' @ entry_level e @ '' '' @ entry_message e @ [CHR 0x0A]"

definition write_entry :: "log_entry \<Rightarrow> logger \<Rightarrow> logger" where
  "write_entry e l =
    (if \<not> stream_open l then l
     else l\<lparr>log_files := (log_files l)(logger_path l := log_files l (logger_path l) @ log_line (clock l 0) e),
            clock := (\<lambda>i. clock l (Suc i))\<rparr>)"

text \<open>The critical section of \<^verbatim>\<open>writer_loop\<close>; \<open>None\<close> while it waits. With the lock held the condition of the wait
  is true, so the \<^verbatim>\<open>continue\<close> of the source is never taken.\<close>

definition take_entry :: "logger \<Rightarrow> logger option" where
  "take_entry l =
    (if writer l \<noteq> AtWait then None
     else case log_queue l of
         [] \<Rightarrow> if logger_running l then None else Some (l\<lparr>writer := AtEnd\<rparr>)
       | e # es \<Rightarrow> Some (l\<lparr>log_queue := es, writer := Writing e\<rparr>))"

definition write_taken :: "logger \<Rightarrow> logger option" where
  "write_taken l = (case writer l of Writing e \<Rightarrow> Some ((write_entry e l)\<lparr>writer := AtWait\<rparr>) | _ \<Rightarrow> None)"

text \<open>\<^verbatim>\<open>writer_loop\<close> with no other thread in between; \<open>None\<close> when it waits for ever.\<close>

partial_function (option) writer_loop :: "logger \<Rightarrow> logger option" where
  "writer_loop l =
    (case writer l of
       Writing _ \<Rightarrow> Option.bind (write_taken l) writer_loop
     | AtWait \<Rightarrow> Option.bind (take_entry l) writer_loop
     | _ \<Rightarrow> Some l)"

text \<open>\<^verbatim>\<open>stop\<close> up to the join, which runs the writer to its end, and behind it.\<close>

definition logger_stop :: "logger \<Rightarrow> logger option" where
  "logger_stop l =
    (if \<not> logger_running l \<and> writer l = NoWriter then Some l
     else case writer_loop (l\<lparr>logger_running := False\<rparr>) of
         None \<Rightarrow> None
       | Some l \<Rightarrow> Some (l\<lparr>writer := NoWriter, stream_open := False, logger_open := False, log_queue := []\<rparr>))"

text \<open>\<open>opens\<close> is whether the file can be opened for appending.\<close>

definition open_log :: "bool \<Rightarrow> string \<Rightarrow> logger \<Rightarrow> logger option" where
  "open_log opens path l =
    (case logger_stop l of
       None \<Rightarrow> None
     | Some l \<Rightarrow>
         let l = l\<lparr>logger_path := path, stream_open := opens, logger_open := opens\<rparr>
         in if \<not> opens then Some l else Some (l\<lparr>logger_running := True, writer := AtWait\<rparr>))"

fun logger_act :: "log_entry action \<Rightarrow> logger \<Rightarrow> logger option" where
  "logger_act (Post e) l = Some (enqueue (entry_level e) (entry_message e) l)"
| "logger_act RequestStop l = Some (l\<lparr>logger_running := False\<rparr>)"
| "logger_act Take l = take_entry l"
| "logger_act Work l = write_taken l"

text \<open>The text that entries leave in the file, written at the times of the clock.\<close>

primrec log_text_of :: "log_entry list \<Rightarrow> (nat \<Rightarrow> nat) \<Rightarrow> string" where
  "log_text_of [] clk = ''''"
| "log_text_of (e # es) clk = log_line (clk 0) e @ log_text_of es (\<lambda>i. clk (Suc i))"

section \<open>Time stamps are exact\<close>

lemma year_of_day_sum:
  "year_of_day y d = (y', d') \<Longrightarrow> y \<le> y' \<and> d = sum_list (map year_days [y..<y']) + d' \<and> d' < year_days y'"
proof (induction y d rule: year_of_day.induct)
  case (1 y d)
  show ?case
  proof (cases "d < year_days y")
    case True
    then show ?thesis using "1.prems" by (simp add: year_of_day.simps)
  next
    case False
    then have "Suc y \<le> y' \<and> d - year_days y = sum_list (map year_days [Suc y..<y']) + d' \<and> d' < year_days y'"
      using "1.IH" "1.prems" by (simp add: year_of_day.simps[of y])
    then show ?thesis using False by (auto simp: upt_conv_Cons)
  qed
qed

lemma month_of_day_sum:
  "d < sum_list ns \<Longrightarrow> month_of_day ns m d = (m', d') \<Longrightarrow>
    m \<le> m' \<and> m' < m + length ns \<and> d = sum_list (take (m' - m) ns) + (d' - 1) \<and> 1 \<le> d' \<and> d' \<le> ns ! (m' - m)"
proof (induction ns arbitrary: m d)
  case (Cons n ns)
  show ?case
  proof (cases "d < n")
    case True
    then show ?thesis using Cons.prems by auto
  next
    case False
    then have "d - n < sum_list ns" "month_of_day ns (m + 1) (d - n) = (m', d')" using Cons.prems by auto
    note IH = Cons.IH[OF this]
    then obtain k where "m' = m + 1 + k" using le_Suc_ex by blast
    then show ?thesis using IH False by auto
  qed
qed simp

lemma two_digits_inj: "m < 100 \<Longrightarrow> n < 100 \<Longrightarrow> two_digits m = two_digits n \<Longrightarrow> m = n"
proof -
  assume "m < 100" "n < 100" "two_digits m = two_digits n"
  then have "m div 10 = n div 10" "m mod 10 = n mod 10" by (auto simp: two_digits_def digit_char_def)
  then show "m = n" by (metis div_mult_mod_eq)
qed

lemma two_digits_length [simp]: "length (two_digits n) = 2"
  by (simp add: two_digits_def)

lemma month_lengths_sum: "sum_list (month_lengths y) = year_days y"
  by (simp add: month_lengths_def year_days_def)

lemma month_lengths_bound: "i < 12 \<Longrightarrow> month_lengths y ! i \<le> 31"
  by (simp add: month_lengths_def nth_Cons' numeral_eq_Suc)

lemma seconds_parts: "s = s div 3600 * 3600 + s mod 3600 div 60 * 60 + s mod (60 :: nat)"
proof -
  have "s mod 3600 mod 60 = s mod 60" by (simp add: mod_mod_cancel)
  then show ?thesis using div_mult_mod_eq[of s 3600] div_mult_mod_eq[of "s mod 3600" 60] by linarith
qed

lemma seconds_eqI:
  assumes "s div 3600 = s' div 3600" and "s mod 3600 div 60 = s' mod 3600 div 60" and "s mod 60 = s' mod (60 :: nat)"
  shows "s = s'"
proof -
  have "s = s' div 3600 * 3600 + s' mod 3600 div 60 * 60 + s' mod 60"
    unfolding assms[symmetric] by (rule seconds_parts)
  then show ?thesis by (simp only: seconds_parts[symmetric])
qed

lemma stamp_parts:
  "to_string y @ ''-'' @ two_digits m @ ''-'' @ two_digits d @ ''T'' @ two_digits h @ '':'' @ two_digits i @ '':'' @ two_digits s @ ''Z'' =
     to_string y' @ ''-'' @ two_digits m' @ ''-'' @ two_digits d' @ ''T'' @ two_digits h' @ '':'' @ two_digits i' @ '':'' @ two_digits s' @ ''Z'' \<Longrightarrow>
   y = y' \<and> two_digits m = two_digits m' \<and> two_digits d = two_digits d' \<and> two_digits h = two_digits h' \<and>
     two_digits i = two_digits i' \<and> two_digits s = two_digits s'"
  by (simp add: append_eq_append_conv)

text \<open>Two times have the same time stamp only when they are the same second.\<close>

theorem utc_timestamp_exact: "utc_timestamp t = utc_timestamp t' \<longleftrightarrow> t = t'"
proof
  assume eq: "utc_timestamp t = utc_timestamp t'"
  obtain y r where y: "year_of_day 1970 (t div 86400) = (y, r)" by fastforce
  obtain m d where m: "month_of_day (month_lengths y) 1 r = (m, d)" by fastforce
  obtain y' r' where y': "year_of_day 1970 (t' div 86400) = (y', r')" by fastforce
  obtain m' d' where m': "month_of_day (month_lengths y') 1 r' = (m', d')" by fastforce
  note days = year_of_day_sum[OF y] year_of_day_sum[OF y']
  have r: "r < sum_list (month_lengths y)" "r' < sum_list (month_lengths y')" using days by (simp_all add: month_lengths_sum)
  note months = month_of_day_sum[OF r(1) m] month_of_day_sum[OF r(2) m']
  have len: "length (month_lengths y) = 12" "length (month_lengths y') = 12" by (simp_all add: month_lengths_def)
  have "month_lengths y ! (m - 1) \<le> 31" "month_lengths y' ! (m' - 1) \<le> 31"
    by (rule month_lengths_bound; use months len in linarith)+
  then have small: "m < 100" "m' < 100" "d < 100" "d' < 100" using months len by linarith+
  have parts: "y = y'" "two_digits m = two_digits m'" "two_digits d = two_digits d'"
    "two_digits (t mod 86400 div 3600) = two_digits (t' mod 86400 div 3600)"
    "two_digits (t mod 86400 mod 3600 div 60) = two_digits (t' mod 86400 mod 3600 div 60)"
    "two_digits (t mod 86400 mod 60) = two_digits (t' mod 86400 mod 60)"
    using eq unfolding utc_timestamp_def Let_def y m y' m' prod.case by (auto dest!: stamp_parts)
  have "m = m'" "d = d'" using parts small two_digits_inj by blast+
  then have "t div 86400 = t' div 86400" using parts(1) days months by simp
  moreover have "t mod 86400 = t' mod 86400"
    by (rule seconds_eqI; rule two_digits_inj[OF _ _ parts(4)] two_digits_inj[OF _ _ parts(5)] two_digits_inj[OF _ _ parts(6)])
      (simp_all add: less_mult_imp_div_less)
  ultimately show "t = t'" by (metis div_mult_mod_eq)
qed simp

lemma utc_timestamp_sample: "utc_timestamp 1709209805 = ''2024-02-29T12:30:05Z''"
  by (simp add: utc_timestamp_def year_of_day.simps year_days_def leap_year_def month_lengths_def two_digits_def to_string.simps
      digit_char_def char_of_def bit_0)

section \<open>What the logger promises\<close>

definition writer_item :: "writer \<Rightarrow> log_entry list" where
  "writer_item w = (case w of Writing e \<Rightarrow> [e] | _ \<Rightarrow> [])"

abbreviation waiting_entries :: "logger \<Rightarrow> log_entry list" where
  "waiting_entries l \<equiv> writer_item (writer l) @ log_queue l"

definition log_result :: "logger \<Rightarrow> string \<times> (string \<Rightarrow> string) \<times> (nat \<Rightarrow> nat)" where
  "log_result l = (logger_path l, log_files l, clock l)"

fun append_entry :: "log_entry \<Rightarrow> string \<times> (string \<Rightarrow> string) \<times> (nat \<Rightarrow> nat) \<Rightarrow> string \<times> (string \<Rightarrow> string) \<times> (nat \<Rightarrow> nat)" where
  "append_entry e (p, fs, clk) = (p, fs(p := fs p @ log_line (clk 0) e), \<lambda>i. clk (Suc i))"

text \<open>A logger whose file is open, from \<^verbatim>\<open>open\<close> to the join in \<^verbatim>\<open>stop\<close>.\<close>

definition logger_inv :: "logger \<Rightarrow> bool" where
  "logger_inv l \<longleftrightarrow> stream_open l \<and> logger_open l \<and> writer l \<noteq> NoWriter \<and>
    (writer l = AtEnd \<longrightarrow> log_queue l = [] \<and> \<not> logger_running l)"

lemma fold_append_entry:
  "fold append_entry es (p, fs, clk) = (p, fs(p := fs p @ log_text_of es clk), \<lambda>i. clk (length es + i))"
  by (induction es arbitrary: fs clk) simp_all

lemma take_entry_inv: "logger_inv l \<Longrightarrow> take_entry l = Some l' \<Longrightarrow>
    logger_inv l' \<and> log_result l' = log_result l \<and> logger_running l' = logger_running l \<and> waiting_entries l' = waiting_entries l"
  by (auto simp: take_entry_def logger_inv_def log_result_def writer_item_def split: list.splits if_splits)

lemma write_taken_inv: "logger_inv l \<Longrightarrow> write_taken l = Some l' \<Longrightarrow>
    logger_inv l' \<and> logger_running l' = logger_running l \<and>
    (\<exists>e. waiting_entries l = e # waiting_entries l' \<and> log_result l' = append_entry e (log_result l))"
  by (auto simp: write_taken_def write_entry_def logger_inv_def log_result_def writer_item_def split: writer.splits)

lemma logger_act_inv:
  assumes "logger_inv l" and "logger_act a l = Some l'"
  shows "logger_inv l'"
proof (cases a)
  case Take
  then show ?thesis using take_entry_inv[OF assms(1)] assms(2) by simp
next
  case Work
  then show ?thesis using write_taken_inv[OF assms(1)] assms(2) by simp
qed (use assms in \<open>auto simp: logger_inv_def enqueue_def split: if_splits\<close>)

lemma logger_not_stuck:
  assumes "logger_inv l" and "\<not> logger_running l" and "writer l \<noteq> AtEnd"
  shows "\<exists>a l'. (a = Take \<or> a = Work) \<and> logger_act a l = Some l' \<and>
      (a = Take \<longrightarrow> writer l' = AtEnd \<or> (\<exists>l''. logger_act Work l' = Some l''))"
proof (cases "writer l")
  case AtWait
  then show ?thesis
    using assms by (intro exI[of _ Take]) (auto simp: take_entry_def write_taken_def split: list.splits)
next
  case (Writing e)
  then show ?thesis by (intro exI[of _ Work]) (simp add: write_taken_def)
qed (use assms in \<open>simp_all add: logger_inv_def\<close>)

interpretation lg: work_queue logger_act waiting_entries logger_running log_result append_entry logger_inv "\<lambda>l. writer l = AtEnd"
proof
  fix l l' :: logger and a :: "log_entry action" and e :: log_entry
  assume inv: "logger_inv l"
  show "logger_act a l = Some l' \<Longrightarrow> logger_inv l'"
    using inv by (rule logger_act_inv)
  show "\<exists>s'. logger_act (Post e) l = Some s' \<and> log_result s' = log_result l \<and> logger_running s' = logger_running l \<and>
      waiting_entries s' = waiting_entries l @ (if logger_running l then [e] else [])"
    using inv by (simp add: enqueue_def log_result_def logger_inv_def)
  show "\<exists>s'. logger_act RequestStop l = Some s' \<and> log_result s' = log_result l \<and> \<not> logger_running s' \<and>
      waiting_entries s' = waiting_entries l"
    by (simp add: log_result_def)
  show "logger_act Take l = Some l' \<Longrightarrow>
      log_result l' = log_result l \<and> logger_running l' = logger_running l \<and> waiting_entries l' = waiting_entries l"
    using take_entry_inv[OF inv] by auto
  show "logger_act Work l = Some l' \<Longrightarrow> \<exists>c. waiting_entries l = c # waiting_entries l' \<and>
      log_result l' = append_entry c (log_result l) \<and> logger_running l' = logger_running l"
    using write_taken_inv[OF inv] by auto
  show "writer l = AtEnd \<Longrightarrow> waiting_entries l = [] \<and> \<not> logger_running l"
    using inv by (auto simp: logger_inv_def writer_item_def)
  show "\<exists>a s'. (a = Take \<or> a = Work) \<and> logger_act a l = Some s' \<and>
      (a = Take \<longrightarrow> writer s' = AtEnd \<or> (\<exists>s''. logger_act Work s' = Some s''))"
    if "\<not> logger_running l" and "writer l \<noteq> AtEnd"
    using logger_not_stuck[OF inv that] .
qed

lemma writer_loop_run:
  assumes "run_schedule logger_act as l = Some l'" and "set as \<subseteq> {Take, Work}" and "writer l' = AtEnd"
  shows "writer_loop l = Some l'"
  using assms
proof (induction as arbitrary: l)
  case Nil
  then show ?case by (subst writer_loop.simps) simp
next
  case (Cons a as)
  then obtain l1 where l1: "logger_act a l = Some l1" "writer_loop l1 = Some l'"
    by (auto simp: bind_eq_Some_conv)
  consider "take_entry l = Some l1" | "write_taken l = Some l1" using Cons.prems(2) l1(1) by auto
  then show ?case
    using l1(2) by cases (subst writer_loop.simps; auto simp: take_entry_def write_taken_def split: if_splits writer.splits)+
qed

lemma logger_stop_drains:
  assumes "logger_inv l"
  shows "\<exists>l'. logger_stop l = Some l' \<and> \<not> logger_running l' \<and> \<not> logger_open l' \<and> writer l' = NoWriter \<and>
    log_result l' = fold append_entry (waiting_entries l) (log_result l)"
proof -
  let ?l = "l\<lparr>logger_running := False\<rparr>"
  have inv: "logger_inv ?l" "\<not> logger_running ?l" using assms by (simp_all add: logger_inv_def)
  obtain as l' where run: "set as \<subseteq> {Take, Work}" "run_schedule logger_act as ?l = Some l'" "writer l' = AtEnd"
    using lg.can_finish[OF inv] by blast
  have "log_result l' = fold append_entry (waiting_entries l) (log_result l)"
    using lg.finished_drained[OF inv(1) run(2,3)] by (simp add: log_result_def)
  moreover have "\<not> logger_running l'" using lg.run_keeps_inv[OF inv(1) run(2)] run(3) by (simp add: logger_inv_def)
  moreover have "writer l \<noteq> NoWriter" using assms by (simp add: logger_inv_def)
  ultimately show ?thesis
    using writer_loop_run[OF run(2,1,3)] by (simp add: logger_stop_def log_result_def)
qed

lemma open_log_new: "open_log True path (new_logger fs clk) =
    Some \<lparr>logger_path = path, stream_open = True, log_queue = [], logger_running = True, logger_open = True,
      writer = AtWait, log_files = fs, clock = clk\<rparr>"
  by (simp add: open_log_def logger_stop_def new_logger_def)

lemma log_run_new:
  assumes "open_log True path (new_logger fs clk) = Some l" and "run_schedule logger_act as l = Some l'"
  shows "logger_inv l' \<and> (\<exists>ran. before_stop as = ran @ waiting_entries l' \<and>
    log_result l' = fold append_entry ran (path, fs, clk))"
proof -
  have l: "l = \<lparr>logger_path = path, stream_open = True, log_queue = [], logger_running = True, logger_open = True,
      writer = AtWait, log_files = fs, clock = clk\<rparr>"
    using assms(1) by (simp add: open_log_new)
  have inv: "logger_inv l" by (simp add: l logger_inv_def)
  show ?thesis
    using lg.run_keeps_inv[OF inv assms(2)] lg.serialises[OF inv assms(2)] by (auto simp: l writer_item_def log_result_def)
qed

text \<open>C34: The log is complete and in order. Whatever the threads log between \<^verbatim>\<open>open\<close> and \<^verbatim>\<open>stop\<close>, and however
  they interleave with the writer, \<^verbatim>\<open>stop\<close> returns, and then the file has, behind its earlier contents, a
  line for each entry, in the order in which the entries were logged; no other file is touched.\<close>

theorem log_complete:
  assumes "open_log True path (new_logger fs clk) = Some l" and "run_schedule logger_act as l = Some l'"
  shows "\<exists>l''. logger_stop l' = Some l'' \<and> log_files l'' = fs(path := fs path @ log_text_of (before_stop as) clk) \<and>
    \<not> logger_open l''"
proof -
  obtain ran where ran: "logger_inv l'" "before_stop as = ran @ waiting_entries l'" "log_result l' = fold append_entry ran (path, fs, clk)"
    using log_run_new[OF assms] by blast
  obtain l'' where l'': "logger_stop l' = Some l''" "\<not> logger_open l''"
    "log_result l'' = fold append_entry (waiting_entries l') (log_result l')"
    using logger_stop_drains[OF ran(1)] by blast
  have "log_result l'' = fold append_entry (before_stop as) (path, fs, clk)"
    using ran l''(3) by simp
  then show ?thesis using l'' by (auto simp: fold_append_entry log_result_def)
qed

theorem log_complete_witness:
  "\<exists>l l' l''. open_log True ''a.log'' (new_logger (\<lambda>_. '''') (\<lambda>_. 0)) = Some l \<and>
    run_schedule logger_act [Post \<lparr>entry_level = ''INFO'', entry_message = ''x''\<rparr>, Take,
      Post \<lparr>entry_level = ''WARN'', entry_message = ''y''\<rparr>] l = Some l' \<and> log_files l' ''a.log'' = '''' \<and>
    logger_stop l' = Some l'' \<and>
    log_files l'' ''a.log'' = log_line 0 \<lparr>entry_level = ''INFO'', entry_message = ''x''\<rparr> @
      log_line 0 \<lparr>entry_level = ''WARN'', entry_message = ''y''\<rparr>"
proof -
  let ?x = "\<lparr>entry_level = ''INFO'', entry_message = ''x''\<rparr>" and ?y = "\<lparr>entry_level = ''WARN'', entry_message = ''y''\<rparr>"
  let ?l = "\<lparr>logger_path = ''a.log'', stream_open = True, log_queue = [], logger_running = True, logger_open = True,
      writer = AtWait, log_files = (\<lambda>_. ''''), clock = (\<lambda>_. 0)\<rparr>"
  have run: "run_schedule logger_act [Post ?x, Take, Post ?y] ?l = Some (?l\<lparr>writer := Writing ?x, log_queue := [?y]\<rparr>)"
    by (simp add: enqueue_def take_entry_def)
  have "log_files (?l\<lparr>writer := Writing ?x, log_queue := [?y]\<rparr>) ''a.log'' = ''''" by simp
  moreover obtain l'' where "logger_stop (?l\<lparr>writer := Writing ?x, log_queue := [?y]\<rparr>) = Some l''"
    "log_files l'' ''a.log'' = log_line 0 ?x @ log_line 0 ?y"
    using log_complete[OF open_log_new run] by auto
  ultimately show ?thesis using run open_log_new by blast
qed

text \<open>C36: What \<^verbatim>\<open>flush\<close> gives: when it returns, every entry logged so far is in the file, except at most the
  last one, which the writer may have taken but not yet written.\<close>

theorem flush_guarantee:
  assumes "open_log True path (new_logger fs clk) = Some l" and "run_schedule logger_act as l = Some l'" and "flush_returns l'"
  shows "\<exists>ran last. before_stop as = ran @ last \<and> length last \<le> 1 \<and> (last \<noteq> [] \<longrightarrow> writer l' = Writing (hd last)) \<and>
    log_files l' = fs(path := fs path @ log_text_of ran clk)"
proof -
  obtain ran where "before_stop as = ran @ writer_item (writer l')" "log_result l' = fold append_entry ran (path, fs, clk)"
    using log_run_new[OF assms(1,2)] assms(3) by (auto simp: flush_returns_def)
  then show ?thesis
    by (intro exI[of _ ran] exI[of _ "writer_item (writer l')"])
      (auto simp: fold_append_entry log_result_def writer_item_def split: writer.splits)
qed

theorem flush_guarantee_witness:
  "\<exists>l l' ran last. open_log True ''a.log'' (new_logger (\<lambda>_. '''') (\<lambda>_. 0)) = Some l \<and>
    run_schedule logger_act [Post \<lparr>entry_level = ''INFO'', entry_message = ''x''\<rparr>, Take] l = Some l' \<and> flush_returns l' \<and>
    [\<lparr>entry_level = ''INFO'', entry_message = ''x''\<rparr>] = ran @ last \<and> length last \<le> 1 \<and>
    log_files l' ''a.log'' = log_text_of ran (\<lambda>_. 0)"
proof -
  let ?x = "\<lparr>entry_level = ''INFO'', entry_message = ''x''\<rparr>"
  let ?l = "\<lparr>logger_path = ''a.log'', stream_open = True, log_queue = [], logger_running = True, logger_open = True,
      writer = AtWait, log_files = (\<lambda>_. ''''), clock = (\<lambda>_. 0)\<rparr>"
  have run: "run_schedule logger_act [Post ?x, Take] ?l = Some (?l\<lparr>writer := Writing ?x\<rparr>)"
    by (simp add: enqueue_def take_entry_def)
  have flush: "flush_returns (?l\<lparr>writer := Writing ?x\<rparr>)" by (simp add: flush_returns_def)
  obtain ran last where r: "before_stop [Post ?x, Take] = ran @ last" "length last \<le> 1"
    "log_files (?l\<lparr>writer := Writing ?x\<rparr>) = (\<lambda>_. '''')(''a.log'' := '''' @ log_text_of ran (\<lambda>_. 0))"
    using flush_guarantee[OF open_log_new run flush] by blast
  have "[?x] = ran @ last" "log_files (?l\<lparr>writer := Writing ?x\<rparr>) ''a.log'' = log_text_of ran (\<lambda>_. 0)"
    using r(1) fun_cong[OF r(3), of "''a.log''"] by simp_all
  then show ?thesis
    using r(2) run flush open_log_new by blast
qed

text \<open>The comment at \<^verbatim>\<open>flush\<close> promises that the entries are on disk. They need not be: an entry that is logged
  and flushed while the writer holds it is missing from the file when \<^verbatim>\<open>flush\<close> returns.\<close>

theorem flush_can_return_early:
  "\<exists>l l'. open_log True path (new_logger fs clk) = Some l \<and> run_schedule logger_act [Post e, Take] l = Some l' \<and>
    flush_returns l' \<and> log_files l' = fs"
  by (simp add: open_log_new enqueue_def take_entry_def flush_returns_def)

end
