(* ===== verification/Spec2Isabelle.thy ===== *)
theory Spec2Isabelle
  imports EndToEnd Room Startup Logger
begin

text \<open>
  A verification development for a chat over Modbus TCP: a server that relays messages between clients,
  and clients that encrypt what they send. This theory imports the others and holds the properties that
  span client and server.

  \<^bold>\<open>The program.\<close> A client connects, is given an id, and may register a nickname. Every message is an
  application message in a Modbus TCP frame. The server runs one \<^verbatim>\<open>poll\<close> loop: it accepts clients, reads one
  message from each readable socket and hands it to a handler, which relays it under the id of the sending
  socket, registers a nickname, or answers with the list of users. An administrator bans ids from the
  console. A client has a thread for the keyboard and a thread for the socket. Clients exchange public keys
  through the server, the first client makes the room key and passes it on sealed, and messages are sealed
  for one peer or with the room key. Keys live in an encrypted file.

  \<^bold>\<open>Theories and sources.\<close> Paths are below \<^verbatim>\<open>src/\<close>; a definition has the name of the function it models, or
  that name with the class in front.

  \<^item> \<^verbatim>\<open>Prelude\<close>: exceptions (\<open>exn\<close>, results \<open>'a res\<close>), bytes and characters, big-endian fields, and the locales
    \<open>item_codec\<close> and \<open>strict_item_codec\<close> for the entries of encoded lists. \<^verbatim>\<open>Text\<close>: what the sources use of
    \<^verbatim>\<open>std::string\<close>, \<^verbatim>\<open>std::stoul\<close>, \<^verbatim>\<open>std::stoi\<close> and \<^verbatim>\<open>std::getline\<close>.
  \<^item> \<^verbatim>\<open>ModbusTcp\<close> (\<^verbatim>\<open>common/ModbusTcp.cpp\<close>): framing, encoder, decoder and the reading of frames from a socket.
    A socket is the list of what its reads will yield; \<open>None\<close> is a read that never returns.
  \<^item> \<^verbatim>\<open>Protocol\<close> (\<^verbatim>\<open>common/Protocol.cpp\<close>): all message types. \<^verbatim>\<open>Message\<close> (\<^verbatim>\<open>common/Message.hpp\<close>): typed messages
    and the parser of typed lines. \<^verbatim>\<open>Transport\<close> (\<^verbatim>\<open>common/transport\<close>, \<^verbatim>\<open>testing/MemoryMessageTransport.hpp\<close>):
    both transports behind the locale \<open>message_transport\<close>.
  \<^item> \<^verbatim>\<open>Registry\<close> (\<^verbatim>\<open>server/model/ClientRegistry.cpp\<close>), \<^verbatim>\<open>Admin\<close> (\<^verbatim>\<open>server/viewmodel/AdminCommandParser.cpp\<close>),
    \<^verbatim>\<open>Handlers\<close> (\<^verbatim>\<open>server/viewmodel/handlers\<close>, dispatcher, presence), \<^verbatim>\<open>Server\<close>
    (\<^verbatim>\<open>server/viewmodel/ServerViewModel.cpp\<close>): the record \<open>server\<close> has the members of the view model, every effect
    is appended to a trace, and \<open>server_step\<close> is the transition relation. \<^verbatim>\<open>ServerSafety\<close> has its invariant and
    the outcomes of its operations, \<^verbatim>\<open>ServerLoop\<close> the \<^verbatim>\<open>poll\<close> loop as a run of that relation, and \<^verbatim>\<open>Room\<close> the
    specification of the server, a chat room of members and barred ids, which the relation refines.
  \<^item> \<^verbatim>\<open>Config\<close> (\<^verbatim>\<open>common/Config.cpp\<close>), \<^verbatim>\<open>KeyStore\<close> (\<^verbatim>\<open>common/crypto/PeerKeyStore.cpp\<close>), \<^verbatim>\<open>Cipher\<close>
    (\<^verbatim>\<open>common/crypto/MonocypherMessageCipher.cpp\<close>, \<^verbatim>\<open>EncryptedKeyStoreFile.cpp\<close>): the primitives of Monocypher are the
    argument \<open>lib\<close>, with their documented laws as the hypotheses \<open>x25519_ok\<close>, \<open>aead_ok\<close> and \<open>blake2b_ok\<close>; the
    witnesses instantiate them with \<open>toy_lib\<close>.
  \<^item> \<^verbatim>\<open>ClientInput\<close> (\<^verbatim>\<open>client/viewmodel\<close>: parser, builder, presenter), \<^verbatim>\<open>Client\<close>
    (\<^verbatim>\<open>client/viewmodel/ClientViewModel.cpp\<close>): the record \<open>client\<close> has the members of the view model and the trace of
    its calls. \<^verbatim>\<open>ClientSafety\<close> has the transition relation \<open>client_step\<close> and what holds in every interleaving of
    the two threads and of signals; \<^verbatim>\<open>ClientRuns\<close> the start-up, the loops, and restarts.
  \<^item> \<^verbatim>\<open>Executor\<close> (\<^verbatim>\<open>common/concurrency/QueuedCommandExecutor.hpp\<close>), \<^verbatim>\<open>Logger\<close> (\<^verbatim>\<open>common/logging/FileLogger.cpp\<close>) and
    \<^verbatim>\<open>Output\<close> (\<^verbatim>\<open>client/view\<close>, \<^verbatim>\<open>server/view\<close>): queues with a worker thread behind the locale \<open>work_queue\<close>; a schedule
    is a list of critical sections, so that a theorem about all schedules is one about all interleavings.
  \<^item> \<^verbatim>\<open>Sockets\<close> (\<^verbatim>\<open>server/transport/TcpListenSocket.cpp\<close>, \<^verbatim>\<open>client/transport/TcpClientConnector.cpp\<close>) and
    \<^verbatim>\<open>Startup\<close> (\<^verbatim>\<open>client/main.cpp\<close>, \<^verbatim>\<open>server/main.cpp\<close>): system calls by their answers, and both programs from the
    configuration to the exit code.
  \<^item> \<^verbatim>\<open>EndToEnd\<close>: one hop of a message from a client through the server to another client.

  \<^bold>\<open>What is shown.\<close> End to end: a typed message is shown to the peer under the true id of the sender, and a
  newcomer obtains the keys. Framing and protocol: round trips for all inputs, over any segmentation, the
  rejection of truncated input, memory safety, and the sizes at which fields wrap. Server: relayed messages
  carry the id of the socket, banned clients neither send nor receive chats, the registry stays consistent
  in every reachable state and the server refines a chat room, no input of a client raises an exception out of the loop, and stopping works.
  Client: everything it sends is sealed, keys keep their shape, messages never raise an exception, both
  loops follow the relation, the receiving loop ends with the connection, keys survive a restart. Queues:
  order and completeness under every schedule. Where the code does something its comments or its structure
  do not intend, a theorem states what it does.

  \<^bold>\<open>Termination and bounds.\<close> No definition uses fuel. Reading frames recurses on the list of socket events,
  the parsers on their input. \<open>skip_banned\<close>, \<open>receive_loop\<close>, \<open>dispatcher_loop\<close> and \<open>writer_loop\<close> are partial functions;
  for each there is a theorem that says when it returns. The loop of the server runs over a list with one
  entry for each return of \<^verbatim>\<open>poll\<close>; the theorems hold for every such list. Machine integers are words:
  ids have 32 bits, lengths and ports 16.

  \<^bold>\<open>Not modelled.\<close>

  \<^item> Monocypher, the system calls, the file system and the clock are not part of the sources. They appear
    as arguments and as the part of the state that answers for them. A write to the log file always succeeds.
  \<^item> A handler runs as one step. The mutex of the client and the locks of the queues justify this for what
    they protect. The signal handler of the server, which reads the registry while the server thread may
    change it, is a data race in the program; the model lets a stop request arrive only while \<^verbatim>\<open>poll\<close> waits.
  \<^item> \<^verbatim>\<open>server/Server.cpp\<close> forwards each call to the view model, and the headers of interfaces only declare;
    \<^verbatim>\<open>sigaction\<close> calls in the programs, tests, test doubles and benchmarks are left out.
  \<^item> Secrecy against an attacker who computes is not stated: the laws of the primitives are functional.
\<close>

section \<open>Properties across components\<close>

text \<open>C1: A message arrives. When a user types the id of a connected peer, a colon and a text, and the two
  clients hold each other's public keys, then the client sends one frame; the server, however the frame
  is cut on its way, relays it to the peer's socket only; and the peer's client shows the text, under
  the id of the sender.\<close>

theorem chat_end_to_end:
  assumes "x25519_ok lib" and "aead_ok lib" and "know_each_other lib alice bob" and "send_results alice 0"
    and "length txt \<le> 65000" and "registry_inv (srv_registry s)"
    and "connected s fa (me alice)" and "connected s fb (me bob)"
  shows "\<exists>cmd p m. parse_input_line (to_string (unat (me bob)) @ '':'' @ txt) (me alice) = Inr cmd \<and>
    fst (handle_input_command lib cmd alice) = Inr () \<and>
    events (snd (handle_input_command lib cmd alice)) = events alice @ [ClientSend Chat p] \<and>
    relays s fa Chat p fb m \<and>
    events (snd (handle_incoming lib m bob)) = events bob @ [ShowDelivered (me alice) txt]"
proof -
  let ?cmd = "\<lparr>cmd_type = CmdChatById, recipient_id = me bob, recipient_nickname = '''', cmd_text = txt\<rparr>"
  obtain body p where b: "build_chat_like (me alice) 1 (encode_u32_be (me bob)) body = Inr p" "fits_frame p"
    "fst (send_encrypted_chat_by_id lib (me bob) txt alice) = Inr ()"
    "events (snd (send_encrypted_chat_by_id lib (me bob) txt alice)) = events alice @ [ClientSend Chat p]"
    "fst (decrypt_deliver lib (me alice) body bob) = Some txt" "snd (decrypt_deliver lib (me alice) body bob) = bob"
    using assms(1-3,5,4) by (rule chat_sent)
  let ?m = "\<lparr>msg_type = Deliver, payload = DeliverPayload (me alice) body\<rparr>"
  have "relays s fa Chat p fb ?m"
    by (rule relays_unicast[where lab = "''Chat''"]) (use assms b in \<open>auto simp: relay_kinds_def\<close>)
  moreover have "decrypt_deliver lib (me alice) body bob = (Some txt, bob)" using b(5,6) by (metis prod.collapse)
  then have "events (snd (handle_incoming lib ?m bob)) = events bob @ [ShowDelivered (me alice) txt]"
    by (simp add: handle_incoming_def)
  ultimately show ?thesis
    using b(3,4) parse_chat_by_id[of "me bob" "txt" "me alice"]
    by (intro exI[of _ ?cmd] exI[of _ p] exI[of _ ?m]) (simp add: handle_input_command_def)
qed

text \<open>Two clients and a server for the examples; in the toy library a public key equals its secret key.\<close>

definition toy_client :: "u32 \<Rightarrow> byte \<Rightarrow> bytes option \<Rightarrow> (u32 \<times> bytes) list \<Rightarrow> client" where
  "toy_client i b room ps =
    (new_client sample_config (\<lambda>_. True) [] (toy_entropy 1) Map.empty)
      \<lparr>session := \<lparr>config = sample_config, socket_fd = 7, my_id = i\<rparr>,
       key_store := \<lparr>identity_secret = replicate 32 b, identity_public = replicate 32 b, room_key = room, peers = ps\<rparr>\<rparr>"

definition toy_server :: server where
  "toy_server = (init_server 3)\<lparr>srv_context := sample_context\<rparr>"

lemma toy_server_simps:
  "registry_inv (srv_registry toy_server)" "connected toy_server 7 1" "connected toy_server 9 2"
  using sample_context_inv sample_context_find
  by (auto simp: toy_server_def connected_def sample_context_def)

lemma toy_client_simps [simp]:
  "me (toy_client i b room ps) = i" "events (toy_client i b room ps) = []" "key_offered_to (toy_client i b room ps) = {}"
  "key_store (toy_client i b room ps) = \<lparr>identity_secret = replicate 32 b, identity_public = replicate 32 b, room_key = room, peers = ps\<rparr>"
  "send_results (toy_client i b room ps) n"
  by (simp_all add: toy_client_def new_client_def)

lemma toy_client_ready: "ready toy_lib (toy_client i b room ps)"
  by (simp add: ready_def toy_lib_def)

theorem chat_end_to_end_witness:
  "\<exists>p m. relays toy_server 7 Chat p 9 m \<and>
     events (snd (handle_incoming toy_lib m (toy_client 2 5 None [(1, replicate 32 3)]))) = [ShowDelivered 1 ''hello'']"
proof -
  have "know_each_other toy_lib (toy_client 1 3 None [(2, replicate 32 5)]) (toy_client 2 5 None [(1, replicate 32 3)])"
    by (rule know_each_otherI) (simp_all add: toy_client_ready peer_public_def)
  then show ?thesis
    using chat_end_to_end[OF toy_lib_ok(1,2), of "toy_client 1 3 None [(2, replicate 32 5)]" "toy_client 2 5 None [(1, replicate 32 3)]"
        "''hello''" toy_server 7 9] toy_server_simps by auto
qed

text \<open>C2: How a newcomer gets its keys. When a client that holds the room key is told that another one
  joined, it offers its public key; the newcomer stores it and answers with its own; the first client
  stores that and sends the room key, sealed. After these three relayed messages the two clients know
  each other's keys, and the newcomer has the room key.\<close>

theorem join_protocol:
  assumes "x25519_ok lib" and "aead_ok lib" and "registry_inv (srv_registry s)"
    and "connected s fa (me alice)" and "connected s fb (me bob)" and "me alice \<noteq> me bob" and "me alice \<noteq> 0" and "me bob \<noteq> 0"
    and "ready lib alice" and "ready lib bob" and "me bob \<notin> key_offered_to alice" and "me alice \<notin> key_offered_to bob"
    and "room_key (key_store alice) = Some rk" and "length rk = 32" and "room_key (key_store bob) = None"
  shows "\<exists>alice1 p1 m1 bob1 p2 m2 alice2 p3 m3 bob2.
    alice1 = snd (handle_incoming lib \<lparr>msg_type = UserJoined, payload = UserJoinedPayload (me bob) n\<rparr> alice) \<and>
    ClientSend KeyOffer p1 \<in> set (events alice1) \<and> relays s fa KeyOffer p1 fb m1 \<and>
    bob1 = snd (handle_incoming lib m1 bob) \<and>
    ClientSend KeyOffer p2 \<in> set (events bob1) \<and> relays s fb KeyOffer p2 fa m2 \<and>
    alice2 = snd (handle_incoming lib m2 alice1) \<and>
    ClientSend RoomKeyOffer p3 \<in> set (events alice2) \<and> relays s fa RoomKeyOffer p3 fb m3 \<and>
    bob2 = snd (handle_incoming lib m3 bob1) \<and>
    know_each_other lib alice2 bob2 \<and> room_key (key_store alice2) = Some rk \<and> room_key (key_store bob2) = Some rk"
proof -
  let ?pka = "identity_public (key_store alice)" and ?pkb = "identity_public (key_store bob)"
  have la: "length ?pka = 32" and lb: "length ?pkb = 32" using ready_public assms(1,9,10) by auto
  obtain p1 alice1 where a1: "alice1 = snd (handle_incoming lib \<lparr>msg_type = UserJoined, payload = UserJoinedPayload (me bob) n\<rparr> alice)"
    "ClientSend KeyOffer p1 \<in> set (events alice1)" "build_chat_like (me alice) 1 (encode_u32_be (me bob)) (bytes_string ?pka) = Inr p1"
    "fits_frame p1" "key_store alice1 = key_store alice" "me alice1 = me alice" "ready lib alice1" "me bob \<in> key_offered_to alice1"
    using hop_offer[OF assms(1,9,11,8)] assms(6) by metis
  let ?m1 = "\<lparr>msg_type = PeerKey, payload = DeliverPayload (me alice) (bytes_string ?pka)\<rparr>"
  have r1: "relays s fa KeyOffer p1 fb ?m1"
    using a1(3,4) by (intro relays_unicast[where lab = "''KeyOffer''", OF assms(3-5)]) (auto simp: relay_kinds_def)
  obtain p2 bob1 where b1: "bob1 = snd (handle_incoming lib ?m1 bob)" "ClientSend KeyOffer p2 \<in> set (events bob1)"
    "build_chat_like (me bob) 1 (encode_u32_be (me alice)) (bytes_string ?pkb) = Inr p2" "fits_frame p2" "me bob1 = me bob" "ready lib bob1"
    "key_store bob1 = (key_store bob)\<lparr>peers := AList.update (me alice) ?pka (peers (key_store bob))\<rparr>"
    using hop_answer[OF assms(1,10,12,7,6) assms(15) la] by metis
  let ?m2 = "\<lparr>msg_type = PeerKey, payload = DeliverPayload (me bob) (bytes_string ?pkb)\<rparr>"
  have r2: "relays s fb KeyOffer p2 fa ?m2"
    using b1(3,4) by (intro relays_unicast[where lab = "''KeyOffer''", OF assms(3,5,4)]) (auto simp: relay_kinds_def)
  have keys: "matching_keys lib (identity_secret (key_store alice1)) ?pkb (identity_secret (key_store bob)) ?pka"
    using assms(9,10) a1(5) by (simp add: ready_def matching_keys_def)
  obtain p3 alice2 body where a2: "alice2 = snd (handle_incoming lib ?m2 alice1)" "ClientSend RoomKeyOffer p3 \<in> set (events alice2)"
    "build_chat_like (me alice) 1 (encode_u32_be (me bob)) body = Inr p3" "fits_frame p3" "me alice2 = me alice"
    "key_store alice2 = (key_store alice)\<lparr>peers := AList.update (me bob) ?pkb (peers (key_store alice))\<rparr>"
    "open_room_key lib (identity_secret (key_store bob)) ?pka (string_bytes body) = Inr rk"
    using hop_room[OF assms(1,2) _ assms(14) a1(8) lb keys] assms(13) a1(5,6) by metis
  let ?m3 = "\<lparr>msg_type = RoomKey, payload = DeliverPayload (me alice) body\<rparr>"
  have r3: "relays s fa RoomKeyOffer p3 fb ?m3"
    using a2(3,4) by (intro relays_unicast[where lab = "''RoomKeyOffer''", OF assms(3-5)]) (auto simp: relay_kinds_def)
  define bob2 where "bob2 = snd (handle_incoming lib ?m3 bob1)"
  have b2: "key_store bob2 = (key_store bob1)\<lparr>room_key := Some rk\<rparr>" "me bob2 = me bob"
    using a2(7) b1(5,7) assms(14) unfolding bob2_def by (simp_all add: hop_store peer_public_update)
  have k: "know_each_other lib alice2 bob2"
    using a2(5,6) b2 b1(7) assms(9,10)
    by (auto simp: know_each_other_def matching_keys_def ready_def peer_public_def update_conv')
  have rk: "room_key (key_store alice2) = Some rk" "room_key (key_store bob2) = Some rk" using a2(6) assms(13) b2(1) by simp_all
  show ?thesis
    by (intro exI[of _ alice1] exI[of _ p1] exI[of _ ?m1] exI[of _ bob1] exI[of _ p2] exI[of _ ?m2] exI[of _ alice2]
        exI[of _ p3] exI[of _ ?m3] exI[of _ bob2] conjI a1(1,2) r1 b1(1,2) r2 a2(1,2) r3 bob2_def k rk)
qed

theorem join_protocol_witness:
  "\<exists>alice2 bob2. know_each_other toy_lib alice2 bob2 \<and> room_key (key_store bob2) = Some (replicate 32 9)"
proof -
  let ?a = "toy_client 1 3 (Some (replicate 32 9)) []" and ?b = "toy_client 2 5 None []"
  have "\<exists>alice1 p1 m1 bob1 p2 m2 alice2 p3 m3 bob2.
    alice1 = snd (handle_incoming toy_lib \<lparr>msg_type = UserJoined, payload = UserJoinedPayload (me ?b) ''''\<rparr> ?a) \<and>
    ClientSend KeyOffer p1 \<in> set (events alice1) \<and> relays toy_server 7 KeyOffer p1 9 m1 \<and>
    bob1 = snd (handle_incoming toy_lib m1 ?b) \<and>
    ClientSend KeyOffer p2 \<in> set (events bob1) \<and> relays toy_server 9 KeyOffer p2 7 m2 \<and>
    alice2 = snd (handle_incoming toy_lib m2 alice1) \<and>
    ClientSend RoomKeyOffer p3 \<in> set (events alice2) \<and> relays toy_server 7 RoomKeyOffer p3 9 m3 \<and>
    bob2 = snd (handle_incoming toy_lib m3 bob1) \<and>
    know_each_other toy_lib alice2 bob2 \<and> room_key (key_store alice2) = Some (replicate 32 9) \<and>
    room_key (key_store bob2) = Some (replicate 32 9)"
    by (rule join_protocol[OF toy_lib_ok(1,2)]) (use toy_server_simps in \<open>simp_all add: toy_client_ready\<close>)
  then show ?thesis by blast
qed

end
